(* ===== verification/Go_Prelude.thy ===== *)
theory Go_Prelude
  imports Main "HOL-Library.Word" "HOL-Library.Sublist" "HOL-Library.Char_ord" "HOL-Library.List_Lexorder"
begin

text \<open>
  Shared base of the development: the collections of facts the component theories extend, Go's
  fixed-width integers, the decimal conversions of \<^verbatim>\<open>strconv\<close> and \<^verbatim>\<open>fmt\<close> that the program
  uses, and list lemmas. Go's \<^verbatim>\<open>int64\<close> and \<^verbatim>\<open>int\<close> are \<^typ>\<open>int\<close> values on which every
  operation that can overflow is followed by \<open>wrap64\<close>; \<^verbatim>\<open>uint32\<close> is \<^typ>\<open>32 word\<close>. Byte strings
  (paths, headers, flags) are \<^typ>\<open>string\<close>; text whose runes are counted is a list of code points.
\<close>

named_theorems wp_simps \<open>weakest-precondition equations of the effect combinators\<close>
named_theorems fs_simps \<open>lookups in an updated file system\<close>
named_theorems go_defs \<open>definitions unfolded when a handler is executed symbolically\<close>

type_synonym u32 = "32 word"
type_synonym rune = nat
type_synonym gotext = "rune list"

section \<open>Signed 64-bit arithmetic\<close>

definition wrap64 :: "int \<Rightarrow> int" where
  "wrap64 x = (x + 2 ^ 63) mod 2 ^ 64 - 2 ^ 63"

definition int64_range :: "int \<Rightarrow> bool" where
  "int64_range x \<longleftrightarrow> - (2 ^ 63) \<le> x \<and> x < 2 ^ 63"

lemma wrap64_id [simp]: "int64_range x \<Longrightarrow> wrap64 x = x"
  by (simp add: wrap64_def int64_range_def)

lemma wrap64_range [simp, intro]: "int64_range (wrap64 x)"
  using pos_mod_bound [of "2 ^ 64" "x + 2 ^ 63"] pos_mod_sign [of "2 ^ 64" "x + 2 ^ 63"]
  by (simp add: wrap64_def int64_range_def)

lemma wrap64_add_left [simp]: "wrap64 (wrap64 x + y) = wrap64 (x + y)"
proof -
  have "((x + 2 ^ 63) mod 2 ^ 64 - 2 ^ 63 + y + 2 ^ 63) mod 2 ^ 64
      = ((x + 2 ^ 63) mod 2 ^ 64 + y) mod 2 ^ 64" by (simp add: algebra_simps)
  also have "\<dots> = (x + 2 ^ 63 + y) mod 2 ^ 64" by (rule mod_add_left_eq)
  also have "\<dots> = (x + y + 2 ^ 63) mod 2 ^ 64" by (simp add: algebra_simps)
  finally show ?thesis unfolding wrap64_def by simp
qed

lemma wrap64_add_right [simp]: "wrap64 (x + wrap64 y) = wrap64 (x + y)"
  using wrap64_add_left [of y x] by (simp add: add.commute)

text \<open>A loop that adds into an \<^verbatim>\<open>int64\<close> accumulator computes the wrapped mathematical sum.\<close>

fun sum64 :: "int \<Rightarrow> int list \<Rightarrow> int" where
  "sum64 acc [] = acc"
| "sum64 acc (x # xs) = sum64 (wrap64 (acc + x)) xs"

lemma sum64_wrap: "int64_range acc \<Longrightarrow> sum64 acc xs = wrap64 (acc + sum_list xs)"
  by (induction xs arbitrary: acc) (simp_all add: add.assoc)

lemma sum64_exact:
  "int64_range acc \<Longrightarrow> int64_range (acc + sum_list xs) \<Longrightarrow> sum64 acc xs = acc + sum_list xs"
  by (simp add: sum64_wrap)

section \<open>Decimal numbers\<close>

definition is_digit :: "char \<Rightarrow> bool" where
  "is_digit c \<longleftrightarrow> 48 \<le> (of_char c :: nat) \<and> (of_char c :: nat) \<le> 57"

definition digit_val :: "char \<Rightarrow> nat" where
  "digit_val c = of_char c - 48"

definition digit_char :: "nat \<Rightarrow> char" where
  "digit_char d = char_of (48 + d)"

lemma digit_char [simp]:
  assumes "d < 10"
  shows "is_digit (digit_char d)" and "digit_val (digit_char d) = d"
proof -
  have "of_char (char_of (48 + d) :: char) = (48 + d) mod 256" by simp
  also have "\<dots> = 48 + d" using assms by simp
  finally have "of_char (digit_char d) = 48 + d" by (simp add: digit_char_def)
  with assms show "is_digit (digit_char d)" and "digit_val (digit_char d) = d"
    by (simp_all add: is_digit_def digit_val_def)
qed

text \<open>The verb \<^verbatim>\<open>%d\<close> on a non-negative number.\<close>

fun dec_string :: "nat \<Rightarrow> string" where
  "dec_string n = (if n < 10 then [digit_char n] else dec_string (n div 10) @ [digit_char (n mod 10)])"

declare dec_string.simps [simp del]

definition dec_int :: "int \<Rightarrow> string" where
  "dec_int i = (if i < 0 then CHR ''-'' # dec_string (nat (- i)) else dec_string (nat i))"

text \<open>The verb \<^verbatim>\<open>%0<w>d\<close>: zeros on the left up to the width.\<close>

definition zero_pad :: "nat \<Rightarrow> string \<Rightarrow> string" where
  "zero_pad width s = replicate (width - length s) CHR ''0'' @ s"

definition digits_val :: "string \<Rightarrow> nat" where
  "digits_val s = foldl (\<lambda>n c. 10 * n + digit_val c) 0 s"

lemma dec_string_digits: "list_all is_digit (dec_string n)" and dec_string_nonempty: "dec_string n \<noteq> []"
  by (induction n rule: dec_string.induct) (subst dec_string.simps, simp)+

lemma digits_val_snoc: "digits_val (s @ [c]) = 10 * digits_val s + digit_val c"
  by (simp add: digits_val_def)

lemma digits_val_dec_string [simp]: "digits_val (dec_string n) = n"
proof (induction n rule: dec_string.induct)
  case (1 n)
  show ?case
  proof (cases "n < 10")
    case True
    then show ?thesis by (subst dec_string.simps) (simp add: digits_val_def)
  next
    case False
    with "1.IH" show ?thesis by (subst dec_string.simps) (simp add: digits_val_snoc)
  qed
qed

lemma digit_zero [simp]: "is_digit CHR ''0''" "digit_val CHR ''0'' = 0"
  by (simp_all add: is_digit_def digit_val_def)

lemma digits_val_zeros: "digits_val (replicate k CHR ''0'' @ s) = digits_val s"
  by (induction k) (simp_all add: digits_val_def)

lemma dec_string_inj [simp]: "dec_string m = dec_string n \<longleftrightarrow> m = n"
  by (metis digits_val_dec_string)

lemma zero_pad_facts:
  shows zero_pad_val: "digits_val (zero_pad w s) = digits_val s"
    and zero_pad_digits: "list_all is_digit s \<Longrightarrow> list_all is_digit (zero_pad w s)"
    and zero_pad_nonempty: "s \<noteq> [] \<Longrightarrow> zero_pad w s \<noteq> []"
  by (auto simp: zero_pad_def digits_val_zeros list_all_iff)

text \<open>\<^verbatim>\<open>strconv.ParseUint(s, 10, bits)\<close>: at least one digit, only digits, within range.\<close>

definition parse_uint :: "nat \<Rightarrow> string \<Rightarrow> nat option" where
  "parse_uint bits s =
     (if s \<noteq> [] \<and> list_all is_digit s \<and> digits_val s < 2 ^ bits then Some (digits_val s) else None)"

text \<open>\<^verbatim>\<open>strconv.Atoi\<close>: an optional sign, then digits, within the range of \<^verbatim>\<open>int\<close>.\<close>

definition atoi :: "string \<Rightarrow> int option" where
  "atoi s =
     (let (neg, ds) = (case s of c # t \<Rightarrow> if c = CHR ''-'' then (True, t)
                                        else if c = CHR ''+'' then (False, t) else (False, s)
                               | [] \<Rightarrow> (False, []));
          v = (if neg then - int (digits_val ds) else int (digits_val ds))
      in if ds \<noteq> [] \<and> list_all is_digit ds \<and> int64_range v then Some v else None)"

lemma parse_uint_padded [simp]:
  "n < 2 ^ bits \<Longrightarrow> parse_uint bits (zero_pad w (dec_string n)) = Some n"
  by (simp add: parse_uint_def zero_pad_facts dec_string_digits dec_string_nonempty)

lemma parse_uint_dec_string [simp]: "n < 2 ^ bits \<Longrightarrow> parse_uint bits (dec_string n) = Some n"
  by (simp add: parse_uint_def dec_string_digits dec_string_nonempty)

lemma digit_not_sign: "is_digit c \<Longrightarrow> c \<noteq> CHR ''-'' \<and> c \<noteq> CHR ''+''"
  by (auto simp: is_digit_def)

lemma atoi_dec_string [simp]:
  assumes "int n < 2 ^ 63"
  shows "atoi (dec_string n) = Some (int n)"
proof -
  obtain c t where ct: "dec_string n = c # t" using dec_string_nonempty by (cases "dec_string n") auto
  then have "is_digit c" using dec_string_digits [of n] by simp
  then have "c \<noteq> CHR ''-''" and "c \<noteq> CHR ''+''" by (simp_all add: digit_not_sign)
  with ct assms dec_string_digits [of n] digits_val_dec_string [of n] show ?thesis
    by (simp add: atoi_def int64_range_def)
qed

lemma unat_u32_bound [simp]: "unat (u :: u32) < 4294967296"
  using unsigned_less [of u, where ?'a = nat] by simp

lemma u32_of_unat [simp]: "word_of_nat (unat (u :: u32)) = u"
  by simp

lemma unat_u32_inj [simp]: "unat (u :: u32) = unat v \<longleftrightarrow> u = v"
  by (metis u32_of_unat)

section \<open>Byte strings\<close>

text \<open>\<^verbatim>\<open>strings.ToLower\<close> on ASCII letters; the program applies it to MIME types, file names and hosts.\<close>

definition to_lower :: "string \<Rightarrow> string" where
  "to_lower s = map (\<lambda>c. if CHR ''A'' \<le> c \<and> c \<le> CHR ''Z'' then char_of ((of_char c :: nat) + 32) else c) s"

definition has_suffix :: "string \<Rightarrow> string \<Rightarrow> bool" where
  "has_suffix s suf \<longleftrightarrow> suffix suf s"

definition has_prefix :: "string \<Rightarrow> string \<Rightarrow> bool" where
  "has_prefix s pre \<longleftrightarrow> prefix pre s"

fun contains_str :: "string \<Rightarrow> string \<Rightarrow> bool" where
  "contains_str [] sub = (sub = [])"
| "contains_str (c # s) sub = (prefix sub (c # s) \<or> contains_str s sub)"

lemma contains_str_sublist: "contains_str s sub \<longleftrightarrow> sublist sub s"
  by (induction s) (auto simp: sublist_Cons_right)

text \<open>\<^verbatim>\<open>strings.TrimSuffix\<close>.\<close>

definition trim_suffix :: "string \<Rightarrow> string \<Rightarrow> string" where
  "trim_suffix s suf = (if has_suffix s suf then take (length s - length suf) s else s)"

lemma trim_suffix_append [simp]: "trim_suffix (s @ suf) suf = s"
  by (auto simp: trim_suffix_def has_suffix_def suffix_def)

section \<open>Lists\<close>

lemma filter_partition_length:
  "length (filter P xs) + length (filter (\<lambda>x. \<not> P x) xs) = length xs"
  by (induction xs) auto

lemma map_of_filter_key:
  "map_of (filter (\<lambda>e. P (fst e)) xs) k = (if P k then map_of xs k else None)"
  by (induction xs) auto

lemma dom_keys: "k \<in> set (map fst xs) \<longleftrightarrow> map_of xs k \<noteq> None"
  by (metis map_of_eq_None_iff set_map)

end
