(* ===== verification/Go_Error.thy ===== *)
theory Go_Error
  imports Go_Prelude
begin

text \<open>
  Errors as values. \<^verbatim>\<open>fmt.Errorf("...: %w", err)\<close> is \<open>Wrap\<close>, \<^verbatim>\<open>errors.Join\<close> is \<open>Join\<close>, and the
  remaining constructors are the error values and error types that the packages declare
  (\<^verbatim>\<open>internal/store/errors.go\<close>, \<^verbatim>\<open>internal/store/emails.go\<close>, \<^verbatim>\<open>internal/store/permission.go\<close>,
  \<^verbatim>\<open>internal/storelock/storelock.go\<close>, \<^verbatim>\<open>cmd/tlsrpt-digest/lock.go\<close>, \<^verbatim>\<open>internal/imap\<close>, \<^verbatim>\<open>cmd/tlsrpt-digest/fetch.go\<close>); \<open>ErrIMAP\<close> is an error of the IMAP
  library with its text, \<open>ErrNotify\<close> an error of the notifier, \<open>ErrConfig\<close> one of the configuration.
  \<^verbatim>\<open>errors.Is\<close> and \<^verbatim>\<open>errors.AsType\<close> search the tree of wrapped errors.
\<close>

type_synonym path = "string list"

datatype errno = ENOENT | ENOTDIR | EISDIR | ENOTEMPTY | EEXIST | EACCES | EIO

record IMAPIdentity =
  identity_Host :: string
  identity_Port :: int
  identity_Mailbox :: string

datatype go_error =
    OsError errno
  | Wrap string go_error
  | Join "go_error list"
  | ErrMarshal
  | ErrUnmarshal
  | ErrReadOnly
  | ErrStoreIdentityMismatch path IMAPIdentity IMAPIdentity
  | ErrUnsupportedSchemaVersion path int
  | ErrAtomicWriteFailed path string go_error
  | ErrInvalidEmailPath path
  | ErrLoadEmailFailed path u32 u32 go_error
  | ErrDeleteEmailFailed path u32 u32 go_error
  | ErrDataCorrupted
  | ErrPendingReset
  | ErrRecoveryRequiredMissing
  | ErrRecoveryUIDValidityMismatch u32 u32
  | ErrInvalidStoreMode
  | ErrResetManifestVersionMismatch int int
  | ErrResetManifestPhaseUnknown int
  | ErrPathIsNotDir
  | ErrTargetNotRegularFile path
  | ErrZeroInternalDate
  | ErrEmailsPathNotDirectory path
  | ErrMessageUnreadable
  | ErrLockHeld
  | ErrRootDirNotDirectory
  | ErrRootDirPermission
  | ErrContextDone
  | ErrIMAP string
  | ErrMailboxReadOnly
  | ErrUIDNotFound u32
  | ErrBodyTooLarge u32
  | ErrFetchDownloadMissingUID u32
  | ErrNotify
  | ErrConfig

text \<open>The errors reachable through \<^verbatim>\<open>Unwrap\<close>, outermost first.\<close>

fun err_chain :: "go_error \<Rightarrow> go_error list" and err_chains :: "go_error list \<Rightarrow> go_error list" where
  "err_chain (Wrap s e) = Wrap s e # err_chain e"
| "err_chain (Join es) = Join es # err_chains es"
| "err_chain (ErrAtomicWriteFailed p op e) = ErrAtomicWriteFailed p op e # err_chain e"
| "err_chain (ErrLoadEmailFailed p u v e) = ErrLoadEmailFailed p u v e # err_chain e"
| "err_chain (ErrDeleteEmailFailed p u v e) = ErrDeleteEmailFailed p u v e # err_chain e"
| "err_chain e = [e]"
| "err_chains [] = []"
| "err_chains (e # es) = err_chain e @ err_chains es"

definition errors_Is :: "go_error \<Rightarrow> go_error \<Rightarrow> bool" where
  "errors_Is e target \<longleftrightarrow> target \<in> set (err_chain e)"

definition is_not_exist :: "go_error \<Rightarrow> bool" where
  "is_not_exist e \<longleftrightarrow> errors_Is e (OsError ENOENT)"

definition is_permission :: "go_error \<Rightarrow> bool" where
  "is_permission e \<longleftrightarrow> errors_Is e (OsError EACCES)"

lemma errors_Is_simps [simp]:
  "errors_Is (Wrap s e) (OsError n) \<longleftrightarrow> errors_Is e (OsError n)"
  "errors_Is (OsError m) (OsError n) \<longleftrightarrow> m = n"
  "errors_Is (ErrAtomicWriteFailed p op e) (OsError n) \<longleftrightarrow> errors_Is e (OsError n)"
  "errors_Is ErrMarshal (OsError n) \<longleftrightarrow> False"
  "errors_Is ErrUnmarshal (OsError n) \<longleftrightarrow> False"
  by (auto simp: errors_Is_def)

end
