(* ===== verification/Go_IO.thy ===== *)
theory Go_IO
  imports Go_Error
begin

text \<open>
  Effects: a file system, the fallible system calls of package \<^verbatim>\<open>os\<close> the program makes, and the
  control structures of its error handling. A world holds the file system, the clock, and a schedule
  that decides for each system call whether it passes, fails (with a permission or an I/O error) or
  the process dies at it. A theorem about every schedule is a theorem about every interleaving of
  faults and crashes; an empty schedule is an undisturbed run. Interrupted \<^verbatim>\<open>RemoveAll\<close> and
  \<^verbatim>\<open>MkdirAll\<close> may have done any part of their work: the part is an argument of the fault.

  Reasoning is by \<open>vwp\<close>, a weakest precondition over the visible file system (everything outside
  the temporary files of \<^verbatim>\<open>os.CreateTemp\<close>), one rule per combinator and system call.
\<close>

section \<open>File system\<close>

datatype 'c node = Dir (node_mode: nat) | Reg (node_mode: nat) (node_content: 'c)

type_synonym 'c fsys = "(path \<times> 'c node) list"
type_synonym 'c view = "path \<Rightarrow> 'c node option"

datatype fault = Pass | Fail bool "path list" | Halt "path list"

record 'c world =
  fs :: "'c fsys"
  sched :: "fault list"
  clock :: int

definition is_dir :: "'c node \<Rightarrow> bool" where
  "is_dir n = (case n of Dir m \<Rightarrow> True | Reg m c \<Rightarrow> False)"

lemma is_dir_simps [simp]: "is_dir (Dir m)" "\<not> is_dir (Reg m c)"
  by (simp_all add: is_dir_def)

lemma is_dirE: "is_dir n \<Longrightarrow> (\<And>m. n = Dir m \<Longrightarrow> P) \<Longrightarrow> P"
  by (cases n) auto

lemma not_is_dirE: "\<not> is_dir n \<Longrightarrow> (\<And>m c. n = Reg m c \<Longrightarrow> P) \<Longrightarrow> P"
  by (cases n) auto

definition fs_set :: "path \<Rightarrow> 'c node \<Rightarrow> 'c fsys \<Rightarrow> 'c fsys" where
  "fs_set p n xs = (p, n) # filter (\<lambda>e. fst e \<noteq> p) xs"

definition fs_del :: "path \<Rightarrow> 'c fsys \<Rightarrow> 'c fsys" where
  "fs_del p xs = filter (\<lambda>e. fst e \<noteq> p) xs"

definition fs_del_tree :: "path \<Rightarrow> 'c fsys \<Rightarrow> 'c fsys" where
  "fs_del_tree p xs = filter (\<lambda>e. \<not> prefix p (fst e)) xs"

definition fs_del_some :: "path \<Rightarrow> path list \<Rightarrow> 'c fsys \<Rightarrow> 'c fsys" where
  "fs_del_some p ps xs = filter (\<lambda>e. \<not> (strict_prefix p (fst e) \<and> fst e \<in> set ps)) xs"

definition fs_add_dirs :: "nat \<Rightarrow> path list \<Rightarrow> 'c fsys \<Rightarrow> 'c fsys" where
  "fs_add_dirs m ps xs = xs @ map (\<lambda>p. (p, Dir m)) ps"

definition fs_move :: "path \<Rightarrow> path \<Rightarrow> 'c fsys \<Rightarrow> 'c fsys" where
  "fs_move old new xs =
     map (\<lambda>e. if prefix old (fst e) then (new @ drop (length old) (fst e), snd e) else e)
       (filter (\<lambda>e. \<not> prefix new (fst e)) xs)"

text \<open>Looking up a path below a regular file fails with \<^verbatim>\<open>ENOTDIR\<close>, any other missing path with \<^verbatim>\<open>ENOENT\<close>.\<close>

definition file_at :: "(path \<Rightarrow> 'c node option) \<Rightarrow> path \<Rightarrow> bool" where
  "file_at M p = (case M p of Some n \<Rightarrow> \<not> is_dir n | None \<Rightarrow> False)"

definition absent_errno :: "'c fsys \<Rightarrow> path \<Rightarrow> errno" where
  "absent_errno xs p = (if list_ex (\<lambda>q. q \<noteq> p \<and> file_at (map_of xs) q) (prefixes p) then ENOTDIR else ENOENT)"

definition children :: "'c fsys \<Rightarrow> path \<Rightarrow> string list" where
  "children xs p = sort (remdups (map (last \<circ> fst) (filter (\<lambda>e. fst e \<noteq> [] \<and> butlast (fst e) = p) xs)))"

text \<open>\<^verbatim>\<open>os.CreateTemp(dir, ".tmp-*")\<close> picks a name that is not taken.\<close>

definition temp_name :: "nat \<Rightarrow> string" where
  "temp_name k = ''.tmp-'' @ dec_string k"

definition fresh_temp :: "'c fsys \<Rightarrow> path \<Rightarrow> path" where
  "fresh_temp xs d =
     d @ [temp_name (hd (filter (\<lambda>k. map_of xs (d @ [temp_name k]) = None) [0..<Suc (length xs)]))]"

section \<open>Outcomes and control\<close>

datatype 'a outcome = Ok 'a | Err go_error | Crashed

definition is_ok :: "'a outcome \<Rightarrow> bool" where
  "is_ok r = (case r of Ok a \<Rightarrow> True | Err e \<Rightarrow> False | Crashed \<Rightarrow> False)"

type_synonym ('s, 'a) prog = "'s \<Rightarrow> 'a outcome \<times> 's"
type_synonym ('c, 'a) io = "('c world, 'a) prog"

definition ret :: "'a \<Rightarrow> ('s, 'a) prog" where
  "ret a w = (Ok a, w)"

definition fail :: "go_error \<Rightarrow> ('s, 'a) prog" where
  "fail e w = (Err e, w)"

definition bindIO :: "('s, 'a) prog \<Rightarrow> ('a \<Rightarrow> ('s, 'b) prog) \<Rightarrow> ('s, 'b) prog" where
  "bindIO m f w = (case m w of (Ok a, w') \<Rightarrow> f a w' | (Err e, w') \<Rightarrow> (Err e, w') | (Crashed, w') \<Rightarrow> (Crashed, w'))"

text \<open>The error is inspected by the code that follows.\<close>

definition attempt :: "('s, 'a) prog \<Rightarrow> ('s, go_error + 'a) prog" where
  "attempt m w = (case m w of (Ok a, w') \<Rightarrow> (Ok (Inr a), w') | (Err e, w') \<Rightarrow> (Ok (Inl e), w') | (Crashed, w') \<Rightarrow> (Crashed, w'))"

definition mapErr :: "(go_error \<Rightarrow> go_error) \<Rightarrow> ('s, 'a) prog \<Rightarrow> ('s, 'a) prog" where
  "mapErr g m w = (case m w of (Ok a, w') \<Rightarrow> (Ok a, w') | (Err e, w') \<Rightarrow> (Err (g e), w') | (Crashed, w') \<Rightarrow> (Crashed, w'))"

abbreviation wrapErr :: "string \<Rightarrow> ('s, 'a) prog \<Rightarrow> ('s, 'a) prog" where
  "wrapErr s \<equiv> mapErr (Wrap s)"

text \<open>\<^verbatim>\<open>defer\<close>: the cleanup runs when the body returns, whatever it returns; its own error is dropped.\<close>

definition deferIO :: "('s, 'b) prog \<Rightarrow> ('s, 'a) prog \<Rightarrow> ('s, 'a) prog" where
  "deferIO cleanup m w =
     (case m w of
        (Crashed, w') \<Rightarrow> (Crashed, w')
      | (r, w') \<Rightarrow> (case cleanup w' of (Crashed, w'') \<Rightarrow> (Crashed, w'') | (_, w'') \<Rightarrow> (r, w'')))"

text \<open>Errors of a best-effort step are logged and dropped.\<close>

definition bestEffort :: "('s, 'a) prog \<Rightarrow> ('s, unit) prog" where
  "bestEffort m = bindIO (attempt m) (\<lambda>_. ret ())"

definition getNow :: "('c, int) io" where
  "getNow w = (Ok (clock w), w)"

section \<open>System calls\<close>

definition run_call :: "('c fsys \<Rightarrow> errno + 'a \<times> 'c fsys) \<Rightarrow> ('c, 'a) io" where
  "run_call f w = (case f (fs w) of Inl e \<Rightarrow> (Err (OsError e), w) | Inr (a, xs) \<Rightarrow> (Ok a, w\<lparr>fs := xs\<rparr>))"

definition sys :: "(path list \<Rightarrow> 'c fsys \<Rightarrow> 'c fsys) \<Rightarrow> ('c fsys \<Rightarrow> errno + 'a \<times> 'c fsys) \<Rightarrow> ('c, 'a) io" where
  "sys part f w =
     (case sched w of
        [] \<Rightarrow> run_call f w
      | Pass # r \<Rightarrow> run_call f (w\<lparr>sched := r\<rparr>)
      | Fail denied ps # r \<Rightarrow> (Err (OsError (if denied then EACCES else EIO)), w\<lparr>sched := r, fs := part ps (fs w)\<rparr>)
      | Halt ps # r \<Rightarrow> (Crashed, w\<lparr>sched := r, fs := part ps (fs w)\<rparr>))"

definition no_part :: "path list \<Rightarrow> 'c fsys \<Rightarrow> 'c fsys" where
  "no_part ps xs = xs"

text \<open>A call that has no effect on the files but may fail: \<^verbatim>\<open>Sync\<close>, \<^verbatim>\<open>Close\<close>, \<^verbatim>\<open>Flock\<close>.\<close>

definition nop :: "('c, unit) io" where
  "nop = sys no_part (\<lambda>xs. Inr ((), xs))"

definition stat :: "path \<Rightarrow> ('c, 'c node) io" where
  "stat p = sys no_part (\<lambda>xs. case map_of xs p of Some n \<Rightarrow> Inr (n, xs) | None \<Rightarrow> Inl (absent_errno xs p))"

definition readFile :: "path \<Rightarrow> ('c, 'c) io" where
  "readFile p = sys no_part (\<lambda>xs. case map_of xs p of
       Some (Reg m c) \<Rightarrow> Inr (c, xs) | Some (Dir m) \<Rightarrow> Inl EISDIR | None \<Rightarrow> Inl (absent_errno xs p))"

definition missing_dirs :: "'c fsys \<Rightarrow> path \<Rightarrow> path list" where
  "missing_dirs xs p = filter (\<lambda>q. map_of xs q = None) (prefixes p)"

definition mkdirAll :: "path \<Rightarrow> nat \<Rightarrow> ('c, unit) io" where
  "mkdirAll p m =
     sys (\<lambda>ps xs. fs_add_dirs m (filter (\<lambda>q. q \<in> set ps) (missing_dirs xs p)) xs)
         (\<lambda>xs. if list_all (\<lambda>q. case map_of xs q of Some n \<Rightarrow> is_dir n | None \<Rightarrow> True) (prefixes p)
               then Inr ((), fs_add_dirs m (missing_dirs xs p) xs) else Inl ENOTDIR)"

definition createTemp :: "path \<Rightarrow> 'c \<Rightarrow> ('c, path) io" where
  "createTemp d c0 = sys no_part (\<lambda>xs. case map_of xs d of
       Some (Dir m) \<Rightarrow> (let t = fresh_temp xs d in Inr (t, fs_set t (Reg 384 c0) xs))
     | Some (Reg m c) \<Rightarrow> Inl ENOTDIR
     | None \<Rightarrow> Inl (absent_errno xs d))"

text \<open>Writing through the descriptor of a temporary file.\<close>

definition writeTemp :: "path \<Rightarrow> 'c \<Rightarrow> ('c, unit) io" where
  "writeTemp t c = sys no_part (\<lambda>xs. Inr ((), fs_set t (Reg 384 c) xs))"

text \<open>
  \<^verbatim>\<open>rename(2)\<close>: a file replaces a file, a directory replaces an empty directory and takes its
  contents along.
\<close>

definition rename :: "path \<Rightarrow> path \<Rightarrow> ('c, unit) io" where
  "rename old new = sys no_part (\<lambda>xs.
     case map_of xs old of
       None \<Rightarrow> Inl (absent_errno xs old)
     | Some n \<Rightarrow>
         (case map_of xs (butlast new) of
            Some (Dir m) \<Rightarrow>
              (case map_of xs new of
                 None \<Rightarrow> Inr ((), if is_dir n then fs_move old new xs else fs_set new n (fs_del old xs))
               | Some (Reg m' c') \<Rightarrow> if is_dir n then Inl ENOTDIR else Inr ((), fs_set new n (fs_del old xs))
               | Some (Dir m') \<Rightarrow> if \<not> is_dir n then Inl EEXIST
                                 else if children xs new = [] then Inr ((), fs_move old new xs) else Inl ENOTEMPTY)
          | Some (Reg m c) \<Rightarrow> Inl ENOTDIR
          | None \<Rightarrow> Inl (absent_errno xs new)))"

definition remove :: "path \<Rightarrow> ('c, unit) io" where
  "remove p = sys no_part (\<lambda>xs.
     case map_of xs p of
       None \<Rightarrow> Inl (absent_errno xs p)
     | Some (Reg m c) \<Rightarrow> Inr ((), fs_del p xs)
     | Some (Dir m) \<Rightarrow> if children xs p = [] then Inr ((), fs_del p xs) else Inl ENOTEMPTY)"

definition removeAll :: "path \<Rightarrow> ('c, unit) io" where
  "removeAll p = sys (fs_del_some p) (\<lambda>xs. Inr ((), fs_del_tree p xs))"

definition readDir :: "path \<Rightarrow> ('c, string list) io" where
  "readDir p = sys no_part (\<lambda>xs. case map_of xs p of
       Some (Dir m) \<Rightarrow> Inr (children xs p, xs)
     | Some (Reg m c) \<Rightarrow> Inl ENOTDIR
     | None \<Rightarrow> Inl (absent_errno xs p))"

text \<open>\<^verbatim>\<open>os.OpenFile(p, os.O_CREATE|os.O_RDWR, mode)\<close>.\<close>

definition openCreate :: "path \<Rightarrow> nat \<Rightarrow> 'c \<Rightarrow> ('c, unit) io" where
  "openCreate p mode c0 = sys no_part (\<lambda>xs.
     case map_of xs p of
       Some (Reg m c) \<Rightarrow> Inr ((), xs)
     | Some (Dir m) \<Rightarrow> Inl EISDIR
     | None \<Rightarrow> (case map_of xs (butlast p) of
           Some (Dir m) \<Rightarrow> Inr ((), fs_set p (Reg mode c0) xs)
         | _ \<Rightarrow> Inl (absent_errno xs p)))"

text \<open>
  The tree below a directory as \<^verbatim>\<open>filepath.WalkDir\<close> visits it: a directory before its contents, the
  contents in lexical order of the names.
\<close>

definition walk_entries :: "path \<Rightarrow> 'c fsys \<Rightarrow> (path \<times> 'c node) list" where
  "walk_entries d xs = map (\<lambda>p. (p, the (map_of xs p))) (sort (remdups (map fst (filter (\<lambda>e. prefix d (fst e)) xs))))"

definition walkTree :: "path \<Rightarrow> ('c, (path \<times> 'c node) list) io" where
  "walkTree d w = (Ok (walk_entries d (fs w)), w)"

end
