(* ===== verification/Go_VC.thy ===== *)
theory Go_VC
  imports Go_IO
begin

text \<open>
  Verification conditions over the visible file system. \<open>view w\<close> is what lies outside temporary
  files; \<open>vwp calm m Q E C V\<close> says that from every world that shows \<open>V\<close>, undisturbed if \<open>calm\<close>, the
  program \<open>m\<close> ends normally with \<open>Q\<close>, with an error and \<open>E\<close>, or dies with \<open>C\<close>, each about the files
  then visible. The rules in \<open>vc\<close> decompose a program; what remains are conditions on views.
\<close>

named_theorems vc \<open>decomposition rules for vwp\<close>

definition clean :: "path \<Rightarrow> bool" where
  "clean p \<longleftrightarrow> list_all (\<lambda>c. \<not> prefix ''.tmp-'' c) p"

definition visible :: "'c fsys \<Rightarrow> 'c view" where
  "visible xs p = (if clean p then map_of xs p else None)"

abbreviation view :: "'c world \<Rightarrow> 'c view" where
  "view w \<equiv> visible (fs w)"

definition v_del_tree :: "path \<Rightarrow> 'c view \<Rightarrow> 'c view" where
  "v_del_tree p V q = (if prefix p q then None else V q)"

definition v_del_some :: "path \<Rightarrow> path list \<Rightarrow> 'c view \<Rightarrow> 'c view" where
  "v_del_some p ps V q = (if strict_prefix p q \<and> q \<in> set ps then None else V q)"

definition v_move :: "path \<Rightarrow> path \<Rightarrow> 'c view \<Rightarrow> 'c view" where
  "v_move old new V q =
     (if prefix new q then V (old @ drop (length new) q) else if prefix old q then None else V q)"

definition v_mkdirs :: "nat \<Rightarrow> path list \<Rightarrow> 'c view \<Rightarrow> 'c view" where
  "v_mkdirs m ps V q = (case V q of Some n \<Rightarrow> Some n | None \<Rightarrow> if q \<in> set ps then Some (Dir m) else None)"

section \<open>Lookups after an update\<close>

lemma clean_simps [simp]:
  "clean []" "clean (p @ q) \<longleftrightarrow> clean p \<and> clean q" "clean (c # p) \<longleftrightarrow> \<not> prefix ''.tmp-'' c \<and> clean p"
  by (simp_all add: clean_def)

lemma clean_prefix: "prefix q p \<Longrightarrow> clean p \<Longrightarrow> clean q"
  by (auto simp: prefix_def)

lemma clean_butlast [simp]: "clean p \<Longrightarrow> clean (butlast p)"
  by (rule clean_prefix [OF prefixeq_butlast])

lemma map_of_fs_set [fs_simps]: "map_of (fs_set p n xs) = (map_of xs)(p \<mapsto> n)"
  by (auto simp: fs_set_def map_of_filter_key [where P = "\<lambda>q. q \<noteq> p"])

lemma map_of_fs_del [fs_simps]: "map_of (fs_del p xs) = (map_of xs)(p := None)"
  by (auto simp: fs_del_def map_of_filter_key [where P = "\<lambda>q. q \<noteq> p"])

lemma map_of_fs_del_tree [fs_simps]: "map_of (fs_del_tree p xs) = v_del_tree p (map_of xs)"
  by (auto simp: fs_del_tree_def v_del_tree_def map_of_filter_key [where P = "\<lambda>q. \<not> prefix p q"])

lemma map_of_fs_del_some [fs_simps]: "map_of (fs_del_some p ps xs) = v_del_some p ps (map_of xs)"
  unfolding fs_del_some_def map_of_filter_key [where P = "\<lambda>q. \<not> (strict_prefix p q \<and> q \<in> set ps)"] fun_eq_iff
  by (simp add: v_del_some_def)

lemma map_of_fs_add_dirs [fs_simps]: "map_of (fs_add_dirs m ps xs) = v_mkdirs m ps (map_of xs)"
proof
  fix q
  have "map_of (map (\<lambda>p. (p, Dir m)) ps) q = (if q \<in> set ps then Some (Dir m) else None)"
    by (induction ps) auto
  then show "map_of (fs_add_dirs m ps xs) q = v_mkdirs m ps (map_of xs) q"
    by (auto simp: fs_add_dirs_def v_mkdirs_def map_add_def split: option.splits)
qed

lemma drop_prefix_eq: "prefix p q \<Longrightarrow> p @ drop (length p) q = q"
  by (auto simp: prefix_def)

lemma map_of_fs_move [fs_simps]:
  assumes "\<not> prefix old new" "\<not> prefix new old"
  shows "map_of (fs_move old new xs) = v_move old new (map_of xs)"
proof
  fix q
  show "map_of (fs_move old new xs) q = v_move old new (map_of xs) q"
  proof (induction xs)
    case Nil
    then show ?case by (simp add: fs_move_def v_move_def)
  next
    case (Cons e xs)
    obtain p n where e: "e = (p, n)" by force
    have apart: "\<not> (prefix old q \<and> prefix new q)"
      using assms prefix_same_cases by blast
    have "prefix old p \<Longrightarrow> new @ drop (length old) p = q \<longleftrightarrow> prefix new q \<and> p = old @ drop (length new) q"
      by (auto simp: prefix_def)
    moreover have "prefix new p \<Longrightarrow> old @ drop (length new) q \<noteq> p"
      using assms prefix_same_cases by (metis prefixI)
    ultimately show ?case
      using Cons e apart drop_prefix_eq [of new q] by (auto simp: fs_move_def v_move_def)
  qed
qed

lemma visible_fs_set [fs_simps]:
  "visible (fs_set p n xs) = (if clean p then (visible xs)(p \<mapsto> n) else visible xs)"
  by (auto simp: visible_def fs_simps)

lemma visible_fs_del [fs_simps]: "visible (fs_del p xs) = (visible xs)(p := None)"
  by (auto simp: visible_def fs_simps)

lemma visible_fs_del_tree [fs_simps]: "visible (fs_del_tree p xs) = v_del_tree p (visible xs)"
  by (auto simp: visible_def fs_simps v_del_tree_def)

lemma visible_fs_del_some [fs_simps]: "visible (fs_del_some p ps xs) = v_del_some p ps (visible xs)"
  by (auto simp: visible_def fs_simps v_del_some_def)

lemma visible_fs_add_dirs [fs_simps]:
  assumes "\<forall>q \<in> set ps. clean q"
  shows "visible (fs_add_dirs m ps xs) = v_mkdirs m ps (visible xs)"
  using assms by (auto simp: visible_def fs_simps v_mkdirs_def)

lemma visible_fs_move [fs_simps]:
  assumes "\<not> prefix old new" "\<not> prefix new old" "clean old" "clean new"
  shows "visible (fs_move old new xs) = v_move old new (visible xs)"
proof
  fix q
  have "prefix new q \<Longrightarrow> clean (old @ drop (length new) q) \<longleftrightarrow> clean q"
    using assms by (auto simp: prefix_def)
  then show "visible (fs_move old new xs) q = v_move old new (visible xs) q"
    using assms by (auto simp: visible_def fs_simps v_move_def)
qed

lemma visible_clean [simp]: "clean p \<Longrightarrow> visible xs p = map_of xs p"
  by (simp add: visible_def)

definition v_absent_errno :: "'c view \<Rightarrow> path \<Rightarrow> errno" where
  "v_absent_errno V p = (if \<exists>q. strict_prefix q p \<and> file_at V q then ENOTDIR else ENOENT)"

lemma absent_errno_view [simp]: "clean p \<Longrightarrow> absent_errno xs p = v_absent_errno (visible xs) p"
proof -
  assume "clean p"
  then have "strict_prefix q p \<Longrightarrow> visible xs q = map_of xs q" for q
    using clean_prefix by (auto simp: strict_prefix_def)
  then have "strict_prefix q p \<Longrightarrow> file_at (visible xs) q = file_at (map_of xs) q" for q
    by (simp add: file_at_def)
  then show ?thesis
    unfolding absent_errno_def v_absent_errno_def list_ex_iff set_prefixes_eq
    by (metis mem_Collect_eq strict_prefix_def)
qed

lemma children_empty: "children xs p = [] \<Longrightarrow> map_of xs (p @ [c]) = None"
proof -
  assume "children xs p = []"
  then have "set (children xs p) = {}" by simp
  then have "\<forall>e \<in> set xs. \<not> (fst e \<noteq> [] \<and> butlast (fst e) = p)" by (auto simp: children_def)
  then have "p @ [c] \<notin> fst ` set xs" by (auto simp del: butlast_snoc) (metis butlast_snoc fst_conv snoc_eq_iff_butlast)
  then show ?thesis by (simp add: map_of_eq_None_iff)
qed

section \<open>Weakest preconditions\<close>

definition wp :: "('s, 'a) prog \<Rightarrow> ('a \<Rightarrow> 's \<Rightarrow> bool) \<Rightarrow> (go_error \<Rightarrow> 's \<Rightarrow> bool) \<Rightarrow> ('s \<Rightarrow> bool) \<Rightarrow> 's \<Rightarrow> bool" where
  "wp m Q E C w = (case m w of (Ok a, w') \<Rightarrow> Q a w' | (Err e, w') \<Rightarrow> E e w' | (Crashed, w') \<Rightarrow> C w')"

definition quiet :: "bool \<Rightarrow> 'c world \<Rightarrow> bool" where
  "quiet calm w \<longleftrightarrow> (calm \<longrightarrow> sched w = [])"

definition vwp :: "bool \<Rightarrow> ('c, 'a) io \<Rightarrow> ('a \<Rightarrow> 'c view \<Rightarrow> bool) \<Rightarrow> (go_error \<Rightarrow> 'c view \<Rightarrow> bool) \<Rightarrow> ('c view \<Rightarrow> bool)
    \<Rightarrow> 'c view \<Rightarrow> bool" where
  "vwp calm m Q E C V \<longleftrightarrow>
     (\<forall>w. view w = V \<and> quiet calm w \<longrightarrow>
        wp m (\<lambda>a w'. quiet calm w' \<and> Q a (view w')) (\<lambda>e w'. quiet calm w' \<and> E e (view w')) (\<lambda>w'. C (view w')) w)"

lemma wp_combinators [wp_simps]:
  "wp (ret a) Q E C w = Q a w"
  "wp (fail e) Q E C w = E e w"
  "wp (bindIO m f) Q E C w = wp m (\<lambda>a. wp (f a) Q E C) E C w"
  "wp (attempt m') Q' E C w = wp m' (\<lambda>a. Q' (Inr a)) (\<lambda>e. Q' (Inl e)) C w"
  "wp (mapErr g m'') Q E C w = wp m'' Q (\<lambda>e. E (g e)) C w"
  "wp (deferIO c m3) Q E C w =
     wp m3 (\<lambda>a. wp c (\<lambda>_. Q a) (\<lambda>_. Q a) C) (\<lambda>e. wp c (\<lambda>_. E e) (\<lambda>_. E e) C) C w"
  by (auto simp: wp_def ret_def fail_def bindIO_def attempt_def mapErr_def deferIO_def
      split: outcome.splits prod.splits)

lemma wp_getNow [wp_simps]: "wp getNow Q E C w = Q (clock w) w"
  by (simp add: wp_def getNow_def)

lemma wp_mono:
  assumes "wp m Q E C w" "\<And>a w'. Q a w' \<Longrightarrow> Q' a w'" "\<And>e w'. E e w' \<Longrightarrow> E' e w'" "\<And>w'. C w' \<Longrightarrow> C' w'"
  shows "wp m Q' E' C' w"
  using assms by (auto simp: wp_def split: outcome.splits prod.splits)

lemma vwpI:
  assumes "\<And>w. view w = V \<Longrightarrow> quiet calm w \<Longrightarrow>
    wp m (\<lambda>a w'. quiet calm w' \<and> Q a (view w')) (\<lambda>e w'. quiet calm w' \<and> E e (view w')) (\<lambda>w'. C (view w')) w"
  shows "vwp calm m Q E C V"
  using assms by (simp add: vwp_def)

lemma vwpD:
  assumes "vwp calm m Q E C (view w)" "quiet calm w"
  shows "wp m (\<lambda>a w'. quiet calm w' \<and> Q a (view w')) (\<lambda>e w'. quiet calm w' \<and> E e (view w')) (\<lambda>w'. C (view w')) w"
  using assms by (simp add: vwp_def)

lemma vwp_conseq:
  assumes "vwp calm m Q E C V" "\<And>a V'. Q a V' \<Longrightarrow> Q' a V'" "\<And>e V'. E e V' \<Longrightarrow> E' e V'" "\<And>V'. C V' \<Longrightarrow> C' V'"
  shows "vwp calm m Q' E' C' V"
  using assms(1) unfolding vwp_def by (blast intro: wp_mono assms(2-4))

lemma vwp_ret [vc]: "Q a V \<Longrightarrow> vwp calm (ret a) Q E C V"
  by (auto intro!: vwpI simp: wp_simps)

lemma vwp_fail [vc]: "E e V \<Longrightarrow> vwp calm (fail e) Q E C V"
  by (auto intro!: vwpI simp: wp_simps)

lemma vwp_getNow [vc]: "(\<And>t. Q t V) \<Longrightarrow> vwp calm getNow Q E C V"
  by (auto intro!: vwpI simp: wp_simps)

lemma vwp_bind [vc]:
  assumes "vwp calm m (\<lambda>a. vwp calm (f a) Q E C) E C V"
  shows "vwp calm (bindIO m f) Q E C V"
proof (rule vwpI)
  fix w assume "view w = V" "quiet calm w"
  then have "wp m (\<lambda>a w'. quiet calm w' \<and> vwp calm (f a) Q E C (view w'))
      (\<lambda>e w'. quiet calm w' \<and> E e (view w')) (\<lambda>w'. C (view w')) w"
    using assms vwpD by blast
  then show "wp (bindIO m f) (\<lambda>a w'. quiet calm w' \<and> Q a (view w')) (\<lambda>e w'. quiet calm w' \<and> E e (view w')) (\<lambda>w'. C (view w')) w"
    unfolding wp_combinators by (rule wp_mono) (auto dest: vwpD)
qed

lemma vwp_attempt [vc]: "vwp calm m (\<lambda>a. Q (Inr a)) (\<lambda>e. Q (Inl e)) C V \<Longrightarrow> vwp calm (attempt m) Q E C V"
  by (simp add: vwp_def wp_simps)

lemma vwp_mapErr [vc]: "vwp calm m Q (\<lambda>e. E (g e)) C V \<Longrightarrow> vwp calm (mapErr g m) Q E C V"
  by (simp add: vwp_def wp_simps)

lemma vwp_bestEffort [vc]: "vwp calm m (\<lambda>_. Q ()) (\<lambda>_. Q ()) C V \<Longrightarrow> vwp calm (bestEffort m) Q E C V"
  unfolding bestEffort_def by (rule vwp_bind, rule vwp_attempt, erule vwp_conseq) (auto intro: vwp_ret)

lemma vwp_if [vc]:
  "(b \<Longrightarrow> vwp calm m Q E C V) \<Longrightarrow> (\<not> b \<Longrightarrow> vwp calm n Q E C V) \<Longrightarrow> vwp calm (if b then m else n) Q E C V"
  by simp

lemma vwp_case_option [vc]:
  "(x = None \<Longrightarrow> vwp calm m Q E C V) \<Longrightarrow> (\<And>y. x = Some y \<Longrightarrow> vwp calm (f y) Q E C V) \<Longrightarrow>
   vwp calm (case x of None \<Rightarrow> m | Some y \<Rightarrow> f y) Q E C V"
  by (simp split: option.split)

lemma vwp_case_sum [vc]:
  "(\<And>a. x = Inl a \<Longrightarrow> vwp calm (f a) Q E C V) \<Longrightarrow> (\<And>b. x = Inr b \<Longrightarrow> vwp calm (g b) Q E C V) \<Longrightarrow>
   vwp calm (case x of Inl a \<Rightarrow> f a | Inr b \<Rightarrow> g b) Q E C V"
  by (simp split: sum.split)

lemma vwp_case_node [vc]:
  "(\<And>m. x = Dir m \<Longrightarrow> vwp calm (f m) Q E C V) \<Longrightarrow> (\<And>m c. x = Reg m c \<Longrightarrow> vwp calm (g m c) Q E C V) \<Longrightarrow>
   vwp calm (case x of Dir m \<Rightarrow> f m | Reg m c \<Rightarrow> g m c) Q E C V"
  by (simp split: node.split)

lemma vwp_case_prod [vc]:
  "(\<And>a b. x = (a, b) \<Longrightarrow> vwp calm (f a b) Q E C V) \<Longrightarrow> vwp calm (case x of (a, b) \<Rightarrow> f a b) Q E C V"
  by (cases x) simp

section \<open>System calls\<close>

lemma wp_sys:
  assumes "\<not> (sched w \<noteq> [] \<and> hd (sched w) \<noteq> Pass) \<Longrightarrow> wp (run_call f) Q E C (w\<lparr>sched := tl (sched w)\<rparr>)"
    and "\<And>ps r. sched w = Fail True ps # r \<Longrightarrow> E (OsError EACCES) (w\<lparr>sched := r, fs := part ps (fs w)\<rparr>)"
    and "\<And>ps r. sched w = Fail False ps # r \<Longrightarrow> E (OsError EIO) (w\<lparr>sched := r, fs := part ps (fs w)\<rparr>)"
    and "\<And>ps r. sched w = Halt ps # r \<Longrightarrow> C (w\<lparr>sched := r, fs := part ps (fs w)\<rparr>)"
  shows "wp (sys part f) Q E C w"
proof (cases "sched w")
  case Nil
  then have "w\<lparr>sched := tl (sched w)\<rparr> = w" by (cases w) simp
  with Nil assms(1) have "wp (run_call f) Q E C w" by (simp only: list.simps simp_thms)
  with Nil show ?thesis by (simp add: wp_def sys_def)
next
  case (Cons x r)
  with assms show ?thesis
    by (cases x) (auto simp: wp_def sys_def split: if_splits)
qed

lemma vwp_sys:
  assumes run: "\<And>xs. visible xs = V \<Longrightarrow>
      (case f xs of Inl e \<Rightarrow> E (OsError e) V | Inr (a, xs') \<Rightarrow> Q a (visible xs'))"
    and fault: "\<And>xs ps. \<not> calm \<Longrightarrow> visible xs = V \<Longrightarrow> E (OsError EACCES) (visible (part ps xs))
      \<and> E (OsError EIO) (visible (part ps xs)) \<and> C (visible (part ps xs))"
  shows "vwp calm (sys part f) Q E C V"
proof (rule vwpI)
  fix w assume w: "view w = V" "quiet calm w"
  show "wp (sys part f) (\<lambda>a w'. quiet calm w' \<and> Q a (view w')) (\<lambda>e w'. quiet calm w' \<and> E e (view w')) (\<lambda>w'. C (view w')) w"
  proof (rule wp_sys)
    show "wp (run_call f) (\<lambda>a w'. quiet calm w' \<and> Q a (view w')) (\<lambda>e w'. quiet calm w' \<and> E e (view w'))
        (\<lambda>w'. C (view w')) (w\<lparr>sched := tl (sched w)\<rparr>)"
      using run [OF w(1)] w by (auto simp: wp_def run_call_def quiet_def split: sum.splits prod.splits)
  qed (use fault [of "fs w"] w in \<open>auto simp: quiet_def\<close>)
qed

lemma wp_sys_world:
  assumes q: "quiet calm w"
    and run: "case f (fs w) of
        Inl e \<Rightarrow> \<forall>w'. fs w' = fs w \<and> quiet calm w' \<longrightarrow> E (OsError e) w'
      | Inr (a, xs) \<Rightarrow> \<forall>w'. fs w' = xs \<and> quiet calm w' \<longrightarrow> Q a w'"
    and fault: "\<And>w' ps n. \<not> calm \<Longrightarrow> fs w' = part ps (fs w) \<Longrightarrow> E (OsError n) w' \<and> C w'"
  shows "wp (sys part f) Q E C w"
proof (rule wp_sys)
  show "wp (run_call f) Q E C (w\<lparr>sched := tl (sched w)\<rparr>)"
    using run q by (auto simp: wp_def run_call_def quiet_def split: sum.splits prod.splits)
qed (use q fault in \<open>auto simp: quiet_def\<close>)

lemma vwp_nop [vc]:
  "Q () V \<Longrightarrow> (\<not> calm \<Longrightarrow> E (OsError EACCES) V \<and> E (OsError EIO) V \<and> C V) \<Longrightarrow> vwp calm nop Q E C V"
  unfolding nop_def by (rule vwp_sys) (auto simp: no_part_def)

lemma vwp_stat [vc]:
  assumes "clean p" "\<And>n. V p = Some n \<Longrightarrow> Q n V" "V p = None \<Longrightarrow> E (OsError (v_absent_errno V p)) V"
    "\<not> calm \<Longrightarrow> E (OsError EACCES) V \<and> E (OsError EIO) V \<and> C V"
  shows "vwp calm (stat p) Q E C V"
  unfolding stat_def by (rule vwp_sys) (use assms in \<open>auto simp: no_part_def split: option.split\<close>)

lemma vwp_readFile [vc]:
  assumes "clean p" "\<And>m c. V p = Some (Reg m c) \<Longrightarrow> Q c V" "\<And>m. V p = Some (Dir m) \<Longrightarrow> E (OsError EISDIR) V"
    "V p = None \<Longrightarrow> E (OsError (v_absent_errno V p)) V"
    "\<not> calm \<Longrightarrow> E (OsError EACCES) V \<and> E (OsError EIO) V \<and> C V"
  shows "vwp calm (readFile p) Q E C V"
  unfolding readFile_def by (rule vwp_sys) (use assms in \<open>auto simp: no_part_def split: option.split node.split\<close>)

lemma vwp_removeAll [vc]:
  assumes "Q () (v_del_tree p V)"
    "\<And>ps. \<not> calm \<Longrightarrow> E (OsError EACCES) (v_del_some p ps V) \<and> E (OsError EIO) (v_del_some p ps V) \<and> C (v_del_some p ps V)"
  shows "vwp calm (removeAll p) Q E C V"
  unfolding removeAll_def by (rule vwp_sys) (use assms in \<open>auto simp: fs_simps\<close>)

lemma vwp_remove [vc]:
  assumes "clean p" "\<And>m c. V p = Some (Reg m c) \<Longrightarrow> Q () (V(p := None))"
    "\<And>m. V p = Some (Dir m) \<Longrightarrow> \<forall>c. clean [c] \<longrightarrow> V (p @ [c]) = None \<Longrightarrow> Q () (V(p := None))"
    "\<And>m. V p = Some (Dir m) \<Longrightarrow> E (OsError ENOTEMPTY) V"
    "V p = None \<Longrightarrow> E (OsError (v_absent_errno V p)) V"
    "\<not> calm \<Longrightarrow> E (OsError EACCES) V \<and> E (OsError EIO) V \<and> C V"
  shows "vwp calm (remove p) Q E C V"
  unfolding remove_def
  by (rule vwp_sys) (use assms in \<open>auto simp: no_part_def fs_simps children_empty split: option.split node.split\<close>)

lemma vwp_openCreate [vc]:
  assumes "clean p" "\<And>m c. V p = Some (Reg m c) \<Longrightarrow> Q () V" "\<And>m. V p = Some (Dir m) \<Longrightarrow> E (OsError EISDIR) V"
    "\<And>m. V p = None \<Longrightarrow> V (butlast p) = Some (Dir m) \<Longrightarrow> Q () (V(p \<mapsto> Reg mode c0))"
    "V p = None \<Longrightarrow> \<forall>m. V (butlast p) \<noteq> Some (Dir m) \<Longrightarrow> E (OsError (v_absent_errno V p)) V"
    "\<not> calm \<Longrightarrow> E (OsError EACCES) V \<and> E (OsError EIO) V \<and> C V"
  shows "vwp calm (openCreate p mode c0) Q E C V"
  unfolding openCreate_def
  by (rule vwp_sys) (use assms in \<open>auto simp: no_part_def fs_simps split: option.split node.split\<close>)

lemma vwp_rename [vc]:
  assumes "clean old" "clean new" "\<not> prefix old new" "\<not> prefix new old"
    "V old = None \<Longrightarrow> E (OsError (v_absent_errno V old)) V"
    "\<And>n. V old = Some n \<Longrightarrow> V (butlast new) = None \<Longrightarrow> E (OsError (v_absent_errno V new)) V"
    "\<And>n m c. V old = Some n \<Longrightarrow> V (butlast new) = Some (Reg m c) \<Longrightarrow> E (OsError ENOTDIR) V"
    "\<And>m m'. V old = Some (Dir m') \<Longrightarrow> V (butlast new) = Some (Dir m) \<Longrightarrow>
       (case V new of None \<Rightarrow> Q () (v_move old new V)
        | Some n \<Rightarrow> if is_dir n then Q () (v_move old new V) \<and> E (OsError ENOTEMPTY) V else E (OsError ENOTDIR) V)"
    "\<And>m m' c. V old = Some (Reg m' c) \<Longrightarrow> V (butlast new) = Some (Dir m) \<Longrightarrow>
       (if \<exists>m''. V new = Some (Dir m'') then E (OsError EEXIST) V
        else Q () (V(old := None, new \<mapsto> Reg m' c)))"
    "\<not> calm \<Longrightarrow> E (OsError EACCES) V \<and> E (OsError EIO) V \<and> C V"
  shows "vwp calm (rename old new) Q E C V"
  unfolding rename_def
proof (rule vwp_sys, goal_cases)
  case (1 xs)
  have V: "map_of xs old = V old" "map_of xs new = V new" "map_of xs (butlast new) = V (butlast new)"
    using 1 assms(1,2) by auto
  have move: "visible (fs_move old new xs) = v_move old new V" "visible (fs_set new n (fs_del old xs)) = V(old := None, new \<mapsto> n)" for n
    using 1 assms(1-4) by (simp_all add: fs_simps)
  show ?case
  proof (cases "V old")
    case None
    then show ?thesis using assms(1,5) 1 by (simp add: V)
  next
    case old: (Some n)
    show ?thesis
    proof (cases "V (butlast new)")
      case None
      then show ?thesis using assms(2) assms(6) [OF old None] 1 old by (simp add: V)
    next
      case parent: (Some d)
      show ?thesis
      proof (cases d)
        case (Reg m c)
        then show ?thesis using assms(7) [OF old] parent old by (simp add: V)
      next
        case (Dir m)
        with parent have parent: "V (butlast new) = Some (Dir m)" by simp
        show ?thesis
        proof (cases n)
          case (Dir m')
          with old assms(8) [OF _ parent] show ?thesis
            by (cases "V new"; cases "the (V new)"; simp add: V move parent)
        next
          case (Reg m' c)
          with old assms(9) [OF _ parent] show ?thesis
            by (cases "V new"; cases "the (V new)"; simp add: V move parent)
        qed
      qed
    qed
  qed
next
  case (2 xs ps)
  then show ?case using assms(10) by (simp add: no_part_def)
qed

text \<open>The two cases the program relies on: a file onto no directory, a directory onto nothing.\<close>

lemma vwp_rename_file:
  assumes "clean old" "clean new" "\<not> prefix old new" "\<not> prefix new old"
    "V old = Some (Reg m c)" "V (butlast new) = Some (Dir d)" "\<forall>m. V new \<noteq> Some (Dir m)"
    "Q () (V(old := None, new \<mapsto> Reg m c))" "\<And>n. \<not> calm \<Longrightarrow> E (OsError n) V \<and> C V"
  shows "vwp calm (rename old new) Q E C V"
  by (rule vwp_rename) (simp_all add: assms)

lemma vwp_rename_dir:
  assumes "clean old" "clean new" "\<not> prefix old new" "\<not> prefix new old"
    "V old = Some (Dir m)" "V (butlast new) = Some (Dir d)" "V new = None"
    "Q () (v_move old new V)" "\<And>n. \<not> calm \<Longrightarrow> E (OsError n) V \<and> C V"
  shows "vwp calm (rename old new) Q E C V"
  by (rule vwp_rename) (simp_all add: assms)

lemma butlast_two [simp]: "butlast (xs @ [a, b]) = xs @ [a]"
  by (simp add: butlast_append)

lemma vwp_readDir [vc]:
  "(\<And>l. Q l V) \<Longrightarrow> (\<And>e. E e V) \<Longrightarrow> (\<not> calm \<Longrightarrow> C V) \<Longrightarrow> vwp calm (readDir p) Q E C V"
  unfolding readDir_def by (rule vwp_sys) (auto simp: no_part_def split: option.split node.split)

lemma prefixes_clean: "clean p \<Longrightarrow> q \<in> set (prefixes p) \<Longrightarrow> clean q"
  by (auto intro: clean_prefix)

lemma visible_mkdirs:
  assumes "clean p"
  shows "visible (fs_add_dirs m (missing_dirs xs p) xs) = v_mkdirs m (prefixes p) (visible xs)"
    and "visible (fs_add_dirs m (filter (\<lambda>q. q \<in> set ps) (missing_dirs xs p)) xs)
      = v_mkdirs m (filter (\<lambda>q. q \<in> set ps) (prefixes p)) (visible xs)"
proof -
  have c: "\<forall>q \<in> set (missing_dirs xs p). clean q"
    using prefixes_clean [OF assms] by (auto simp: missing_dirs_def)
  show "visible (fs_add_dirs m (missing_dirs xs p) xs) = v_mkdirs m (prefixes p) (visible xs)"
    using c prefixes_clean [OF assms] by (auto simp: fs_simps v_mkdirs_def missing_dirs_def visible_def split: option.splits)
  show "visible (fs_add_dirs m (filter (\<lambda>q. q \<in> set ps) (missing_dirs xs p)) xs)
      = v_mkdirs m (filter (\<lambda>q. q \<in> set ps) (prefixes p)) (visible xs)"
    using c prefixes_clean [OF assms] by (auto simp: fs_simps v_mkdirs_def missing_dirs_def visible_def split: option.splits)
qed

lemma vwp_mkdirAll [vc]:
  assumes "clean p" "\<forall>q. prefix q p \<longrightarrow> \<not> file_at V q \<Longrightarrow> Q () (v_mkdirs m (prefixes p) V)"
    "\<exists>q. prefix q p \<and> file_at V q \<Longrightarrow> E (OsError ENOTDIR) V"
    "\<And>ps. \<not> calm \<Longrightarrow> let V' = v_mkdirs m (filter (\<lambda>q. q \<in> set ps) (prefixes p)) V
        in E (OsError EACCES) V' \<and> E (OsError EIO) V' \<and> C V'"
  shows "vwp calm (mkdirAll p m) Q E C V"
  unfolding mkdirAll_def
proof (rule vwp_sys)
  fix xs assume V: "visible xs = V"
  have "prefix q p \<Longrightarrow> V q = map_of xs q" for q
    using clean_prefix [OF _ assms(1)] V by auto
  then have "(case map_of xs q of Some n \<Rightarrow> is_dir n | None \<Rightarrow> True) \<longleftrightarrow> \<not> file_at V q" if "prefix q p" for q
    using that by (simp add: file_at_def split: option.split)
  then have "list_all (\<lambda>q. case map_of xs q of Some n \<Rightarrow> is_dir n | None \<Rightarrow> True) (prefixes p)
      \<longleftrightarrow> (\<forall>q. prefix q p \<longrightarrow> \<not> file_at V q)"
    by (auto simp: list_all_iff)
  then show "case if list_all (\<lambda>q. case map_of xs q of Some n \<Rightarrow> is_dir n | None \<Rightarrow> True) (prefixes p)
          then Inr ((), fs_add_dirs m (missing_dirs xs p) xs) else Inl ENOTDIR of
        Inl e \<Rightarrow> E (OsError e) V | Inr (a, xs') \<Rightarrow> Q a (visible xs')"
    using assms(2,3) V by (auto simp: visible_mkdirs(1) [OF assms(1)])
next
  fix xs ps assume "\<not> calm" "visible xs = V"
  then show "E (OsError EACCES) (visible (fs_add_dirs m (filter (\<lambda>q. q \<in> set ps) (missing_dirs xs p)) xs))
      \<and> E (OsError EIO) (visible (fs_add_dirs m (filter (\<lambda>q. q \<in> set ps) (missing_dirs xs p)) xs))
      \<and> C (visible (fs_add_dirs m (filter (\<lambda>q. q \<in> set ps) (missing_dirs xs p)) xs))"
    using assms(4) [of ps] by (auto simp: Let_def visible_mkdirs(2) [OF assms(1)])
qed

section \<open>From conditions to runs\<close>

lemma vwp_cases:
  assumes "vwp calm m Q E C (view w)" "quiet calm w" "m w = (r, w')"
  shows "case r of Ok a \<Rightarrow> Q a (view w') | Err e \<Rightarrow> E e (view w') | Crashed \<Rightarrow> C (view w')"
  using vwpD [OF assms(1,2)] assms(3) by (auto simp: wp_def split: outcome.splits)

lemma vwp_calm:
  assumes "vwp True m Q E C (view w)" "sched w = []" "\<And>e V. \<not> E e V" "\<And>V. \<not> C V"
  shows "\<exists>a w'. m w = (Ok a, w') \<and> sched w' = [] \<and> Q a (view w')"
proof (cases "m w")
  case (Pair r w')
  then show ?thesis
    using vwpD [OF assms(1)] assms(2-) by (cases r) (auto simp: wp_def quiet_def)
qed

end
