(* ===== verification/Go_Time.thy ===== *)
theory Go_Time
  imports Go_Prelude
begin

text \<open>
  The part of Go's package \<^verbatim>\<open>time\<close> the program relies on. A \<^verbatim>\<open>time.Time\<close> is the number of
  nanoseconds since Go's zero time, 0001-01-01 00:00:00 UTC, so \<^verbatim>\<open>IsZero\<close> is equality with 0 and
  \<^verbatim>\<open>Before\<close> is the order of \<^typ>\<open>int\<close>. Zones are not represented: the program compares instants,
  and every calendar field it prints or truncates is taken in UTC. The proleptic Gregorian calendar
  is computed by cycles of 400, 100, 4 and 1 years, and the month in UTC (the layout \<^verbatim>\<open>200601\<close> of
  the mail directories) is shown to be inverse to parsing that layout.
\<close>

type_synonym gotime = int

definition nanos_per_second :: int where
  "nanos_per_second = 1000000000"

definition nanos_per_day :: int where
  "nanos_per_day = 86400 * nanos_per_second"

definition IsZero :: "gotime \<Rightarrow> bool" where
  "IsZero t \<longleftrightarrow> t = 0"

definition day_number :: "gotime \<Rightarrow> int" where
  "day_number t = t div nanos_per_day"

lemma nanos_per_day_pos [simp]: "0 < nanos_per_day"
  by (simp add: nanos_per_day_def nanos_per_second_def)

lemma day_number_start [simp]: "day_number (d * nanos_per_day) = d"
  by (simp add: day_number_def nanos_per_day_def nanos_per_second_def)

lemma day_start_bounds: "day_number t * nanos_per_day \<le> t" "t < (day_number t + 1) * nanos_per_day"
proof -
  have "t = nanos_per_day * (t div nanos_per_day) + t mod nanos_per_day" by simp
  moreover have "0 \<le> t mod nanos_per_day" "t mod nanos_per_day < nanos_per_day" by simp_all
  ultimately show "day_number t * nanos_per_day \<le> t" "t < (day_number t + 1) * nanos_per_day"
    unfolding day_number_def distrib_right mult.commute [of "t div nanos_per_day"] by linarith+
qed

section \<open>Years\<close>

definition days_before_year :: "int \<Rightarrow> int" where
  "days_before_year y = 365 * (y - 1) + (y - 1) div 4 - (y - 1) div 100 + (y - 1) div 400"

definition is_leap :: "int \<Rightarrow> bool" where
  "is_leap y \<longleftrightarrow> 4 dvd y \<and> (\<not> 100 dvd y \<or> 400 dvd y)"

definition year_of_day :: "int \<Rightarrow> int" where
  "year_of_day d =
     (let n400 = d div 146097; r400 = d mod 146097;
          n100 = min 3 (r400 div 36524); r100 = r400 - 36524 * n100;
          n4 = r100 div 1461; r4 = r100 mod 1461;
          n1 = min 3 (r4 div 365)
      in 400 * n400 + 100 * n100 + 4 * n4 + n1 + 1)"

lemma days_before_year_cycles:
  assumes "0 \<le> b" "b \<le> 3" "0 \<le> c" "c \<le> 24" "0 \<le> e" "e \<le> (3::int)"
  shows "days_before_year (400 * a + 100 * b + 4 * c + e + 1) = 146097 * a + 36524 * b + 1461 * c + 365 * e"
proof -
  let ?z = "400 * a + 100 * b + 4 * c + e"
  have "?z div 4 = 100 * a + 25 * b + c" by (rule int_div_pos_eq [where r = e]) (use assms in simp_all)
  moreover have "?z div 100 = 4 * a + b" by (rule int_div_pos_eq [where r = "4 * c + e"]) (use assms in simp_all)
  moreover have "?z div 400 = a" by (rule int_div_pos_eq [where r = "100 * b + 4 * c + e"]) (use assms in simp_all)
  ultimately show ?thesis unfolding days_before_year_def by simp
qed

lemma days_before_year_next_cycle:
  assumes "0 \<le> b" "b \<le> 3" "0 \<le> c" "c \<le> 24" "0 \<le> e" "e \<le> (3::int)"
  shows "days_before_year (400 * a + 100 * b + 4 * c + e + 1 + 1) =
    (if e < 3 then 146097 * a + 36524 * b + 1461 * c + 365 * (e + 1)
     else if c < 24 then 146097 * a + 36524 * b + 1461 * (c + 1)
     else if b < 3 then 146097 * a + 36524 * (b + 1)
     else 146097 * (a + 1))"
proof -
  consider "e < 3" | "e = 3" "c < 24" | "e = 3" "c = 24" "b < 3" | "e = 3" "c = 24" "b = 3"
    using assms by linarith
  then show ?thesis
  proof cases
    case 1
    then show ?thesis using days_before_year_cycles [of b c "e + 1" a] assms by (simp add: algebra_simps)
  next
    case 2
    then show ?thesis using days_before_year_cycles [of b "c + 1" 0 a] assms by (simp add: algebra_simps)
  next
    case 3
    then show ?thesis using days_before_year_cycles [of "b + 1" 0 0 a] assms by (simp add: algebra_simps)
  next
    case 4
    then show ?thesis using days_before_year_cycles [of 0 0 0 "a + 1"] by (simp add: algebra_simps)
  qed
qed

lemma year_of_day_bounds:
  "days_before_year (year_of_day d) \<le> d" "d < days_before_year (year_of_day d + 1)"
proof -
  define a r b s c u e where defs: "a = d div 146097" "r = d mod 146097" "b = min 3 (r div 36524)"
    "s = r - 36524 * b" "c = s div 1461" "u = s mod 1461" "e = min 3 (u div 365)"
  have y: "year_of_day d = 400 * a + 100 * b + 4 * c + e + 1"
    by (simp only: year_of_day_def Let_def defs)
  have d: "d = 146097 * a + r" by (simp add: defs(1,2))
  have r: "0 \<le> r" "r < 146097" by (simp_all add: defs(2))
  have b: "0 \<le> b" "b \<le> 3" using r(1) by (auto simp: defs(3) pos_imp_zdiv_nonneg_iff)
  have s: "0 \<le> s" "s < 36525" "b < 3 \<longrightarrow> s < 36524" using r unfolding defs(3,4) by (auto simp: min_def)
  have su: "s = 1461 * c + u" by (simp add: defs(5,6))
  have c: "0 \<le> c" "c \<le> 24" using s unfolding defs(5) by (auto simp: pos_imp_zdiv_nonneg_iff)
  have u: "0 \<le> u" "u < 1461" by (simp_all add: defs(6))
  have e: "0 \<le> e" "e \<le> 3" "365 * e \<le> u" "e < 3 \<longrightarrow> u < 365 * (e + 1)"
    using u unfolding defs(7) by (auto simp: min_def pos_imp_zdiv_nonneg_iff)
  show "days_before_year (year_of_day d) \<le> d"
    using days_before_year_cycles [OF b c e(1,2)] d su e(3) unfolding y defs(4) by simp
  show "d < days_before_year (year_of_day d + 1)"
    unfolding y days_before_year_next_cycle [OF b c e(1,2)]
    using d su e(4) u s r defs(4) c b by (auto split: if_splits)
qed

lemma succ_div:
  assumes "0 < (k::int)"
  shows "(z + 1) div k = z div k + (if k dvd z + 1 then 1 else 0)"
proof (cases "k dvd z + 1")
  case True
  then obtain q where q: "z + 1 = k * q" by auto
  then have "z div k = q - 1" by (intro int_div_pos_eq [where r = "k - 1"]) (use assms in \<open>simp_all add: algebra_simps\<close>)
  with True q assms show ?thesis by simp
next
  case False
  then have "0 < (z + 1) mod k" using assms by (simp add: dvd_eq_mod_eq_0 order_less_le)
  moreover have "(z + 1) mod k < k" "z + 1 = k * ((z + 1) div k) + (z + 1) mod k" using assms by simp_all
  ultimately have "z div k = (z + 1) div k"
    by (intro int_div_pos_eq [where r = "(z + 1) mod k - 1"]) linarith+
  with False show ?thesis by simp
qed

lemma leap_rule:
  "(P400 \<Longrightarrow> P100) \<Longrightarrow> (P100 \<Longrightarrow> P4) \<Longrightarrow>
   (if P4 then 1 else 0) - (if P100 then 1 else 0) + (if P400 then 1 else 0)
     = (if P4 \<and> (\<not> P100 \<or> P400) then 1 else (0 :: int))"
  by (cases P4; cases P100; cases P400; simp)

lemma leap_sum:
  "q4 = p4 + a \<Longrightarrow> q100 = p100 + b \<Longrightarrow> q400 = p400 + c \<Longrightarrow> a - b + c = l \<Longrightarrow> m = 365 + l \<Longrightarrow>
   365 * y + q4 - q100 + q400 = 365 * (y - 1) + p4 - p100 + p400 + (m :: int)"
  by simp

lemma days_before_year_step:
  "days_before_year (y + 1) = days_before_year y + (if is_leap y then 366 else 365)"
proof -
  have q: "400 dvd y \<Longrightarrow> 100 dvd y" "100 dvd y \<Longrightarrow> 4 dvd y"
    using dvd_trans [of 100 400 y] dvd_trans [of 4 100 y] by simp_all
  have "y div 4 = (y - 1) div 4 + (if 4 dvd y then 1 else 0)"
    "y div 100 = (y - 1) div 100 + (if 100 dvd y then 1 else 0)"
    "y div 400 = (y - 1) div 400 + (if 400 dvd y then 1 else 0)"
    using succ_div [of 4 "y - 1"] succ_div [of 100 "y - 1"] succ_div [of 400 "y - 1"] by simp_all
  moreover have "(if 4 dvd y then 1 else 0) - (if 100 dvd y then 1 else 0) + (if 400 dvd y then 1 else 0)
      = (if is_leap y then 1 else (0 :: int))"
    unfolding is_leap_def by (rule leap_rule [OF q])
  moreover have "(if is_leap y then 366 else 365) = 365 + (if is_leap y then 1 else (0 :: int))" by simp
  ultimately show ?thesis unfolding days_before_year_def add_diff_cancel_right' by (rule leap_sum)
qed

lemma days_before_year_mono: "x \<le> y \<Longrightarrow> days_before_year x \<le> days_before_year y"
proof (induction y rule: int_ge_induct)
  case (step i)
  then show ?case by (simp add: days_before_year_step)
qed simp

lemma year_of_day_unique:
  assumes "days_before_year y \<le> d" "d < days_before_year (y + 1)"
  shows "year_of_day d = y"
proof (rule ccontr)
  assume "year_of_day d \<noteq> y"
  then consider "year_of_day d + 1 \<le> y" | "y + 1 \<le> year_of_day d" by linarith
  then show False
    using assms year_of_day_bounds [of d]
      days_before_year_mono [of "year_of_day d + 1" y] days_before_year_mono [of "y + 1" "year_of_day d"]
    by cases linarith+
qed

section \<open>Months\<close>

definition month_lengths :: "int \<Rightarrow> int list" where
  "month_lengths y = [31, if is_leap y then 29 else 28, 31, 30, 31, 30, 31, 31, 30, 31, 30, 31]"

fun month_search :: "int \<Rightarrow> int list \<Rightarrow> nat \<times> int" where
  "month_search d [] = (0, d)"
| "month_search d (l # ls) = (if d < l then (0, d) else (let (m, r) = month_search (d - l) ls in (Suc m, r)))"

text \<open>\<^verbatim>\<open>Time.Date\<close> in UTC: year, month (1 to 12) and day of the month (from 1) of a day number.\<close>

definition civil_of_day :: "int \<Rightarrow> int \<times> nat \<times> int" where
  "civil_of_day d =
     (let y = year_of_day d; (m, r) = month_search (d - days_before_year y) (month_lengths y)
      in (y, Suc m, r + 1))"

definition days_before_month :: "int \<Rightarrow> nat \<Rightarrow> int" where
  "days_before_month y m = sum_list (take (m - 1) (month_lengths y))"

lemma month_search_spec:
  assumes "\<forall>l \<in> set ls. 0 < l" "0 \<le> d" "d < sum_list ls" "month_search d ls = (m, r)"
  shows "m < length ls \<and> 0 \<le> r \<and> r < ls ! m \<and> d = sum_list (take m ls) + r"
  using assms
proof (induction d ls arbitrary: m r rule: month_search.induct)
  case (2 d l ls)
  show ?case
  proof (cases "d < l")
    case False
    obtain m' r' where mr: "month_search (d - l) ls = (m', r')" by fastforce
    have "m' < length ls \<and> 0 \<le> r' \<and> r' < ls ! m' \<and> d - l = sum_list (take m' ls) + r'"
      using "2.IH" [OF False _ _ _ mr] "2.prems" False by simp
    with "2.prems" False mr show ?thesis by auto
  qed (use "2.prems" in auto)
qed auto

lemma month_search_start:
  assumes "\<forall>l \<in> set ls. 0 < (l::int)" "m < length ls"
  shows "month_search (sum_list (take m ls)) ls = (m, 0)"
  using assms
proof (induction ls arbitrary: m)
  case (Cons l ls)
  show ?case
  proof (cases m)
    case (Suc k)
    moreover have "0 \<le> sum_list (take k ls)"
      using Cons.prems(1) by (intro sum_list_nonneg) (auto dest: in_set_takeD intro: less_imp_le)
    ultimately show ?thesis using Cons by simp
  qed (use Cons.prems in simp)
qed simp

lemma month_lengths_facts:
  shows month_lengths_pos: "\<forall>l \<in> set (month_lengths y). 0 < l"
    and month_lengths_length [simp]: "length (month_lengths y) = 12"
    and month_lengths_sum: "sum_list (month_lengths y) = days_before_year (y + 1) - days_before_year y"
  by (simp_all add: month_lengths_def days_before_year_step)

lemma civil_of_day_spec:
  assumes "civil_of_day d = (y, m, dd)"
  shows "1 \<le> m \<and> m \<le> 12 \<and> 1 \<le> dd \<and> dd \<le> month_lengths y ! (m - 1) \<and> y = year_of_day d
    \<and> d = days_before_year y + days_before_month y m + (dd - 1)"
proof -
  obtain k r where kr: "month_search (d - days_before_year (year_of_day d)) (month_lengths (year_of_day d)) = (k, r)"
    by fastforce
  have "y = year_of_day d" "m = Suc k" "dd = r + 1" using assms kr by (simp_all add: civil_of_day_def)
  moreover have "k < 12 \<and> 0 \<le> r \<and> r < month_lengths (year_of_day d) ! k
      \<and> d - days_before_year (year_of_day d) = sum_list (take k (month_lengths (year_of_day d))) + r"
    using month_search_spec [OF month_lengths_pos _ _ kr] year_of_day_bounds [of d]
    by (simp add: month_lengths_sum)
  ultimately show ?thesis by (auto simp: days_before_month_def)
qed

lemma civil_of_day_range:
  assumes "civil_of_day d = (y, m, dd)"
  shows "1 \<le> m" "m \<le> 12" "year_of_day d = y"
  using civil_of_day_spec [OF assms] by blast+

lemma civil_of_month_start:
  assumes "1 \<le> m" "m \<le> 12"
  shows "civil_of_day (days_before_year y + days_before_month y m) = (y, m, 1)"
proof -
  let ?d = "days_before_year y + days_before_month y m"
  have "0 \<le> days_before_month y m"
    unfolding days_before_month_def using month_lengths_pos [of y]
    by (intro sum_list_nonneg) (auto dest: in_set_takeD intro: less_imp_le)
  moreover have "days_before_month y m < sum_list (month_lengths y)"
  proof -
    have split: "sum_list (month_lengths y) = days_before_month y m + sum_list (drop (m - 1) (month_lengths y))"
      unfolding days_before_month_def by (metis append_take_drop_id sum_list_append)
    have "drop (m - 1) (month_lengths y) = month_lengths y ! (m - 1) # drop m (month_lengths y)"
      using assms by (metis Cons_nth_drop_Suc One_nat_def Suc_le_eq Suc_pred month_lengths_length)
    moreover have "0 \<le> sum_list (drop m (month_lengths y))"
      using month_lengths_pos [of y] by (intro sum_list_nonneg) (auto dest: in_set_dropD intro: less_imp_le)
    moreover have "0 < month_lengths y ! (m - 1)"
      using month_lengths_pos [of y] assms by (simp add: all_set_conv_all_nth)
    ultimately show ?thesis using split by simp
  qed
  ultimately have y: "year_of_day ?d = y"
    by (intro year_of_day_unique) (simp_all add: month_lengths_sum)
  have "month_search (days_before_month y m) (month_lengths y) = (m - 1, 0)"
    unfolding days_before_month_def using month_search_start [OF month_lengths_pos] assms by simp
  then show ?thesis using y assms by (simp add: civil_of_day_def)
qed

section \<open>Layouts\<close>

text \<open>The layout element \<^verbatim>\<open>2006\<close> pads the year to four digits, after a minus sign if negative.\<close>

definition year_string :: "int \<Rightarrow> string" where
  "year_string y = (if y < 0 then CHR ''-'' # zero_pad 4 (dec_string (nat (- y))) else zero_pad 4 (dec_string (nat y)))"

definition format_200601 :: "gotime \<Rightarrow> string" where
  "format_200601 t = (let (y, m, d) = civil_of_day (day_number t) in year_string y @ zero_pad 2 (dec_string m))"

definition format_DateOnly :: "gotime \<Rightarrow> string" where
  "format_DateOnly t = (let (y, m, d) = civil_of_day (day_number t) in
     year_string y @ ''-'' @ zero_pad 2 (dec_string m) @ ''-'' @ zero_pad 2 (dec_string (nat d)))"

text \<open>\<^verbatim>\<open>time.Parse("200601", s)\<close>: four digits, then a two-digit month; anything else is an error.\<close>

definition parse_200601 :: "string \<Rightarrow> gotime option" where
  "parse_200601 s =
     (let y = int (digits_val (take 4 s)); m = digits_val (drop 4 s)
      in if length s = 6 \<and> list_all is_digit s \<and> 1 \<le> m \<and> m \<le> 12
         then Some ((days_before_year y + days_before_month y m) * nanos_per_day) else None)"

definition year_of :: "gotime \<Rightarrow> int" where
  "year_of t = year_of_day (day_number t)"

definition month_start :: "gotime \<Rightarrow> gotime" where
  "month_start t = (let (y, m, d) = civil_of_day (day_number t)
     in (days_before_year y + days_before_month y m) * nanos_per_day)"

lemma length_dec_string: "n < 10 ^ k \<Longrightarrow> 0 < k \<Longrightarrow> length (dec_string n) \<le> k"
proof (induction n arbitrary: k rule: dec_string.induct)
  case (1 n)
  show ?case
  proof (cases "n < 10")
    case True
    with "1.prems" show ?thesis by (subst dec_string.simps) simp
  next
    case False
    with "1.prems" have "k \<noteq> 1" by auto
    with "1.prems"(2) obtain j where k: "k = Suc j" "0 < j" by (cases k) auto
    with "1.prems" have "n div 10 < 10 ^ j" by (simp add: less_mult_imp_div_less mult.commute)
    with False k "1.IH" [of j] show ?thesis by (subst dec_string.simps) simp
  qed
qed

lemma length_zero_pad: "length s \<le> w \<Longrightarrow> length (zero_pad w s) = w"
  by (simp add: zero_pad_def)

lemma format_200601_parse:
  assumes "0 \<le> year_of t" "year_of t \<le> 9999"
  shows "parse_200601 (format_200601 t) = Some (month_start t)"
proof -
  obtain y m d where c: "civil_of_day (day_number t) = (y, m, d)" by (cases "civil_of_day (day_number t)") blast
  have ym: "1 \<le> m" "m \<le> 12" "0 \<le> y" "y \<le> 9999"
    using civil_of_day_range [OF c] assms by (simp_all add: year_of_def)
  let ?ys = "zero_pad 4 (dec_string (nat y))" and ?ms = "zero_pad 2 (dec_string m)"
  have ly: "length ?ys = 4" and lm: "length ?ms = 2"
    using ym by (auto intro!: length_zero_pad length_dec_string)
  have "list_all is_digit (?ys @ ?ms)"
    by (simp add: zero_pad_digits dec_string_digits)
  with c ym ly lm show ?thesis
    by (simp add: format_200601_def parse_200601_def year_string_def month_start_def zero_pad_val)
qed

lemma format_month_start [simp]: "format_200601 (month_start t) = format_200601 t"
proof -
  obtain y m d where c: "civil_of_day (day_number t) = (y, m, d)" by (cases "civil_of_day (day_number t)") blast
  with civil_of_day_range [OF c] civil_of_month_start [of m y] show ?thesis
    by (simp add: format_200601_def month_start_def)
qed

lemma month_start_le: "month_start t \<le> t"
proof -
  obtain y m d where c: "civil_of_day (day_number t) = (y, m, d)" by (cases "civil_of_day (day_number t)") blast
  then have "days_before_year y + days_before_month y m \<le> day_number t"
    using civil_of_day_spec [OF c] by linarith
  then have "month_start t \<le> day_number t * nanos_per_day"
    using c by (simp add: month_start_def mult_right_mono less_imp_le)
  then show ?thesis using day_start_bounds(1) [of t] by linarith
qed

end
