(* ===== verification/Tlsrpt.thy ===== *)
theory Tlsrpt
  imports Go_Time
begin

text \<open>
  \<^verbatim>\<open>internal/tlsrpt/tlsrpt.go\<close>: the RFC 8460 report and its decoding. Text fields are lists of code
  points. The JSON decoder and the gzip reader of the standard library are arguments: the decoder
  maps bytes to a report, the reader maps bytes to the decompressed stream together with the errors
  that end it. A nil slice is \<open>None\<close>.
\<close>

section \<open>Reports\<close>

record FailureDetail =
  ResultType :: gotext
  SendingMTAIP :: gotext
  ReceivingMXHostname :: gotext
  ReceivingIP :: gotext
  FailedSessionCount :: int
  AdditionalInformation :: gotext
  FailureReasonCode :: gotext

record Policy =
  PolicyType :: gotext
  PolicyString :: "gotext list"
  PolicyDomain :: gotext
  MXHost :: "gotext list"

record SessionSummary =
  TotalSuccessfulSessionCount :: int
  TotalFailureSessionCount :: int

record PolicyRecord =
  policy :: Policy
  policy_summary :: SessionSummary
  FailureDetails :: "FailureDetail list"

record DateRange =
  StartDatetime :: gotime
  EndDatetime :: gotime

record Report =
  OrganizationName :: gotext
  ReportID :: gotext
  dateRange :: DateRange
  Policies :: "PolicyRecord list option"

definition policy_records :: "Report \<Rightarrow> PolicyRecord list" where
  "policy_records r = (case Policies r of None \<Rightarrow> [] | Some ps \<Rightarrow> ps)"

fun has_failure_loop :: "PolicyRecord list \<Rightarrow> bool" where
  "has_failure_loop [] = False"
| "has_failure_loop (p # ps) = (if 0 < TotalFailureSessionCount (policy_summary p) then True else has_failure_loop ps)"

definition HasFailure :: "Report \<Rightarrow> bool" where
  "HasFailure r = has_failure_loop (policy_records r)"

lemma has_failure_loop_iff: "has_failure_loop ps \<longleftrightarrow> (\<exists>p \<in> set ps. 0 < TotalFailureSessionCount (policy_summary p))"
  by (induction ps) auto

section \<open>Decoding\<close>

definition maxDecompressedSize :: nat where
  "maxDecompressedSize = 10 * 1024 * 1024"

datatype tlsrpt_error =
    ErrDecompress
  | ErrDecompressedSizeLimitExceeded nat nat
  | ErrParseJSON
  | ErrMissingRequiredField string

record gzip_stream =
  gz_bytes :: string
  gz_read_fails :: bool
  gz_close_fails :: bool

definition parseJSON :: "(string \<Rightarrow> Report option) \<Rightarrow> string \<Rightarrow> tlsrpt_error + Report" where
  "parseJSON unmarshal data =
     (case unmarshal data of
        None \<Rightarrow> Inl ErrParseJSON
      | Some r \<Rightarrow>
          if OrganizationName r = [] then Inl (ErrMissingRequiredField ''organization-name'')
          else if ReportID r = [] then Inl (ErrMissingRequiredField ''report-id'')
          else if IsZero (StartDatetime (dateRange r)) \<or> IsZero (EndDatetime (dateRange r))
            then Inl (ErrMissingRequiredField ''date-range'')
          else if Policies r = None then Inl (ErrMissingRequiredField ''policies'')
          else Inr r)"

definition ParseJSON :: "(string \<Rightarrow> Report option) \<Rightarrow> string \<Rightarrow> tlsrpt_error + Report" where
  "ParseJSON unmarshal data =
     (if maxDecompressedSize < length data
      then Inl (ErrDecompressedSizeLimitExceeded maxDecompressedSize (length data))
      else parseJSON unmarshal data)"

text \<open>
  The limited reader hands out at most one byte more than the limit: a stream that long ends there
  without reaching the error behind it.
\<close>

definition ParseGzip ::
    "(string \<Rightarrow> gzip_stream option) \<Rightarrow> (string \<Rightarrow> Report option) \<Rightarrow> string \<Rightarrow> tlsrpt_error + Report" where
  "ParseGzip gunzip unmarshal data =
     (case gunzip data of
        None \<Rightarrow> Inl ErrDecompress
      | Some gr \<Rightarrow>
          let decompressed = take (maxDecompressedSize + 1) (gz_bytes gr)
          in if gz_read_fails gr \<and> length (gz_bytes gr) < maxDecompressedSize + 1 then Inl ErrDecompress
             else if gz_close_fails gr then Inl ErrDecompress
             else if maxDecompressedSize < length decompressed
               then Inl (ErrDecompressedSizeLimitExceeded maxDecompressedSize (length decompressed))
             else parseJSON unmarshal decompressed)"

definition valid_report :: "Report \<Rightarrow> bool" where
  "valid_report r \<longleftrightarrow> OrganizationName r \<noteq> [] \<and> ReportID r \<noteq> [] \<and> \<not> IsZero (StartDatetime (dateRange r))
     \<and> \<not> IsZero (EndDatetime (dateRange r)) \<and> Policies r \<noteq> None"

lemma parseJSON_Inr_iff: "parseJSON unmarshal data = Inr r \<longleftrightarrow> unmarshal data = Some r \<and> valid_report r"
  by (auto simp: parseJSON_def valid_report_def split: option.splits)

text \<open>
  C24. a report that leaves the gzip decoder is complete (organization, report id, both dates and
  policies present), was decoded from the whole decompressed stream, and that stream is at most
  10 MiB long; conversely every such stream of a complete report is accepted.
\<close>

theorem ParseGzip_accepts:
  "ParseGzip gunzip unmarshal data = Inr r \<longleftrightarrow>
     (\<exists>gr. gunzip data = Some gr \<and> \<not> gz_read_fails gr \<and> \<not> gz_close_fails gr
        \<and> length (gz_bytes gr) \<le> maxDecompressedSize \<and> unmarshal (gz_bytes gr) = Some r \<and> valid_report r)"
  by (auto simp: ParseGzip_def Let_def parseJSON_Inr_iff split: option.splits if_splits)

end
