(* ===== verification/Store_Files.thy ===== *)
theory Store_Files
  imports Go_VC Tlsrpt
begin

text \<open>
  \<^verbatim>\<open>internal/store/types.go\<close>, \<^verbatim>\<open>atomicfile.go\<close>, \<^verbatim>\<open>permission.go\<close>, \<^verbatim>\<open>sentinel.go\<close> and the paths of the
  store. A file holds a decoded JSON document or raw bytes: \<^verbatim>\<open>json.Unmarshal\<close> into a Go type fails
  exactly when the file holds something else, and \<^verbatim>\<open>json.Marshal\<close> is a step that may fail.
  Permission warnings go to the log, which is not modelled.
\<close>

section \<open>Types\<close>

datatype OpenMode = OpenReadWrite | OpenReadOnly | OpenRecoverReset

record EmailMeta =
  meta_UID :: u32
  meta_UIDValidity :: u32
  meta_InternalDate :: gotime

record ReportInput =
  input_Report :: Report
  input_UID :: u32
  input_UIDValidity :: u32

record 'msg LoadedEmail =
  loaded_Message :: 'msg
  loaded_UID :: u32
  loaded_UIDValidity :: u32
  loaded_InternalDate :: gotime
  loaded_Path :: path

record internalEmailIndexEntry =
  entry_UID :: u32
  entry_UIDValidity :: u32
  entry_InternalDate :: gotime

record internalDataFile =
  df_Version :: int
  df_Reports :: "Report list"
  df_Emails :: "internalEmailIndexEntry list"

record internalRecoveryState =
  PrevUIDValidity :: u32
  CurrUIDValidity :: u32
  DetectedAt :: gotime

record internalSentinelFile =
  FormatVersion :: int
  IMAPHost :: string
  IMAPPort :: int
  IMAPMailbox :: string
  InitializedAt :: gotime
  UIDValidity :: "u32 option"
  RecoveryRequired :: "internalRecoveryState option"

record resetManifest =
  manifest_Version :: int
  manifest_CurrUIDValidity :: u32
  manifest_Phase :: int

definition SentinelFormatVersion :: int where
  "SentinelFormatVersion = 1"

definition DataFileVersion :: int where
  "DataFileVersion = 1"

datatype content =
    CData internalDataFile
  | CSentinel internalSentinelFile
  | CManifest resetManifest
  | CRaw string

type_synonym 'a store_io = "(content, 'a) io"
type_synonym store_view = "content view"

record fileStore =
  rootDir :: path
  identity :: IMAPIdentity
  mode :: OpenMode
  readOnly :: bool
  dataPath :: path
  emailsDirPath :: path

section \<open>Paths\<close>

definition sentinelPath :: "path \<Rightarrow> path" where
  "sentinelPath root = root @ [''.tlsrpt-digest-meta.json'']"

definition emailsPath :: "path \<Rightarrow> path" where
  "emailsPath root = root @ [''emails'']"

definition dataFilePath :: "path \<Rightarrow> path" where
  "dataFilePath root = root @ [''tlsrpt.json'']"

definition guardFilePath :: "path \<Rightarrow> path" where
  "guardFilePath root = root @ [''.tlsrpt-digest-summary.lock'']"

definition resetManifestPath :: "path \<Rightarrow> path" where
  "resetManifestPath root = root @ [''.tlsrpt-digest-reset-manifest.json'']"

definition resetStagingPath :: "path \<Rightarrow> path" where
  "resetStagingPath root = root @ [''.tlsrpt-digest-staging'']"

lemmas path_defs = sentinelPath_def emailsPath_def dataFilePath_def guardFilePath_def
  resetManifestPath_def resetStagingPath_def

section \<open>Permissions\<close>

definition dirPerm :: nat where
  "dirPerm = 448"

definition filePerm :: nat where
  "filePerm = 384"

definition ensureDirExists :: "path \<Rightarrow> unit store_io" where
  "ensureDirExists dirPath =
     bindIO (attempt (stat dirPath)) (\<lambda>r. case r of
       Inr info \<Rightarrow> if \<not> is_dir info then fail (Wrap ''ensureDirExists'' ErrPathIsNotDir) else ret ()
     | Inl err \<Rightarrow>
         if \<not> is_not_exist err then fail (Wrap ''ensureDirExists: stat failed'' err)
         else wrapErr ''ensureDirExists: mkdir failed'' (mkdirAll dirPath dirPerm))"

definition checkFilePermissions :: "path \<Rightarrow> unit store_io" where
  "checkFilePermissions filePath = bestEffort (stat filePath)"

section \<open>Atomic replacement of a file\<close>

text \<open>The steps on the open temporary file, up to its rename onto the target.\<close>

definition fillTemp :: "path \<Rightarrow> path \<Rightarrow> content \<Rightarrow> unit store_io" where
  "fillTemp tmpPath targetPath data =
     bindIO (mapErr (ErrAtomicWriteFailed targetPath ''chmod'') nop) (\<lambda>_.
     bindIO (mapErr (ErrAtomicWriteFailed targetPath ''write'') (writeTemp tmpPath data)) (\<lambda>_.
     bindIO (mapErr (ErrAtomicWriteFailed targetPath ''sync'') nop) (\<lambda>_.
     mapErr (ErrAtomicWriteFailed targetPath ''close'') nop)))"

text \<open>The best-effort \<^verbatim>\<open>fsync\<close> of the parent directory.\<close>

definition syncParent :: "unit store_io" where
  "syncParent = bindIO (attempt nop) (\<lambda>dirFd. case dirFd of Inl err \<Rightarrow> ret () | Inr _ \<Rightarrow> bestEffort nop)"

definition atomicWriteFile :: "path \<Rightarrow> content \<Rightarrow> unit store_io" where
  "atomicWriteFile targetPath data =
     bindIO (mapErr (ErrAtomicWriteFailed targetPath ''create_temp'') (createTemp (butlast targetPath) (CRaw []))) (\<lambda>tmpPath.
     deferIO (remove tmpPath) (
       bindIO (fillTemp tmpPath targetPath data) (\<lambda>_.
       bindIO (mapErr (ErrAtomicWriteFailed targetPath ''rename'') (rename tmpPath targetPath)) (\<lambda>_.
       syncParent))))"

text \<open>
  Whatever the schedule does, an atomic write leaves the old file or the new file, and nothing else
  visible changes: an error of any step other than the last best-effort ones leaves the old file, and
  a crash leaves one of the two.
\<close>

definition writable :: "path \<Rightarrow> store_view \<Rightarrow> bool" where
  "writable p V \<longleftrightarrow> (\<exists>m. V (butlast p) = Some (Dir m)) \<and> (\<forall>m. V p \<noteq> Some (Dir m))"

lemma temp_not_clean: "\<not> clean (d @ [temp_name k])"
  by (simp add: temp_name_def)

lemma fresh_temp_hidden: "\<not> clean (fresh_temp xs d)"
  unfolding fresh_temp_def by (rule temp_not_clean)

lemma wp_remove_temp:
  assumes "\<not> clean t" "quiet calm w" "\<And>w'. quiet calm w' \<Longrightarrow> view w' = view w \<Longrightarrow> Q w'"
    "\<And>w'. \<not> calm \<Longrightarrow> view w' = view w \<Longrightarrow> C w'"
  shows "wp (remove t) (\<lambda>_. Q) (\<lambda>_. Q) C w"
  unfolding remove_def
proof (rule wp_sys_world [OF assms(2)], goal_cases)
  case 1
  have "visible (fs_del t (fs w)) = view w"
    using assms(1) by (auto simp: fs_simps visible_def)
  then show ?case
    using assms(3) by (auto split: option.split node.split)
next
  case (2 w' ps n)
  then show ?case using assms(3,4) by (simp add: no_part_def quiet_def)
qed

lemma wp_nop:
  assumes "quiet calm w" "\<And>w'. quiet calm w' \<Longrightarrow> fs w' = fs w \<Longrightarrow> Q () w'"
    "\<And>w' n. \<not> calm \<Longrightarrow> quiet calm w' \<Longrightarrow> fs w' = fs w \<Longrightarrow> E (OsError n) w' \<and> C w'"
  shows "wp nop Q E C w"
  unfolding nop_def
  by (rule wp_sys_world [OF assms(1)]) (use assms(2,3) in \<open>auto simp: no_part_def quiet_def\<close>)

lemma wp_rename_temp:
  assumes "\<not> clean t" "clean p" "quiet calm w" "map_of (fs w) t = Some (Reg 384 c)"
    "\<And>w'. quiet calm w' \<Longrightarrow> writable p (view w) \<Longrightarrow> view w' = (view w)(p \<mapsto> Reg 384 c) \<Longrightarrow> Q () w'"
    "\<And>w' n. quiet calm w' \<Longrightarrow> \<not> (calm \<and> writable p (view w)) \<Longrightarrow> view w' = view w \<Longrightarrow> E (OsError n) w'"
    "\<And>w'. \<not> calm \<Longrightarrow> view w' = view w \<Longrightarrow> C w'"
  shows "wp (rename t p) Q E C w"
  unfolding rename_def
proof (rule wp_sys_world [OF assms(3)], goal_cases)
  case 1
  have V: "map_of (fs w) p = view w p" "map_of (fs w) (butlast p) = view w (butlast p)"
    using assms(2) by simp_all
  have new: "visible (fs_set p (Reg 384 c) (fs_del t (fs w))) = (view w)(p \<mapsto> Reg 384 c)"
    using assms(1,2) by (auto simp: fs_simps visible_def)
  consider m where "writable p (view w)" "view w (butlast p) = Some (Dir m)" "\<forall>m. view w p \<noteq> Some (Dir m)"
    | "\<not> writable p (view w)" by (auto simp: writable_def)
  then show ?case
  proof cases
    case 1
    then show ?thesis
      using assms(4,5) new by (auto simp: V split: option.split node.split)
  next
    case 2
    then have "view w (butlast p) = Some (Dir m) \<Longrightarrow> \<exists>m. view w p = Some (Dir m)" for m
      by (auto simp: writable_def)
    then show ?thesis
      using assms(4,6) 2 by (auto simp: V split: option.split node.split)
  qed
next
  case (2 w' ps n)
  then show ?case using assms(6,7) by (simp add: no_part_def quiet_def)
qed

lemma wp_syncParent:
  assumes "quiet calm w" "\<And>w'. quiet calm w' \<Longrightarrow> fs w' = fs w \<Longrightarrow> Q () w'" "\<And>w'. \<not> calm \<Longrightarrow> fs w' = fs w \<Longrightarrow> C w'"
  shows "wp syncParent Q E C w"
  unfolding syncParent_def wp_simps bestEffort_def
  by (rule wp_nop, rule assms(1)) (auto simp: wp_simps assms intro!: wp_nop [where calm = calm])

lemma wp_fillTemp:
  assumes "quiet calm w" "\<not> clean t"
    "\<And>w'. quiet calm w' \<Longrightarrow> view w' = view w \<Longrightarrow> map_of (fs w') t = Some (Reg 384 c) \<Longrightarrow> Q () w'"
    "\<And>w' op n. \<not> calm \<Longrightarrow> view w' = view w \<Longrightarrow> E (ErrAtomicWriteFailed p op (OsError n)) w' \<and> C w'"
  shows "wp (fillTemp t p c) Q E C w"
proof -
  have wr: "visible (fs_set t n xs) = visible xs" "map_of (fs_set t n xs) t = Some n" for n and xs :: "content fsys"
    using assms(2) by (auto simp: fs_simps)
  show ?thesis
    unfolding fillTemp_def wp_combinators(3,5) writeTemp_def
    apply (rule wp_nop [OF assms(1)])
     apply (rule wp_sys_world, assumption)
      apply (simp, intro allI impI, elim conjE)
      apply (rule wp_nop, assumption, rule wp_nop, assumption)
    using assms(3,4) by (auto simp: no_part_def quiet_def wr)
qed

lemma vwp_atomicWriteFile [vc]:
  assumes "clean p" "writable p V \<Longrightarrow> Q () (V(p \<mapsto> Reg 384 c))"
    "\<And>op n. \<not> (calm \<and> writable p V) \<Longrightarrow> E (ErrAtomicWriteFailed p op (OsError n)) V"
    "\<not> calm \<Longrightarrow> C V" "\<not> calm \<Longrightarrow> writable p V \<Longrightarrow> C (V(p \<mapsto> Reg 384 c))"
  shows "vwp calm (atomicWriteFile p c) Q E C V"
proof (rule vwpI, goal_cases)
  case (1 w)
  note cleanup = wp_remove_temp [where calm = calm]
  have body: "wp (deferIO (remove t) (bindIO (fillTemp t p c) (\<lambda>_.
       bindIO (mapErr (ErrAtomicWriteFailed p ''rename'') (rename t p)) (\<lambda>_. syncParent))))
       (\<lambda>a w'. quiet calm w' \<and> Q () (view w')) (\<lambda>e w'. quiet calm w' \<and> E e (view w')) (\<lambda>w'. C (view w')) w1"
    if w1: "quiet calm w1" "view w1 = V" "\<not> clean t" for w1 t
    unfolding wp_combinators(3,5,6)
  proof (rule wp_fillTemp [OF w1(1,3)], goal_cases)
    case (1 w2)
    show ?case
      by (rule wp_rename_temp [OF w1(3) assms(1) 1(1,3)])
        (use 1 w1 assms in \<open>auto intro!: cleanup wp_syncParent [where calm = calm]\<close>)
  next
    case (2 w2 op n)
    then show ?case using w1 assms(3,4) by (auto simp: quiet_def intro!: cleanup)
  qed
  show ?case
    unfolding atomicWriteFile_def wp_combinators(3,5) createTemp_def
  proof (rule wp_sys_world [OF 1(2)], goal_cases)
    case 1
    then show ?case
      using assms(1,3) \<open>view w = V\<close> fresh_temp_hidden [of "fs w" "butlast p"]
      by (auto simp: Let_def writable_def fs_simps split: option.split node.split intro!: body)
  next
    case (2 w' ps n)
    then show ?case using assms(3,4) \<open>view w = V\<close> by (simp add: no_part_def quiet_def)
  qed
qed

text \<open>\<^verbatim>\<open>json.Marshal\<close> of a document.\<close>

definition marshal :: "content \<Rightarrow> content store_io" where
  "marshal c = bindIO (mapErr (\<lambda>_. ErrMarshal) nop) (\<lambda>_. ret c)"

lemma vwp_marshal [vc]: "Q c V \<Longrightarrow> (\<not> calm \<Longrightarrow> E ErrMarshal V \<and> C V) \<Longrightarrow> vwp calm (marshal c) Q E C V"
  unfolding marshal_def by (auto intro!: vc)

lemma vwp_checkFilePermissions [vc]:
  "clean p \<Longrightarrow> Q () V \<Longrightarrow> (\<not> calm \<Longrightarrow> C V) \<Longrightarrow> vwp calm (checkFilePermissions p) Q E C V"
  unfolding checkFilePermissions_def by (auto intro!: vc)

text \<open>
  The directory exists afterwards; if it did not, it and its missing parents are created with mode
  0700 and nothing else changes.
\<close>

lemma vwp_ensureDirExists [vc]:
  assumes "clean p" "\<And>m. V p = Some (Dir m) \<Longrightarrow> Q () V"
    "V p = None \<Longrightarrow> \<forall>q. prefix q p \<longrightarrow> \<not> file_at V q \<Longrightarrow> Q () (v_mkdirs dirPerm (prefixes p) V)"
    "\<And>e. \<not> calm \<or> file_at V p \<or> (\<exists>q. prefix q p \<and> file_at V q) \<Longrightarrow> E e V"
    "\<And>e ps. \<not> calm \<Longrightarrow> V p = None \<Longrightarrow> let V' = v_mkdirs dirPerm (filter (\<lambda>q. q \<in> set ps) (prefixes p)) V in E e V' \<and> C V'"
    "\<not> calm \<Longrightarrow> C V"
  shows "vwp calm (ensureDirExists p) Q E C V"
  unfolding ensureDirExists_def
  apply (rule vc)+
     apply (rule assms(1))
  subgoal for n using assms(2,4) by (cases n) (auto intro!: vc simp: file_at_def)
  subgoal using assms by (auto intro!: vc simp: Let_def is_not_exist_def v_absent_errno_def strict_prefix_def)
  subgoal using assms by (auto intro!: vc simp: is_not_exist_def)
  done

section \<open>Sentinel\<close>

definition loadSentinel :: "path \<Rightarrow> internalSentinelFile option store_io" where
  "loadSentinel root =
     bindIO (attempt (readFile (sentinelPath root))) (\<lambda>r. case r of
       Inl err \<Rightarrow> if is_not_exist err then ret None else fail (Wrap ''loadSentinel: read sentinel'' err)
     | Inr data \<Rightarrow>
         (case data of
            CSentinel sentinel \<Rightarrow>
              if FormatVersion sentinel \<noteq> SentinelFormatVersion
              then fail (ErrUnsupportedSchemaVersion (sentinelPath root) (FormatVersion sentinel))
              else ret (Some sentinel)
          | _ \<Rightarrow> fail (Wrap ''loadSentinel: unmarshal sentinel'' ErrUnmarshal)))"

definition saveSentinel :: "path \<Rightarrow> internalSentinelFile \<Rightarrow> unit store_io" where
  "saveSentinel root sentinel =
     bindIO (wrapErr ''saveSentinel: marshal sentinel'' (marshal (CSentinel sentinel))) (\<lambda>data.
     wrapErr ''saveSentinel: atomic write'' (atomicWriteFile (sentinelPath root) data))"

definition initSentinel :: "path \<Rightarrow> IMAPIdentity \<Rightarrow> internalSentinelFile store_io" where
  "initSentinel root ident =
     bindIO getNow (\<lambda>now.
     let sentinel = \<lparr>FormatVersion = SentinelFormatVersion, IMAPHost = identity_Host ident,
           IMAPPort = identity_Port ident, IMAPMailbox = identity_Mailbox ident,
           InitializedAt = now, UIDValidity = None, RecoveryRequired = None\<rparr>
     in bindIO (saveSentinel root sentinel) (\<lambda>_. ret sentinel))"

definition sentinel_identity :: "internalSentinelFile \<Rightarrow> IMAPIdentity" where
  "sentinel_identity s = \<lparr>identity_Host = IMAPHost s, identity_Port = IMAPPort s, identity_Mailbox = IMAPMailbox s\<rparr>"

definition verifySentinelIdentity :: "path \<Rightarrow> internalSentinelFile \<Rightarrow> IMAPIdentity \<Rightarrow> go_error option" where
  "verifySentinelIdentity root sentinel expected =
     (if IMAPHost sentinel \<noteq> identity_Host expected \<or> IMAPPort sentinel \<noteq> identity_Port expected
         \<or> IMAPMailbox sentinel \<noteq> identity_Mailbox expected
      then Some (ErrStoreIdentityMismatch root expected (sentinel_identity sentinel)) else None)"

text \<open>What the sentinel file shows: nothing, a usable sentinel, or a file the program refuses.\<close>

definition sentinel_of :: "path \<Rightarrow> store_view \<Rightarrow> internalSentinelFile option" where
  "sentinel_of root V = (case V (sentinelPath root) of Some (Reg m (CSentinel s)) \<Rightarrow> Some s | _ \<Rightarrow> None)"

lemma vwp_loadSentinel [vc]:
  assumes "clean root"
    "V (sentinelPath root) = None \<Longrightarrow> v_absent_errno V (sentinelPath root) = ENOENT \<Longrightarrow> Q None V"
    "\<And>m s. V (sentinelPath root) = Some (Reg m (CSentinel s)) \<Longrightarrow> FormatVersion s = SentinelFormatVersion \<Longrightarrow> Q (Some s) V"
    "\<And>e. \<not> calm \<or> (\<forall>m s. V (sentinelPath root) = Some (Reg m (CSentinel s)) \<longrightarrow> FormatVersion s \<noteq> SentinelFormatVersion) \<and>
        (V (sentinelPath root) = None \<longrightarrow> v_absent_errno V (sentinelPath root) \<noteq> ENOENT) \<Longrightarrow> E e V"
    "\<not> calm \<Longrightarrow> C V"
  shows "vwp calm (loadSentinel root) Q E C V"
  unfolding loadSentinel_def
  apply (rule vc)+
      apply (simp add: path_defs assms(1))
  subgoal for m c
    using assms(3) assms(4) by (cases c) (auto intro!: vc)
  subgoal using assms(4) by (auto intro!: vc simp: is_not_exist_def)
  subgoal using assms(2,4) by (auto intro!: vc simp: is_not_exist_def)
  subgoal using assms(4,5) by (auto intro!: vc simp: is_not_exist_def)
  done

lemma vwp_saveSentinel [vc]:
  assumes "clean root" "writable (sentinelPath root) V \<Longrightarrow> Q () (V(sentinelPath root \<mapsto> Reg 384 (CSentinel s)))"
    "\<And>e. \<not> (calm \<and> writable (sentinelPath root) V) \<Longrightarrow> E e V"
    "\<not> calm \<Longrightarrow> C V" "\<not> calm \<Longrightarrow> writable (sentinelPath root) V \<Longrightarrow> C (V(sentinelPath root \<mapsto> Reg 384 (CSentinel s)))"
  shows "vwp calm (saveSentinel root s) Q E C V"
  unfolding saveSentinel_def by (rule vc)+ (use assms in \<open>auto simp: path_defs\<close>)

section \<open>Crash-atomic operations\<close>

text \<open>
  The contract of an operation that takes effect at one point: under every schedule it leaves the
  files as they were or completely updated; it reports success only when they are updated and an
  error only when they are untouched; undisturbed and with its precondition \<open>guard\<close> it succeeds.
\<close>

locale crash_atomic =
  fixes op :: "'a \<Rightarrow> (content, 'r) io" and pre guard :: "'a \<Rightarrow> store_view \<Rightarrow> bool"
    and upd :: "'a \<Rightarrow> store_view \<Rightarrow> store_view" and res :: "'a \<Rightarrow> store_view \<Rightarrow> 'r"
  assumes law: "pre a V \<Longrightarrow> vwp calm (op a) (\<lambda>r V'. V' = upd a V \<and> r = res a V)
    (\<lambda>e V'. V' = V \<and> \<not> (calm \<and> guard a V)) (\<lambda>V'. \<not> calm \<and> (V' = V \<or> V' = upd a V)) V"
begin

lemma outcomes:
  assumes "pre a (view w)" "op a w = (r, w')"
  shows "case r of Ok x \<Rightarrow> view w' = upd a (view w) \<and> x = res a (view w)
    | Err e \<Rightarrow> view w' = view w
    | Crashed \<Rightarrow> view w' = view w \<or> view w' = upd a (view w)"
  using vwp_cases [OF law [OF assms(1), of False] _ assms(2)] by (auto simp: quiet_def split: outcome.splits)

lemma all_or_nothing:
  assumes "pre a (view w)" "op a w = (r, w')"
  shows "view w' = view w \<or> view w' = upd a (view w)"
  using outcomes [OF assms] by (cases r) auto

lemma succeeds:
  assumes "pre a (view w)" "guard a (view w)" "sched w = []"
  shows "\<exists>w'. op a w = (Ok (res a (view w)), w') \<and> view w' = upd a (view w)"
proof (cases "op a w")
  case (Pair r w')
  with vwp_cases [OF law [OF assms(1), of True] _ Pair] assms show ?thesis
    by (auto simp: quiet_def split: outcome.splits)
qed

end

interpretation atomic: crash_atomic "\<lambda>(p, c). atomicWriteFile p c" "\<lambda>(p, c) V. clean p" "\<lambda>(p, c). writable p"
  "\<lambda>(p, c) V. V(p \<mapsto> Reg 384 c)" "\<lambda>_ _. ()"
  by unfold_locales (auto intro!: vwp_atomicWriteFile)

interpretation sentinel: crash_atomic "\<lambda>(root, s). saveSentinel root s" "\<lambda>(root, s) V. clean root" "\<lambda>(root, s). writable (sentinelPath root)"
  "\<lambda>(root, s) V. V(sentinelPath root \<mapsto> Reg 384 (CSentinel s))" "\<lambda>_ _. ()"
  by unfold_locales (auto intro!: vwp_saveSentinel)

end
