(* ===== verification/Store_Reports.thy ===== *)
theory Store_Reports
  imports Store_Files
begin

text \<open>
  \<^verbatim>\<open>internal/store/reports.go\<close>: the data file and the report operations on it. The loops are functions
  over their loop state; the abstract view of the reports is a finite map from report id to report,
  and every save is an update of that map.
\<close>

section \<open>Data file\<close>

definition emptyDataFile :: internalDataFile where
  "emptyDataFile = \<lparr>df_Version = DataFileVersion, df_Reports = [], df_Emails = []\<rparr>"

definition loadDataFile :: "fileStore \<Rightarrow> internalDataFile store_io" where
  "loadDataFile s =
     bindIO (attempt (readFile (dataPath s))) (\<lambda>r. case r of
       Inl err \<Rightarrow> if is_not_exist err then ret emptyDataFile else fail (Wrap ''loadDataFile: read'' err)
     | Inr data \<Rightarrow>
         (case data of
            CData df \<Rightarrow>
              if df_Version df \<noteq> DataFileVersion
              then fail (Join [ErrDataCorrupted, ErrUnsupportedSchemaVersion (dataPath s) (df_Version df)])
              else ret df
          | _ \<Rightarrow> fail (Join [ErrDataCorrupted, Wrap ''loadDataFile: unmarshal'' ErrUnmarshal])))"

definition saveDataFile :: "fileStore \<Rightarrow> internalDataFile \<Rightarrow> unit store_io" where
  "saveDataFile s df =
     bindIO (wrapErr ''saveDataFile: marshal'' (marshal (CData df))) (\<lambda>data. atomicWriteFile (dataPath s) data)"

section \<open>Reports\<close>

text \<open>The index from report id to position, and the loop that replaces or appends.\<close>

fun report_index :: "nat \<Rightarrow> Report list \<Rightarrow> (gotext \<rightharpoonup> nat) \<Rightarrow> (gotext \<rightharpoonup> nat)" where
  "report_index i [] idx = idx"
| "report_index i (r # rs) idx = report_index (Suc i) rs (idx(ReportID r \<mapsto> i))"

fun upsert_loop :: "Report list \<Rightarrow> (gotext \<rightharpoonup> nat) \<Rightarrow> ReportInput list \<Rightarrow> Report list" where
  "upsert_loop reports idx [] = reports"
| "upsert_loop reports idx (input # inputs) =
     (case idx (ReportID (input_Report input)) of
        Some i \<Rightarrow> upsert_loop (reports[i := input_Report input]) idx inputs
      | None \<Rightarrow> upsert_loop (reports @ [input_Report input])
                  (idx(ReportID (input_Report input) \<mapsto> length reports)) inputs)"

definition SaveReports :: "fileStore \<Rightarrow> ReportInput list \<Rightarrow> unit store_io" where
  "SaveReports s inputs =
     (if readOnly s then fail ErrReadOnly
      else
        bindIO (wrapErr ''SaveReports: load data file'' (loadDataFile s)) (\<lambda>df.
        saveDataFile s (df\<lparr>df_Reports :=
          upsert_loop (df_Reports df) (report_index 0 (df_Reports df) Map.empty) inputs\<rparr>)))"

definition GetAllReports :: "fileStore \<Rightarrow> Report list store_io" where
  "GetAllReports s =
     bindIO (wrapErr ''GetAllReports: load data file'' (loadDataFile s)) (\<lambda>df. ret (df_Reports df))"

definition ended_before :: "gotime \<Rightarrow> Report \<Rightarrow> bool" where
  "ended_before cutoff r \<longleftrightarrow> EndDatetime (dateRange r) < cutoff"

fun delete_reports_loop :: "gotime \<Rightarrow> Report list \<Rightarrow> Report list \<Rightarrow> int \<Rightarrow> Report list \<times> int" where
  "delete_reports_loop cutoff [] surviving deleted = (surviving, deleted)"
| "delete_reports_loop cutoff (r # rs) surviving deleted =
     (if ended_before cutoff r then delete_reports_loop cutoff rs surviving (deleted + 1)
      else delete_reports_loop cutoff rs (surviving @ [r]) deleted)"

definition DeleteReportsBefore :: "fileStore \<Rightarrow> gotime \<Rightarrow> int store_io" where
  "DeleteReportsBefore s cutoff =
     (if readOnly s then fail ErrReadOnly
      else
        bindIO (wrapErr ''DeleteReportsBefore: load data file'' (loadDataFile s)) (\<lambda>df.
        case delete_reports_loop cutoff (df_Reports df) [] 0 of (surviving, deleted) \<Rightarrow>
          if deleted = 0 then ret 0
          else bindIO (wrapErr ''DeleteReportsBefore: save data file'' (saveDataFile s (df\<lparr>df_Reports := surviving\<rparr>))) (\<lambda>_.
               ret deleted)))"

fun count_reports_loop :: "gotime \<Rightarrow> Report list \<Rightarrow> int \<Rightarrow> int" where
  "count_reports_loop cutoff [] count = count"
| "count_reports_loop cutoff (r # rs) count =
     count_reports_loop cutoff rs (if ended_before cutoff r then count + 1 else count)"

definition CountReportsBefore :: "fileStore \<Rightarrow> gotime \<Rightarrow> int store_io" where
  "CountReportsBefore s cutoff =
     bindIO (wrapErr ''CountReportsBefore: load data file'' (loadDataFile s)) (\<lambda>df.
     ret (count_reports_loop cutoff (df_Reports df) 0))"

text \<open>The package-level \<^verbatim>\<open>SaveReport\<close> of \<^verbatim>\<open>store.go\<close>.\<close>

definition SaveReport :: "fileStore \<Rightarrow> ReportInput \<Rightarrow> unit store_io" where
  "SaveReport s input = SaveReports s [input]"

section \<open>Loops\<close>

lemma delete_reports_loop:
  "delete_reports_loop cutoff rs surviving deleted =
     (surviving @ filter (\<lambda>r. \<not> ended_before cutoff r) rs, deleted + int (length (filter (ended_before cutoff) rs)))"
  by (induction rs arbitrary: surviving deleted) simp_all

lemma count_reports_loop:
  "count_reports_loop cutoff rs count = count + int (length (filter (ended_before cutoff) rs))"
  by (induction rs arbitrary: count) simp_all

text \<open>One insertion into a collection keyed by \<open>key\<close>, and what a sequence of insertions promises.\<close>

locale keyed_upsert =
  fixes upsert :: "'r list \<Rightarrow> 'r \<Rightarrow> 'r list" and key :: "'r \<Rightarrow> 'k" and wins :: bool
  assumes keys: "distinct (map key xs) \<Longrightarrow> distinct (map key (upsert xs r)) \<and> set (map key (upsert xs r)) = insert (key r) (set (map key xs))"
    and lookup: "distinct (map key xs) \<Longrightarrow> map_of (map (\<lambda>x. (key x, x)) (upsert xs r)) k =
      (if k = key r \<and> (wins \<or> key r \<notin> set (map key xs)) then Some r else map_of (map (\<lambda>x. (key x, x)) xs) k)"
begin

abbreviation table :: "'r list \<Rightarrow> ('k \<rightharpoonup> 'r)" where
  "table xs \<equiv> map_of (map (\<lambda>x. (key x, x)) xs)"

lemma fold_keys:
  "distinct (map key xs) \<Longrightarrow>
   distinct (map key (foldl upsert xs rs)) \<and> set (map key (foldl upsert xs rs)) = set (map key xs) \<union> set (map key rs)"
  by (induction rs arbitrary: xs) (use keys in auto)

lemma table_dom: "k \<in> set (map key xs) \<longleftrightarrow> table xs k \<noteq> None"
  by (force simp: map_of_eq_None_iff)

lemma fold_table:
  "distinct (map key xs) \<Longrightarrow> table (foldl upsert xs rs) k =
     (if wins then (table xs ++ map_of (map (\<lambda>r. (key r, r)) (rev rs))) k
      else (map_of (map (\<lambda>r. (key r, r)) rs) ++ table xs) k)"
proof (induction rs arbitrary: xs)
  case Nil
  then show ?case by simp
next
  case (Cons r rs)
  from keys [OF Cons.prems] have d: "distinct (map key (upsert xs r))" by blast
  show ?case
    using Cons.IH [OF d] lookup [OF Cons.prems, of r k] table_dom [of "key r" xs]
    by (auto simp: map_add_def split: option.splits)
qed

text \<open>Applying a batch twice is applying it once.\<close>

lemma fold_idem:
  assumes "distinct (map key xs)"
  shows "table (foldl upsert (foldl upsert xs rs) rs) = table (foldl upsert xs rs)"
proof
  fix k
  have d: "distinct (map key (foldl upsert xs rs))" using fold_keys [OF assms] by blast
  show "table (foldl upsert (foldl upsert xs rs) rs) k = table (foldl upsert xs rs) k"
    using fold_table [OF assms, of rs k] fold_table [OF d, of rs k]
    by (cases wins) (simp_all add: map_add_def split: option.splits)
qed

end

text \<open>Replacement at the position of the key, or appending.\<close>

definition upsert :: "Report list \<Rightarrow> Report \<Rightarrow> Report list" where
  "upsert xs r = (if ReportID r \<in> set (map ReportID xs) then map (\<lambda>x. if ReportID x = ReportID r then r else x) xs
                  else xs @ [r])"

lemma upsert_present: "ReportID r \<in> set (map ReportID xs) \<Longrightarrow> map ReportID (upsert xs r) = map ReportID xs"
  by (auto simp: upsert_def)

lemma upsert_ids: "map ReportID (upsert xs r) = (if ReportID r \<in> set (map ReportID xs) then map ReportID xs else map ReportID xs @ [ReportID r])"
  by (auto simp: upsert_def)

lemma upsert_table:
  "map_of (map (\<lambda>x. (ReportID x, x)) (upsert xs r)) k =
     (if k = ReportID r then Some r else map_of (map (\<lambda>x. (ReportID x, x)) xs) k)"
proof -
  have "map_of (map (\<lambda>x. (ReportID x, x)) (map (\<lambda>x. if ReportID x = ReportID r then r else x) xs)) k =
      (if k = ReportID r then (if k \<in> set (map ReportID xs) then Some r else None) else map_of (map (\<lambda>x. (ReportID x, x)) xs) k)"
    by (induction xs) auto
  moreover have "k \<notin> ReportID ` set xs \<Longrightarrow> map_of (map (\<lambda>x. (ReportID x, x)) xs) k = None"
    by (force simp: map_of_eq_None_iff)
  ultimately show ?thesis by (auto simp: upsert_def map_add_def split: option.splits)
qed

interpretation reports: keyed_upsert upsert ReportID True
  by unfold_locales (auto simp: upsert_ids upsert_table simp del: map_map split: if_splits)

text \<open>The index is exact, and the loop is a fold of \<open>upsert\<close>.\<close>

definition index_ok :: "Report list \<Rightarrow> (gotext \<rightharpoonup> nat) \<Rightarrow> bool" where
  "index_ok xs idx \<longleftrightarrow> (\<forall>k i. idx k = Some i \<longleftrightarrow> i < length xs \<and> ReportID (xs ! i) = k)"

lemma index_ok_absent: "index_ok xs idx \<Longrightarrow> idx k = None \<longleftrightarrow> k \<notin> set (map ReportID xs)"
proof -
  assume ok: "index_ok xs idx"
  have "idx k = None \<longleftrightarrow> (\<forall>i. idx k \<noteq> Some i)" by (cases "idx k") simp_all
  also have "\<dots> \<longleftrightarrow> (\<forall>i < length xs. ReportID (xs ! i) \<noteq> k)" using ok by (simp add: index_ok_def)
  also have "\<dots> \<longleftrightarrow> (\<forall>x \<in> set xs. ReportID x \<noteq> k)" by (simp add: all_set_conv_all_nth)
  also have "\<dots> \<longleftrightarrow> k \<notin> set (map ReportID xs)" by auto
  finally show ?thesis .
qed

lemma index_ok_snoc:
  assumes "index_ok xs idx" "ReportID r \<notin> set (map ReportID xs)"
  shows "index_ok (xs @ [r]) (idx(ReportID r \<mapsto> length xs))"
proof -
  have "\<forall>i < length xs. ReportID (xs ! i) \<noteq> ReportID r" using assms(2) by (metis image_eqI list.set_map nth_mem)
  with assms(1) show ?thesis by (auto simp: index_ok_def nth_append less_Suc_eq)
qed

lemma report_index_extends:
  "index_ok xs idx \<Longrightarrow> distinct (map ReportID (xs @ rs)) \<Longrightarrow> index_ok (xs @ rs) (report_index (length xs) rs idx)"
proof (induction rs arbitrary: xs idx)
  case Nil
  then show ?case by simp
next
  case (Cons r rs)
  have "index_ok (xs @ [r]) (idx(ReportID r \<mapsto> length xs))"
    using Cons.prems by (intro index_ok_snoc) auto
  from Cons.IH [OF this] Cons.prems(2) show ?case by (simp add: fun_upd_def)
qed

lemma report_index_ok: "distinct (map ReportID rs) \<Longrightarrow> index_ok rs (report_index 0 rs Map.empty)"
  using report_index_extends [of "[]" Map.empty rs] by (simp add: index_ok_def)

lemma upsert_at:
  assumes "distinct (map ReportID xs)" "index_ok xs idx" "idx (ReportID r) = Some i"
  shows "upsert xs r = xs[i := r]" and "index_ok (xs[i := r]) idx"
proof -
  have i: "i < length xs" "ReportID (xs ! i) = ReportID r" using assms(2,3) by (auto simp: index_ok_def)
  have only: "ReportID (xs ! j) = ReportID r \<Longrightarrow> j = i" if "j < length xs" for j
    using assms(2,3) that unfolding index_ok_def by (metis option.inject)
  have "ReportID r \<in> set (map ReportID xs)" using i by (metis length_map nth_map nth_mem)
  then have "upsert xs r = map (\<lambda>x. if ReportID x = ReportID r then r else x) xs" by (simp add: upsert_def)
  also have "\<dots> = xs[i := r]"
  proof (rule nth_equalityI)
    fix j assume "j < length (map (\<lambda>x. if ReportID x = ReportID r then r else x) xs)"
    then have j: "j < length xs" by simp
    show "map (\<lambda>x. if ReportID x = ReportID r then r else x) xs ! j = xs[i := r] ! j"
    proof (cases "j = i")
      case True
      with i show ?thesis by simp
    next
      case False
      with only [OF j] have "ReportID (xs ! j) \<noteq> ReportID r" by blast
      with False j show ?thesis by simp
    qed
  qed simp
  finally show "upsert xs r = xs[i := r]" .
  show "index_ok (xs[i := r]) idx"
    using assms(2) i by (auto simp: index_ok_def nth_list_update)
qed

lemma upsert_new:
  assumes "index_ok xs idx" "idx (ReportID r) = None"
  shows "upsert xs r = xs @ [r]" and "index_ok (xs @ [r]) (idx(ReportID r \<mapsto> length xs))"
  using assms index_ok_snoc [OF assms(1)] by (auto simp: upsert_def index_ok_absent [OF assms(1)])

lemma upsert_loop_fold:
  "distinct (map ReportID xs) \<Longrightarrow> index_ok xs idx \<Longrightarrow>
   upsert_loop xs idx inputs = foldl upsert xs (map input_Report inputs)"
proof (induction inputs arbitrary: xs idx)
  case Nil
  then show ?case by simp
next
  case (Cons input inputs)
  have d: "distinct (map ReportID (upsert xs (input_Report input)))"
    using reports.keys [OF Cons.prems(1)] by blast
  show ?case
  proof (cases "idx (ReportID (input_Report input))")
    case None
    with Cons.IH [OF d] upsert_new [OF Cons.prems(2) None] show ?thesis by simp
  next
    case (Some i)
    with Cons.IH [OF d] upsert_at [OF Cons.prems Some] show ?thesis by simp
  qed
qed

section \<open>The data file under every schedule\<close>

text \<open>What the operations read: the file, or an empty data file where there is none.\<close>

definition data_of :: "fileStore \<Rightarrow> store_view \<Rightarrow> internalDataFile option" where
  "data_of s V = (case V (dataPath s) of
       None \<Rightarrow> if v_absent_errno V (dataPath s) = ENOENT then Some emptyDataFile else None
     | Some (Reg m (CData df)) \<Rightarrow> if df_Version df = DataFileVersion then Some df else None
     | _ \<Rightarrow> None)"

lemma vwp_loadDataFile [vc]:
  assumes "clean (dataPath s)" "\<And>df. data_of s V = Some df \<Longrightarrow> Q df V" "\<And>e. \<not> (calm \<and> data_of s V \<noteq> None) \<Longrightarrow> E e V" "\<not> calm \<Longrightarrow> C V"
  shows "vwp calm (loadDataFile s) Q E C V"
  unfolding loadDataFile_def
  apply (rule vc)+
      apply (rule assms(1))
  subgoal for m c using assms(2,3) by (cases c) (auto intro!: vc simp: data_of_def)
  subgoal using assms(3) by (auto intro!: vc simp: data_of_def is_not_exist_def)
  subgoal using assms(2,3) by (auto intro!: vc simp: data_of_def is_not_exist_def)
  subgoal using assms(3,4) by (auto intro!: vc simp: is_not_exist_def)
  done

lemma vwp_saveDataFile [vc]:
  assumes "clean (dataPath s)" "writable (dataPath s) V \<Longrightarrow> Q () (V(dataPath s \<mapsto> Reg 384 (CData df)))"
    "\<And>e. \<not> (calm \<and> writable (dataPath s) V) \<Longrightarrow> E e V"
    "\<not> calm \<Longrightarrow> C V" "\<not> calm \<Longrightarrow> writable (dataPath s) V \<Longrightarrow> C (V(dataPath s \<mapsto> Reg 384 (CData df)))"
  shows "vwp calm (saveDataFile s df) Q E C V"
  unfolding saveDataFile_def by (rule vc)+ (use assms in auto)

lemma data_of_saved [simp]: "data_of s (V(dataPath s \<mapsto> Reg m (CData df))) = (if df_Version df = DataFileVersion then Some df else None)"
  by (simp add: data_of_def)

lemma foldl_upsert_ids: "prefix (map ReportID xs) (map ReportID (foldl upsert xs rs))"
proof (induction rs arbitrary: xs)
  case Nil
  then show ?case by simp
next
  case (Cons r rs)
  have "prefix (map ReportID xs) (map ReportID (upsert xs r))" by (simp add: upsert_ids)
  with Cons.IH [of "upsert xs r"] show ?case by (auto intro: prefix_order.trans)
qed

definition save_reports :: "internalDataFile \<Rightarrow> ReportInput list \<Rightarrow> internalDataFile" where
  "save_reports df inputs = df\<lparr>df_Reports := foldl upsert (df_Reports df) (map input_Report inputs)\<rparr>"

definition reports_ok :: "internalDataFile \<Rightarrow> bool" where
  "reports_ok df \<longleftrightarrow> distinct (map ReportID (df_Reports df))"

definition report_table :: "internalDataFile \<Rightarrow> (gotext \<rightharpoonup> Report)" where
  "report_table df = map_of (map (\<lambda>r. (ReportID r, r)) (df_Reports df))"

definition put_data :: "fileStore \<Rightarrow> internalDataFile \<Rightarrow> store_view \<Rightarrow> store_view" where
  "put_data s df V = V(dataPath s \<mapsto> Reg 384 (CData df))"

lemma vwp_SaveReports:
  assumes "clean (dataPath s)" "\<not> readOnly s" "data_of s V = Some df" "reports_ok df"
  shows "vwp calm (SaveReports s inputs) (\<lambda>_ V'. V' = put_data s (save_reports df inputs) V)
    (\<lambda>e V'. V' = V \<and> \<not> (calm \<and> writable (dataPath s) V))
    (\<lambda>V'. \<not> calm \<and> (V' = V \<or> V' = put_data s (save_reports df inputs) V)) V"
proof -
  have "upsert_loop (df_Reports df) (report_index 0 (df_Reports df) Map.empty) inputs = foldl upsert (df_Reports df) (map input_Report inputs)"
    using assms(4) report_index_ok upsert_loop_fold by (simp add: reports_ok_def)
  with assms show ?thesis
    unfolding SaveReports_def save_reports_def put_data_def by (auto intro!: vc)
qed

interpretation saving: crash_atomic "\<lambda>(s, inputs). SaveReports s inputs"
  "\<lambda>(s, inputs) V. clean (dataPath s) \<and> \<not> readOnly s \<and> (\<exists>df. data_of s V = Some df \<and> reports_ok df)"
  "\<lambda>(s, inputs). writable (dataPath s)" "\<lambda>(s, inputs) V. put_data s (save_reports (the (data_of s V)) inputs) V" "\<lambda>_ _. ()"
  by unfold_locales (auto intro!: vwp_conseq [OF vwp_SaveReports])

lemma save_reports_refines:
  assumes "reports_ok df"
  shows "reports_ok (save_reports df inputs)"
    "report_table (save_reports df inputs) = report_table df ++ map_of (map (\<lambda>i. (ReportID (input_Report i), input_Report i)) (rev inputs))"
    "prefix (map ReportID (df_Reports df)) (map ReportID (df_Reports (save_reports df inputs)))"
    "df_Emails (save_reports df inputs) = df_Emails df" "df_Version (save_reports df inputs) = df_Version df"
    "report_table (save_reports (save_reports df inputs) inputs) = report_table (save_reports df inputs)"
  using assms reports.fold_keys [of "df_Reports df"] reports.fold_table [of "df_Reports df"] reports.fold_idem [of "df_Reports df"]
  by (auto simp: reports_ok_def save_reports_def report_table_def foldl_upsert_ids rev_map comp_def)

text \<open>
  C6. Saving a batch of reports is one atomic update of the report table: under every schedule of
  faults and crashes the data file is the old one or the complete new one, success means new and an
  error means old. In the new file report ids stay unique, each report of the batch replaces the
  entry with its id (the last one of the batch wins) and every other entry stays, existing entries
  keep their positions, and the email index is untouched.
\<close>

theorem SaveReports_atomic_upsert:
  assumes "clean (dataPath s)" "\<not> readOnly s" "data_of s (view w) = Some df" "reports_ok df"
    "SaveReports s inputs w = (r, w')"
  shows "(case r of Ok _ \<Rightarrow> view w' = put_data s (save_reports df inputs) (view w)
      | Err e \<Rightarrow> view w' = view w
      | Crashed \<Rightarrow> view w' = view w \<or> view w' = put_data s (save_reports df inputs) (view w))
    \<and> reports_ok (save_reports df inputs)
    \<and> report_table (save_reports df inputs) k =
      (case find (\<lambda>i. ReportID (input_Report i) = k) (rev inputs) of Some i \<Rightarrow> Some (input_Report i) | None \<Rightarrow> report_table df k)
    \<and> prefix (map ReportID (df_Reports df)) (map ReportID (df_Reports (save_reports df inputs)))
    \<and> df_Emails (save_reports df inputs) = df_Emails df"
proof (intro conjI)
  have "map_of (map (\<lambda>i. (ReportID (input_Report i), input_Report i)) is) k =
      map_option input_Report (find (\<lambda>i. ReportID (input_Report i) = k) is)" for "is"
    by (induction "is") auto
  from this [of "rev inputs"]
  show "report_table (save_reports df inputs) k =
      (case find (\<lambda>i. ReportID (input_Report i) = k) (rev inputs) of Some i \<Rightarrow> Some (input_Report i) | None \<Rightarrow> report_table df k)"
    using save_reports_refines(2) [OF assms(4), of inputs] by (simp add: map_add_def split: option.split)
qed (use saving.outcomes [of "(s, inputs)" w r w'] assms save_reports_refines [OF assms(4), of inputs]
    in \<open>auto split: outcome.splits\<close>)

text \<open>A store with two reports, used in examples.\<close>

definition sample_report :: "nat \<Rightarrow> gotime \<Rightarrow> Report" where
  "sample_report k t = \<lparr>OrganizationName = [65], ReportID = [k], dateRange = \<lparr>StartDatetime = 1, EndDatetime = t\<rparr>, Policies = Some []\<rparr>"

definition sample_store :: fileStore where
  "sample_store = \<lparr>rootDir = [''s''], identity = \<lparr>identity_Host = ''imap.example.org'', identity_Port = 993, identity_Mailbox = ''INBOX''\<rparr>,
     mode = OpenReadWrite, readOnly = False, dataPath = [''s'', ''tlsrpt.json''], emailsDirPath = [''s'', ''emails'']\<rparr>"

definition sample_data :: internalDataFile where
  "sample_data = \<lparr>df_Version = 1, df_Reports = [sample_report 1 50, sample_report 2 90], df_Emails = []\<rparr>"

definition sample_world :: "content world" where
  "sample_world = \<lparr>fs = [([], Dir 493), ([''s''], Dir 448), ([''s'', ''tlsrpt.json''], Reg 384 (CData sample_data))], sched = [], clock = 100\<rparr>"

lemmas sample_defs = sample_report_def sample_store_def sample_data_def sample_world_def

lemma sample_facts:
  "clean (dataPath sample_store)" "\<not> readOnly sample_store" "data_of sample_store (view sample_world) = Some sample_data"
  "reports_ok sample_data" "df_Version sample_data = DataFileVersion"
  by (simp_all add: sample_defs data_of_def visible_def reports_ok_def DataFileVersion_def)

theorem SaveReports_atomic_upsert_witness:
  "\<exists>w'. SaveReports sample_store [\<lparr>input_Report = sample_report 2 95, input_UID = 1, input_UIDValidity = 1\<rparr>] sample_world = (Ok (), w')
     \<and> view w' = put_data sample_store (save_reports sample_data [\<lparr>input_Report = sample_report 2 95, input_UID = 1, input_UIDValidity = 1\<rparr>]) (view sample_world)
     \<and> report_table (save_reports sample_data [\<lparr>input_Report = sample_report 2 95, input_UID = 1, input_UIDValidity = 1\<rparr>]) [2] = Some (sample_report 2 95)"
proof -
  let ?i = "[\<lparr>input_Report = sample_report 2 95, input_UID = 1, input_UIDValidity = 1\<rparr>]"
  have ok: "fst (SaveReports sample_store ?i sample_world) = Ok ()" by code_simp
  then obtain w' where run: "SaveReports sample_store ?i sample_world = (Ok (), w')" by (metis prod.collapse)
  from SaveReports_atomic_upsert [OF sample_facts(1-4) run, of "[2]"] run show ?thesis
    by (simp add: sample_report_def)
qed

section \<open>Retention\<close>

definition delete_reports :: "gotime \<Rightarrow> internalDataFile \<Rightarrow> internalDataFile" where
  "delete_reports cutoff df = df\<lparr>df_Reports := filter (\<lambda>r. \<not> ended_before cutoff r) (df_Reports df)\<rparr>"

definition expired_reports :: "gotime \<Rightarrow> internalDataFile \<Rightarrow> int" where
  "expired_reports cutoff df = int (length (filter (ended_before cutoff) (df_Reports df)))"

definition after_delete :: "fileStore \<Rightarrow> gotime \<Rightarrow> internalDataFile \<Rightarrow> store_view \<Rightarrow> store_view" where
  "after_delete s cutoff df V = (if expired_reports cutoff df = 0 then V else put_data s (delete_reports cutoff df) V)"

lemma vwp_DeleteReportsBefore:
  assumes "clean (dataPath s)" "\<not> readOnly s" "data_of s V = Some df"
  shows "vwp calm (DeleteReportsBefore s cutoff) (\<lambda>n V'. V' = after_delete s cutoff df V \<and> n = expired_reports cutoff df)
    (\<lambda>e V'. V' = V \<and> \<not> (calm \<and> writable (dataPath s) V)) (\<lambda>V'. \<not> calm \<and> (V' = V \<or> V' = after_delete s cutoff df V)) V"
  using assms unfolding DeleteReportsBefore_def after_delete_def put_data_def delete_reports_def expired_reports_def
  by (auto intro!: vc simp: delete_reports_loop)

interpretation deleting: crash_atomic "\<lambda>(s, cutoff). DeleteReportsBefore s cutoff"
  "\<lambda>(s, cutoff) V. clean (dataPath s) \<and> \<not> readOnly s \<and> data_of s V \<noteq> None"
  "\<lambda>(s, cutoff). writable (dataPath s)" "\<lambda>(s, cutoff) V. after_delete s cutoff (the (data_of s V)) V"
  "\<lambda>(s, cutoff) V. expired_reports cutoff (the (data_of s V))"
  by unfold_locales (auto intro!: vwp_conseq [OF vwp_DeleteReportsBefore])

lemma vwp_CountReportsBefore:
  assumes "clean (dataPath s)" "data_of s V = Some df"
  shows "vwp calm (CountReportsBefore s cutoff) (\<lambda>n V'. V' = V \<and> n = expired_reports cutoff df) (\<lambda>e V'. V' = V \<and> \<not> calm) (\<lambda>V'. V' = V \<and> \<not> calm) V"
  using assms unfolding CountReportsBefore_def expired_reports_def by (auto intro!: vc simp: count_reports_loop)

lemma delete_reports_again: "expired_reports cutoff (delete_reports cutoff df) = 0"
  by (simp add: expired_reports_def delete_reports_def filter_empty_conv)

text \<open>
  Deleting expired reports: what a completed deletion reports is the number a count of the same
  files announces; afterwards exactly the reports whose range ends at or after the cutoff remain, in
  order, with the email index unchanged; and repeating it deletes nothing and writes nothing.
\<close>

theorem DeleteReportsBefore_correct:
  assumes "clean (dataPath s)" "\<not> readOnly s" "data_of s (view w) = Some df" "df_Version df = DataFileVersion"
    "DeleteReportsBefore s cutoff w = (Ok n, w')"
  shows "(CountReportsBefore s cutoff v = (Ok m, v') \<and> view v = view w \<longrightarrow> m = n)
    \<and> data_of s (view w') = Some (df\<lparr>df_Reports := filter (\<lambda>r. cutoff \<le> EndDatetime (dateRange r)) (df_Reports df)\<rparr>)
    \<and> (DeleteReportsBefore s cutoff w' = (r, w'') \<longrightarrow> view w'' = view w' \<and> (\<forall>k. r = Ok k \<longrightarrow> k = 0))"
proof (intro conjI)
  have n: "n = expired_reports cutoff df" and V: "view w' = after_delete s cutoff df (view w)"
    using deleting.outcomes [of "(s, cutoff)" w "Ok n" w'] assms by auto
  have none: "expired_reports cutoff df = 0 \<Longrightarrow> delete_reports cutoff df = df"
    by (auto simp: expired_reports_def delete_reports_def filter_id_conv filter_empty_conv)
  have new: "data_of s (view w') = Some (delete_reports cutoff df)"
    using assms(3,4) V none by (auto simp: after_delete_def put_data_def) (simp add: delete_reports_def)
  then show "data_of s (view w') = Some (df\<lparr>df_Reports := filter (\<lambda>r. cutoff \<le> EndDatetime (dateRange r)) (df_Reports df)\<rparr>)"
    by (simp add: delete_reports_def ended_before_def not_less)
  show "CountReportsBefore s cutoff v = (Ok m, v') \<and> view v = view w \<longrightarrow> m = n"
    using vwp_cases [OF vwp_CountReportsBefore [OF assms(1), where calm = False], of v df cutoff "Ok m" v'] assms(3) n
    by (auto simp: quiet_def)
  show "DeleteReportsBefore s cutoff w' = (r, w'') \<longrightarrow> view w'' = view w' \<and> (\<forall>k. r = Ok k \<longrightarrow> k = 0)"
    using deleting.outcomes [of "(s, cutoff)" w' r w''] deleting.all_or_nothing [of "(s, cutoff)" w' r w''] new assms(1,2)
    by (auto simp: after_delete_def delete_reports_again split: outcome.splits)
qed

theorem DeleteReportsBefore_correct_witness:
  "\<exists>w'. DeleteReportsBefore sample_store 60 sample_world = (Ok 1, w')
     \<and> data_of sample_store (view w') = Some (sample_data\<lparr>df_Reports := [sample_report 2 90]\<rparr>)"
proof -
  have "fst (DeleteReportsBefore sample_store 60 sample_world) = Ok 1" by code_simp
  then obtain w' where run: "DeleteReportsBefore sample_store 60 sample_world = (Ok 1, w')" by (metis prod.collapse)
  from DeleteReportsBefore_correct [OF sample_facts(1-3,5) run] run show ?thesis
    by (simp add: sample_data_def sample_report_def)
qed

end
