(* ===== verification/Store_Recovery.thy ===== *)
theory Store_Recovery
  imports Store_Reports
begin

text \<open>
  \<^verbatim>\<open>internal/store/recovery.go\<close>: the UIDVALIDITY and recovery state in the sentinel, the guard file, and
  the crash-safe discard-old reset driven by the manifest (phase 1: manifest written, phase 4: committed).
  \<^verbatim>\<open>(v, found)\<close> results are options. Taking a lock is a call that may fail; what the lock excludes is
  not modelled here.
\<close>

section \<open>Manifest\<close>

definition resetPhaseManifestWritten :: int where
  "resetPhaseManifestWritten = 1"

definition resetPhaseCommitted :: int where
  "resetPhaseCommitted = 4"

definition resetManifestVersion :: int where
  "resetManifestVersion = 1"

definition validateManifestPhase :: "int \<Rightarrow> go_error option" where
  "validateManifestPhase p =
     (if p \<noteq> resetPhaseManifestWritten \<and> p \<noteq> resetPhaseCommitted then Some (ErrResetManifestPhaseUnknown p) else None)"

definition writeResetManifest :: "path \<Rightarrow> resetManifest \<Rightarrow> unit store_io" where
  "writeResetManifest path m =
     bindIO (wrapErr ''writeResetManifest: marshal'' (marshal (CManifest m))) (\<lambda>data. atomicWriteFile path data)"

definition readResetManifest :: "path \<Rightarrow> resetManifest store_io" where
  "readResetManifest path =
     bindIO (wrapErr ''readResetManifest: read'' (readFile path)) (\<lambda>data.
     case data of
       CManifest m \<Rightarrow> ret m
     | _ \<Rightarrow> fail (Wrap ''readResetManifest: unmarshal'' ErrUnmarshal))"

text \<open>\<^verbatim>\<open>os.Remove\<close> where a missing file is not an error.\<close>

definition removeIfExists :: "string \<Rightarrow> path \<Rightarrow> unit store_io" where
  "removeIfExists context path =
     bindIO (attempt (remove path)) (\<lambda>r. case r of
       Inr _ \<Rightarrow> ret ()
     | Inl err \<Rightarrow> if is_not_exist err then ret () else fail (Wrap context err))"

definition removeStaleCommittedManifest :: "path \<Rightarrow> path \<Rightarrow> unit store_io" where
  "removeStaleCommittedManifest stagingPath manifestPath =
     bindIO (wrapErr ''ResetForRecovery: clean stale staging'' (removeAll stagingPath)) (\<lambda>_.
     removeIfExists ''ResetForRecovery: remove stale committed manifest'' manifestPath)"

section \<open>Leftovers of a committed reset\<close>

definition removeLeftovers :: "path \<Rightarrow> unit store_io" where
  "removeLeftovers root =
     bindIO (bestEffort (removeAll (resetStagingPath root))) (\<lambda>_.
     bestEffort (remove (resetManifestPath root)))"

definition cleanupOrphanedStaging :: "path \<Rightarrow> unit store_io" where
  "cleanupOrphanedStaging root =
     bindIO (attempt (stat (resetStagingPath root))) (\<lambda>r. case r of
       Inr _ \<Rightarrow> bestEffort (removeAll (resetStagingPath root))
     | Inl _ \<Rightarrow> ret ())"

definition cleanupCompletedReset :: "path \<Rightarrow> unit store_io" where
  "cleanupCompletedReset root =
     bindIO (attempt (readResetManifest (resetManifestPath root))) (\<lambda>r. case r of
       Inl err \<Rightarrow> if is_not_exist err then cleanupOrphanedStaging root
                  else fail (Wrap ''cleanupCompletedReset: read manifest'' err)
     | Inr mfst \<Rightarrow>
         if manifest_Version mfst \<noteq> resetManifestVersion
         then fail (ErrResetManifestVersionMismatch (manifest_Version mfst) resetManifestVersion)
         else (case validateManifestPhase (manifest_Phase mfst) of
           Some err \<Rightarrow> fail err
         | None \<Rightarrow>
             bindIO (wrapErr ''cleanupCompletedReset: load sentinel'' (loadSentinel root)) (\<lambda>found. case found of
               None \<Rightarrow> fail ErrPendingReset
             | Some sentinel \<Rightarrow>
                 (case RecoveryRequired sentinel of
                    Some rs \<Rightarrow> if manifest_CurrUIDValidity mfst \<noteq> CurrUIDValidity rs then removeLeftovers root
                               else fail ErrPendingReset
                  | None \<Rightarrow> removeLeftovers root))))"

section \<open>Guard file\<close>

definition withGuardExclusive :: "fileStore \<Rightarrow> 'a store_io \<Rightarrow> 'a store_io" where
  "withGuardExclusive s fn =
     bindIO (wrapErr ''withGuardExclusive: open guard file'' (openCreate (guardFilePath (rootDir s)) filePerm (CRaw []))) (\<lambda>_.
     bindIO (wrapErr ''withGuardExclusive: acquire exclusive lock'' nop) (\<lambda>_. fn))"

datatype SummaryConsistencyGuard = summaryConsistencyGuardImpl path | noopSummaryConsistencyGuard

definition CheckRecoveryRequired :: "SummaryConsistencyGuard \<Rightarrow> bool store_io" where
  "CheckRecoveryRequired g = (case g of
       noopSummaryConsistencyGuard \<Rightarrow> ret False
     | summaryConsistencyGuardImpl root \<Rightarrow>
         bindIO (wrapErr ''CheckRecoveryRequired: load sentinel'' (loadSentinel root)) (\<lambda>found. case found of
           None \<Rightarrow> ret False
         | Some sentinel \<Rightarrow> ret (RecoveryRequired sentinel \<noteq> None)))"

text \<open>Opening an existing file read-only succeeds when the path exists, as \<^verbatim>\<open>stat\<close> does.\<close>

definition AcquireSummaryConsistencyGuard :: "fileStore \<Rightarrow> SummaryConsistencyGuard store_io" where
  "AcquireSummaryConsistencyGuard s =
     bindIO (attempt (stat (rootDir s))) (\<lambda>r0.
     if (case r0 of Inl err \<Rightarrow> is_not_exist err | Inr _ \<Rightarrow> False) then ret noopSummaryConsistencyGuard
     else
       bindIO (attempt (stat (guardFilePath (rootDir s)))) (\<lambda>r.
       bindIO (case r of
           Inr _ \<Rightarrow> ret ()
         | Inl err \<Rightarrow>
             if \<not> is_not_exist err then fail (Wrap ''AcquireSummaryConsistencyGuard: open guard file'' err)
             else wrapErr ''AcquireSummaryConsistencyGuard: create guard file''
                    (openCreate (guardFilePath (rootDir s)) filePerm (CRaw []))) (\<lambda>_.
       bindIO (wrapErr ''AcquireSummaryConsistencyGuard: acquire shared lock'' nop) (\<lambda>_.
       ret (summaryConsistencyGuardImpl (rootDir s))))))"

section \<open>Staging\<close>

definition stageDataFile :: "path \<Rightarrow> path \<Rightarrow> unit store_io" where
  "stageDataFile root stagingPath =
     bindIO (attempt (stat (dataFilePath root))) (\<lambda>r. case r of
       Inr _ \<Rightarrow> wrapErr ''stageDataFile: move data file'' (rename (dataFilePath root) (stagingPath @ [''tlsrpt.json'']))
     | Inl err \<Rightarrow> if is_not_exist err then ret () else fail (Wrap ''stageDataFile: stat data file'' err))"

definition stageEmailsDir :: "path \<Rightarrow> path \<Rightarrow> unit store_io" where
  "stageEmailsDir root stagingPath =
     bindIO (attempt (stat (emailsPath root))) (\<lambda>r. case r of
       Inr _ \<Rightarrow> wrapErr ''stageEmailsDir: move emails dir'' (rename (emailsPath root) (stagingPath @ [''emails'']))
     | Inl err \<Rightarrow> if is_not_exist err then ret () else fail (Wrap ''stageEmailsDir: stat emails dir'' err))"

section \<open>UIDVALIDITY and recovery state\<close>

definition loadOrInitSentinelForWrite :: "fileStore \<Rightarrow> internalSentinelFile store_io" where
  "loadOrInitSentinelForWrite s =
     bindIO (loadSentinel (rootDir s)) (\<lambda>found. case found of
       Some sentinel \<Rightarrow> ret sentinel
     | None \<Rightarrow>
         bindIO getNow (\<lambda>now.
         ret \<lparr>FormatVersion = SentinelFormatVersion, IMAPHost = identity_Host (identity s),
              IMAPPort = identity_Port (identity s), IMAPMailbox = identity_Mailbox (identity s),
              InitializedAt = now, UIDValidity = None, RecoveryRequired = None\<rparr>))"

definition SaveUIDValidity :: "fileStore \<Rightarrow> u32 \<Rightarrow> unit store_io" where
  "SaveUIDValidity s v =
     (if readOnly s then fail ErrReadOnly
      else
        bindIO (wrapErr ''SaveUIDValidity: load sentinel'' (loadOrInitSentinelForWrite s)) (\<lambda>sentinel.
        wrapErr ''SaveUIDValidity: save sentinel'' (saveSentinel (rootDir s) (sentinel\<lparr>UIDValidity := Some v\<rparr>))))"

definition LoadUIDValidity :: "fileStore \<Rightarrow> u32 option store_io" where
  "LoadUIDValidity s =
     bindIO (wrapErr ''LoadUIDValidity: load sentinel'' (loadSentinel (rootDir s))) (\<lambda>found.
     ret (case found of None \<Rightarrow> None | Some sentinel \<Rightarrow> UIDValidity sentinel))"

definition SaveRecoveryRequired :: "fileStore \<Rightarrow> u32 \<Rightarrow> u32 \<Rightarrow> gotime \<Rightarrow> unit store_io" where
  "SaveRecoveryRequired s prevV currV detectedAt =
     (if readOnly s then fail ErrReadOnly
      else withGuardExclusive s (
        bindIO (wrapErr ''SaveRecoveryRequired: load sentinel'' (loadOrInitSentinelForWrite s)) (\<lambda>sentinel.
        wrapErr ''SaveRecoveryRequired: save sentinel'' (saveSentinel (rootDir s)
          (sentinel\<lparr>RecoveryRequired := Some \<lparr>PrevUIDValidity = prevV, CurrUIDValidity = currV, DetectedAt = detectedAt\<rparr>\<rparr>)))))"

definition LoadRecoveryRequired :: "fileStore \<Rightarrow> (u32 \<times> u32 \<times> gotime) option store_io" where
  "LoadRecoveryRequired s =
     bindIO (wrapErr ''LoadRecoveryRequired: load sentinel'' (loadSentinel (rootDir s))) (\<lambda>found.
     ret (case found of None \<Rightarrow> None
          | Some sentinel \<Rightarrow> map_option (\<lambda>rs. (PrevUIDValidity rs, CurrUIDValidity rs, DetectedAt rs)) (RecoveryRequired sentinel)))"

definition ClearRecoveryRequired :: "fileStore \<Rightarrow> unit store_io" where
  "ClearRecoveryRequired s =
     (if readOnly s then fail ErrReadOnly
      else withGuardExclusive s (
        bindIO (wrapErr ''ClearRecoveryRequired: load sentinel'' (loadSentinel (rootDir s))) (\<lambda>found. case found of
          None \<Rightarrow> ret ()
        | Some sentinel \<Rightarrow>
            wrapErr ''ClearRecoveryRequired: save sentinel'' (saveSentinel (rootDir s) (sentinel\<lparr>RecoveryRequired := None\<rparr>)))))"

definition HasPendingReset :: "fileStore \<Rightarrow> bool store_io" where
  "HasPendingReset s =
     bindIO (attempt (readResetManifest (resetManifestPath (rootDir s)))) (\<lambda>r. case r of
       Inl err \<Rightarrow> if is_not_exist err then ret False else fail (Wrap ''HasPendingReset'' err)
     | Inr mfst \<Rightarrow>
         if manifest_Version mfst \<noteq> resetManifestVersion
         then fail (ErrResetManifestVersionMismatch (manifest_Version mfst) resetManifestVersion)
         else (case validateManifestPhase (manifest_Phase mfst) of
           Some err \<Rightarrow> fail err
         | None \<Rightarrow> ret (manifest_Phase mfst \<noteq> resetPhaseCommitted)))"

definition ApplyRecovery :: "fileStore \<Rightarrow> u32 \<Rightarrow> unit store_io" where
  "ApplyRecovery s newUIDValidity =
     (if readOnly s then fail ErrReadOnly
      else
        bindIO (wrapErr ''ApplyRecovery: check pending reset'' (HasPendingReset s)) (\<lambda>pending.
        if pending then fail ErrPendingReset
        else withGuardExclusive s (
          bindIO (wrapErr ''ApplyRecovery: load sentinel'' (loadOrInitSentinelForWrite s)) (\<lambda>sentinel.
          wrapErr ''ApplyRecovery: save sentinel'' (saveSentinel (rootDir s)
            (sentinel\<lparr>UIDValidity := Some newUIDValidity, RecoveryRequired := None\<rparr>))))))"

section \<open>Discard-old reset\<close>

definition commitReset :: "fileStore \<Rightarrow> path \<Rightarrow> u32 \<Rightarrow> unit store_io" where
  "commitReset s manifestPath currUIDValidity =
     withGuardExclusive s (
       bindIO (wrapErr ''commitReset: load sentinel'' (loadOrInitSentinelForWrite s)) (\<lambda>sentinel.
       bindIO (wrapErr ''commitReset: save sentinel'' (saveSentinel (rootDir s)
         (sentinel\<lparr>UIDValidity := Some currUIDValidity, RecoveryRequired := None\<rparr>))) (\<lambda>_.
       writeResetManifest manifestPath \<lparr>manifest_Version = resetManifestVersion,
         manifest_CurrUIDValidity = currUIDValidity, manifest_Phase = resetPhaseCommitted\<rparr>)))"

definition advanceResetPhases :: "fileStore \<Rightarrow> u32 \<Rightarrow> path \<Rightarrow> path \<Rightarrow> unit store_io" where
  "advanceResetPhases s currUIDValidity stagingPath manifestPath =
     bindIO (wrapErr ''advanceResetPhases: ensure staging dir'' (mkdirAll stagingPath dirPerm)) (\<lambda>_.
     bindIO (wrapErr ''advanceResetPhases: stage data file'' (stageDataFile (rootDir s) stagingPath)) (\<lambda>_.
     bindIO (wrapErr ''advanceResetPhases: stage emails dir'' (stageEmailsDir (rootDir s) stagingPath)) (\<lambda>_.
     wrapErr ''advanceResetPhases: commit'' (commitReset s manifestPath currUIDValidity))))"

definition executeResetFromManifest :: "fileStore \<Rightarrow> resetManifest \<Rightarrow> path \<Rightarrow> path \<Rightarrow> unit store_io" where
  "executeResetFromManifest s mfst stagingPath manifestPath =
     bindIO (advanceResetPhases s (manifest_CurrUIDValidity mfst) stagingPath manifestPath) (\<lambda>_.
     bindIO (bestEffort (removeAll stagingPath)) (\<lambda>_.
     removeIfExists ''ResetForRecovery: remove manifest'' manifestPath))"

definition initResetManifest :: "fileStore \<Rightarrow> u32 \<Rightarrow> path \<Rightarrow> path \<Rightarrow> resetManifest store_io" where
  "initResetManifest s currUIDValidity stagingPath manifestPath =
     bindIO (wrapErr ''ResetForRecovery: load recovery-required'' (LoadRecoveryRequired s)) (\<lambda>found. case found of
       None \<Rightarrow> fail ErrRecoveryRequiredMissing
     | Some (_, sentinelCurr, _) \<Rightarrow>
         if sentinelCurr \<noteq> currUIDValidity then fail (ErrRecoveryUIDValidityMismatch currUIDValidity sentinelCurr)
         else
           bindIO (wrapErr ''ResetForRecovery: clean stale staging dir'' (removeAll stagingPath)) (\<lambda>_.
           bindIO (wrapErr ''ResetForRecovery: create staging dir'' (mkdirAll stagingPath dirPerm)) (\<lambda>_.
           let mfst = \<lparr>manifest_Version = resetManifestVersion, manifest_CurrUIDValidity = currUIDValidity,
                       manifest_Phase = resetPhaseManifestWritten\<rparr>
           in bindIO (wrapErr ''ResetForRecovery: write manifest'' (writeResetManifest manifestPath mfst)) (\<lambda>_. ret mfst))))"

definition resumeOrCleanupCommitted :: "fileStore \<Rightarrow> u32 \<Rightarrow> path \<Rightarrow> path \<Rightarrow> unit store_io" where
  "resumeOrCleanupCommitted s currUIDValidity stagingPath manifestPath =
     bindIO (removeStaleCommittedManifest stagingPath manifestPath) (\<lambda>_.
     bindIO (wrapErr ''ResetForRecovery: reload recovery-required after committed cleanup'' (LoadRecoveryRequired s)) (\<lambda>found.
     case found of
       None \<Rightarrow> ret ()
     | Some _ \<Rightarrow>
         bindIO (initResetManifest s currUIDValidity stagingPath manifestPath) (\<lambda>mfst.
         executeResetFromManifest s mfst stagingPath manifestPath)))"

text \<open>The part of \<^verbatim>\<open>ResetForRecovery\<close> that starts from no manifest.\<close>

definition startReset :: "fileStore \<Rightarrow> u32 \<Rightarrow> path \<Rightarrow> path \<Rightarrow> unit store_io" where
  "startReset s currUIDValidity stagingPath manifestPath =
     bindIO (initResetManifest s currUIDValidity stagingPath manifestPath) (\<lambda>mfst.
     executeResetFromManifest s mfst stagingPath manifestPath)"

definition ResetForRecovery :: "fileStore \<Rightarrow> u32 \<Rightarrow> unit store_io" where
  "ResetForRecovery s currUIDValidity =
     (if mode s \<noteq> OpenRecoverReset then fail ErrInvalidStoreMode
      else
        let manifestPath = resetManifestPath (rootDir s); stagingPath = resetStagingPath (rootDir s) in
        bindIO (attempt (readResetManifest manifestPath)) (\<lambda>r. case r of
          Inl manifestErr \<Rightarrow>
            if \<not> is_not_exist manifestErr then fail (Wrap ''ResetForRecovery: read manifest'' manifestErr)
            else startReset s currUIDValidity stagingPath manifestPath
        | Inr mfst \<Rightarrow>
            if manifest_Version mfst \<noteq> resetManifestVersion
            then fail (ErrResetManifestVersionMismatch (manifest_Version mfst) resetManifestVersion)
            else (case validateManifestPhase (manifest_Phase mfst) of
              Some err \<Rightarrow> fail err
            | None \<Rightarrow>
                if manifest_Phase mfst = resetPhaseCommitted
                then resumeOrCleanupCommitted s currUIDValidity stagingPath manifestPath
                else if manifest_Phase mfst < resetPhaseCommitted \<and> currUIDValidity \<noteq> 0
                        \<and> manifest_CurrUIDValidity mfst \<noteq> currUIDValidity
                then bindIO (removeStaleCommittedManifest stagingPath manifestPath) (\<lambda>_.
                       startReset s currUIDValidity stagingPath manifestPath)
                else executeResetFromManifest s mfst stagingPath manifestPath)))"

section \<open>Verification conditions of the building blocks\<close>

lemma vwp_readResetManifest [vc]:
  assumes "clean p" "\<And>m x. V p = Some (Reg m (CManifest x)) \<Longrightarrow> Q x V"
    "V p = None \<Longrightarrow> v_absent_errno V p = ENOENT \<Longrightarrow> E (Wrap ''readResetManifest: read'' (OsError ENOENT)) V"
    "\<And>e. \<not> calm \<or> V p \<noteq> None \<and> (\<forall>m x. V p \<noteq> Some (Reg m (CManifest x))) \<or> V p = None \<and> v_absent_errno V p \<noteq> ENOENT \<Longrightarrow>
      \<not> is_not_exist e \<Longrightarrow> E e V"
    "\<not> calm \<Longrightarrow> C V"
  shows "vwp calm (readResetManifest p) Q E C V"
  unfolding readResetManifest_def
  apply (rule vc)+
      apply (rule assms(1))
  subgoal for m c using assms(2,4) by (cases c) (auto intro!: vc simp: is_not_exist_def)
  subgoal using assms(4) by (auto simp: is_not_exist_def)
  subgoal using assms(3,4) by (cases "v_absent_errno V p = ENOENT") (auto simp: is_not_exist_def)
  subgoal using assms(4,5) by (auto simp: is_not_exist_def)
  done

lemma vwp_writeResetManifest [vc]:
  assumes "clean p" "writable p V \<Longrightarrow> Q () (V(p \<mapsto> Reg 384 (CManifest x)))"
    "\<And>e. \<not> (calm \<and> writable p V) \<Longrightarrow> E e V"
    "\<not> calm \<Longrightarrow> C V" "\<not> calm \<Longrightarrow> writable p V \<Longrightarrow> C (V(p \<mapsto> Reg 384 (CManifest x)))"
  shows "vwp calm (writeResetManifest p x) Q E C V"
  unfolding writeResetManifest_def by (rule vc)+ (use assms in auto)

lemma vwp_removeIfExists [vc]:
  assumes "clean p" "\<And>m c. V p = Some (Reg m c) \<Longrightarrow> Q () (V(p := None))"
    "\<And>m. V p = Some (Dir m) \<Longrightarrow> Q () (V(p := None)) \<and> (\<forall>e. E e V)"
    "V p = None \<Longrightarrow> v_absent_errno V p = ENOENT \<Longrightarrow> Q () V"
    "\<And>e. \<not> calm \<or> V p = None \<and> v_absent_errno V p \<noteq> ENOENT \<Longrightarrow> E e V" "\<not> calm \<Longrightarrow> C V"
  shows "vwp calm (removeIfExists ctx p) Q E C V"
  unfolding removeIfExists_def
  apply (rule vc)+
       apply (rule assms(1))
  subgoal using assms(2) by (auto intro!: vc)
  subgoal using assms(3) by (auto intro!: vc)
  subgoal using assms(3) by (auto intro!: vc simp: is_not_exist_def)
  subgoal using assms(4,5) by (auto intro!: vc simp: is_not_exist_def)
  subgoal using assms(5,6) by (auto intro!: vc simp: is_not_exist_def)
  done

lemma vwp_withGuardExclusive [vc]:
  assumes "clean (rootDir s)"
    "\<And>m c. V (guardFilePath (rootDir s)) = Some (Reg m c) \<Longrightarrow> vwp calm fn Q E C V"
    "\<And>m. V (guardFilePath (rootDir s)) = None \<Longrightarrow> V (rootDir s) = Some (Dir m) \<Longrightarrow>
       vwp calm fn Q E C (V(guardFilePath (rootDir s) \<mapsto> Reg 384 (CRaw [])))
       \<and> (\<not> calm \<longrightarrow> C (V(guardFilePath (rootDir s) \<mapsto> Reg 384 (CRaw []))) \<and>
           (\<forall>e. E e (V(guardFilePath (rootDir s) \<mapsto> Reg 384 (CRaw [])))))"
    "\<And>e. \<not> calm \<or> (\<exists>m. V (guardFilePath (rootDir s)) = Some (Dir m)) \<or>
       V (guardFilePath (rootDir s)) = None \<and> (\<forall>m. V (rootDir s) \<noteq> Some (Dir m)) \<Longrightarrow> E e V"
    "\<not> calm \<Longrightarrow> C V"
  shows "vwp calm (withGuardExclusive s fn) Q E C V"
  unfolding withGuardExclusive_def filePerm_def
  apply (rule vc)+
       apply (simp add: path_defs assms(1))
  subgoal for m c using assms(2,4,5) by (auto intro!: vc)
  subgoal for m using assms(4) by auto
  subgoal for m using assms(3) [of m] by (auto intro!: vc simp: path_defs)
  subgoal using assms(4) by (auto simp: path_defs)
  subgoal using assms(4,5) by auto
  done

lemma vwp_loadOrInitSentinelForWrite [vc]:
  assumes "clean (rootDir s)"
    "\<And>m x. V (sentinelPath (rootDir s)) = Some (Reg m (CSentinel x)) \<Longrightarrow> FormatVersion x = SentinelFormatVersion \<Longrightarrow> Q x V"
    "\<And>now. V (sentinelPath (rootDir s)) = None \<Longrightarrow> Q \<lparr>FormatVersion = SentinelFormatVersion, IMAPHost = identity_Host (identity s),
              IMAPPort = identity_Port (identity s), IMAPMailbox = identity_Mailbox (identity s),
              InitializedAt = now, UIDValidity = None, RecoveryRequired = None\<rparr> V"
    "\<And>e. \<not> calm \<or> (\<forall>m s'. V (sentinelPath (rootDir s)) = Some (Reg m (CSentinel s')) \<longrightarrow> FormatVersion s' \<noteq> SentinelFormatVersion) \<and>
        (V (sentinelPath (rootDir s)) = None \<longrightarrow> v_absent_errno V (sentinelPath (rootDir s)) \<noteq> ENOENT) \<Longrightarrow> E e V"
    "\<not> calm \<Longrightarrow> C V"
  shows "vwp calm (loadOrInitSentinelForWrite s) Q E C V"
  unfolding loadOrInitSentinelForWrite_def
  by (rule vc | simp)+ (use assms in \<open>auto intro!: vc\<close>)

section \<open>Updates of the sentinel\<close>

text \<open>Only the sentinel and a missing guard file may differ, and the sentinel file holds \<open>n\<close>.\<close>

definition sentinel_now :: "path \<Rightarrow> content node option \<Rightarrow> store_view \<Rightarrow> store_view \<Rightarrow> bool" where
  "sentinel_now root n V V' \<longleftrightarrow> V' (sentinelPath root) = n
     \<and> (\<forall>q. q \<noteq> sentinelPath root \<and> q \<noteq> guardFilePath root \<longrightarrow> V' q = V q)
     \<and> (V' (guardFilePath root) = V (guardFilePath root) \<or> V (guardFilePath root) = None \<and> V' (guardFilePath root) = Some (Reg filePerm (CRaw [])))"

lemma sentinel_now_refl: "sentinel_now root (V (sentinelPath root)) V V"
  by (simp add: sentinel_now_def)

lemma sentinel_now_guard:
  "V (guardFilePath root) = None \<Longrightarrow> sentinel_now root (V (sentinelPath root)) V (V(guardFilePath root \<mapsto> Reg 384 (CRaw [])))"
  by (simp add: sentinel_now_def filePerm_def path_defs)

lemma sentinel_now_upd: "sentinel_now root n V V' \<Longrightarrow> sentinel_now root (Some m) V (V'(sentinelPath root \<mapsto> m))"
  by (auto simp: sentinel_now_def path_defs)

text \<open>
  The contract of an operation that overwrites the sentinel by \<open>f\<close>: whatever happens, the sentinel is
  the old one or completely rewritten, and nothing else but a missing guard file changes.
\<close>

locale sentinel_writer =
  fixes op :: "'a \<Rightarrow> fileStore \<Rightarrow> unit store_io" and f :: "'a \<Rightarrow> internalSentinelFile \<Rightarrow> internalSentinelFile"
    and allowed :: "fileStore \<Rightarrow> store_view \<Rightarrow> bool"
  assumes version: "FormatVersion (f a x) = FormatVersion x" and owner: "sentinel_identity (f a x) = sentinel_identity x"
    and law: "clean (rootDir s) \<Longrightarrow> V (sentinelPath (rootDir s)) = Some (Reg m (CSentinel x)) \<Longrightarrow> FormatVersion x = SentinelFormatVersion \<Longrightarrow>
      vwp calm (op a s) (\<lambda>_. sentinel_now (rootDir s) (Some (Reg 384 (CSentinel (f a x)))) V)
        (\<lambda>_. sentinel_now (rootDir s) (Some (Reg m (CSentinel x))) V)
        (\<lambda>V'. sentinel_now (rootDir s) (Some (Reg m (CSentinel x))) V V' \<or> sentinel_now (rootDir s) (Some (Reg 384 (CSentinel (f a x)))) V V') V"
    and refused: "\<not> allowed s V \<Longrightarrow> clean (rootDir s) \<Longrightarrow> vwp calm (op a s) (\<lambda>_ _. False) (\<lambda>_ V'. V' = V) (\<lambda>V'. V' = V) V"
begin

lemma atomic:
  assumes "clean (rootDir s)" "view w (sentinelPath (rootDir s)) = Some (Reg m (CSentinel x))" "FormatVersion x = SentinelFormatVersion" "op a s w = (r, w')"
  shows "case r of
      Ok _ \<Rightarrow> allowed s (view w) \<and> sentinel_now (rootDir s) (Some (Reg 384 (CSentinel (f a x)))) (view w) (view w')
    | Err e \<Rightarrow> sentinel_now (rootDir s) (Some (Reg m (CSentinel x))) (view w) (view w')
    | Crashed \<Rightarrow> sentinel_now (rootDir s) (Some (Reg m (CSentinel x))) (view w) (view w')
        \<or> sentinel_now (rootDir s) (Some (Reg 384 (CSentinel (f a x)))) (view w) (view w')"
  using vwp_cases [OF law [where V = "view w" and calm = False, OF assms(1-3)] _ assms(4)] vwp_cases [OF refused [OF _ assms(1), of "view w" False] _ assms(4)]
  by (auto simp: quiet_def split: outcome.splits)

text \<open>What is written is what the next load sees.\<close>

lemma load_after:
  assumes "clean (rootDir s)" "view w (sentinelPath (rootDir s)) = Some (Reg m (CSentinel x))" "FormatVersion x = SentinelFormatVersion"
    "op a s w = (Ok (), w')" "loadSentinel (rootDir s) v = (Ok y, v')" "view v = view w'"
  shows "y = Some (f a x)"
proof -
  have "view v (sentinelPath (rootDir s)) = Some (Reg 384 (CSentinel (f a x)))"
    using atomic [OF assms(1-4)] assms(6) by (simp add: sentinel_now_def)
  then have "vwp False (loadSentinel (rootDir s)) (\<lambda>y _. y = Some (f a x)) (\<lambda>_ _. True) (\<lambda>_. True) (view v)"
    by (intro vwp_loadSentinel) (use assms(1,3) version [of a x] in auto)
  from vwp_cases [OF this _ assms(5)] show ?thesis by (simp add: quiet_def)
qed

end

lemma vwp_loadOrInit_at:
  assumes "clean (rootDir s)" "V (sentinelPath (rootDir s)) = Some (Reg m (CSentinel x))" "FormatVersion x = SentinelFormatVersion"
    "Q x V" "\<And>e. \<not> calm \<Longrightarrow> E e V" "\<not> calm \<Longrightarrow> C V"
  shows "vwp calm (loadOrInitSentinelForWrite s) Q E C V"
  by (rule vwp_loadOrInitSentinelForWrite) (use assms in auto)

lemma vwp_rewrite:
  assumes "clean (rootDir s)" "sentinel_now (rootDir s) (Some (Reg m (CSentinel x))) V0 V" "FormatVersion x = SentinelFormatVersion"
  shows "vwp calm (bindIO (wrapErr c1 (loadOrInitSentinelForWrite s)) (\<lambda>y. wrapErr c2 (saveSentinel (rootDir s) (g y))))
    (\<lambda>_. sentinel_now (rootDir s) (Some (Reg 384 (CSentinel (g x)))) V0)
    (\<lambda>_. sentinel_now (rootDir s) (Some (Reg m (CSentinel x))) V0)
    (\<lambda>V'. sentinel_now (rootDir s) (Some (Reg m (CSentinel x))) V0 V' \<or> sentinel_now (rootDir s) (Some (Reg 384 (CSentinel (g x)))) V0 V') V"
proof -
  have at: "V (sentinelPath (rootDir s)) = Some (Reg m (CSentinel x))" using assms(2) by (simp add: sentinel_now_def)
  show ?thesis
    by (rule vwp_bind, rule vwp_mapErr, rule vwp_loadOrInit_at [where V = V, OF assms(1) at assms(3)])
      (use assms(1,2) sentinel_now_upd [OF assms(2)] in \<open>auto intro!: vwp_mapErr vwp_saveSentinel\<close>)
qed

lemma vwp_guarded:
  assumes "clean (rootDir s)" "V (sentinelPath (rootDir s)) = Some (Reg m (CSentinel x))"
    "\<And>V1. sentinel_now (rootDir s) (Some (Reg m (CSentinel x))) V V1 \<Longrightarrow>
       vwp calm fn Q (\<lambda>_. sentinel_now (rootDir s) (Some (Reg m (CSentinel x))) V) C V1"
    "\<And>V1. sentinel_now (rootDir s) (Some (Reg m (CSentinel x))) V V1 \<Longrightarrow> C V1"
  shows "vwp calm (withGuardExclusive s fn) Q (\<lambda>_. sentinel_now (rootDir s) (Some (Reg m (CSentinel x))) V) C V"
proof -
  have id: "sentinel_now (rootDir s) (Some (Reg m (CSentinel x))) V V"
    using sentinel_now_refl [of "rootDir s" V] assms(2) by simp
  have g: "sentinel_now (rootDir s) (Some (Reg m (CSentinel x))) V (V(guardFilePath (rootDir s) \<mapsto> Reg 384 (CRaw [])))"
    if "V (guardFilePath (rootDir s)) = None" using sentinel_now_guard [of V "rootDir s"] that assms(2) by simp
  show ?thesis
    by (rule vwp_withGuardExclusive) (use assms(1) assms(3,4) [OF id] assms(3,4) [OF g] id g in auto)
qed

definition keep_recovery :: "u32 \<Rightarrow> internalSentinelFile \<Rightarrow> internalSentinelFile" where
  "keep_recovery v x = x\<lparr>UIDValidity := Some v\<rparr>"

definition with_recovery :: "u32 \<times> u32 \<times> gotime \<Rightarrow> internalSentinelFile \<Rightarrow> internalSentinelFile" where
  "with_recovery a x = (case a of (p, c, t) \<Rightarrow> x\<lparr>RecoveryRequired := Some \<lparr>PrevUIDValidity = p, CurrUIDValidity = c, DetectedAt = t\<rparr>\<rparr>)"

definition without_recovery :: "unit \<Rightarrow> internalSentinelFile \<Rightarrow> internalSentinelFile" where
  "without_recovery _ x = x\<lparr>RecoveryRequired := None\<rparr>"

definition recovered :: "u32 \<Rightarrow> internalSentinelFile \<Rightarrow> internalSentinelFile" where
  "recovered v x = x\<lparr>UIDValidity := Some v, RecoveryRequired := None\<rparr>"

lemma sentinel_nowI: "V (sentinelPath root) = n \<Longrightarrow> sentinel_now root n V V"
  using sentinel_now_refl by metis

text \<open>The three outcomes of the contract, as one condition.\<close>

definition overwrites :: "bool \<Rightarrow> fileStore \<Rightarrow> unit store_io \<Rightarrow> internalSentinelFile \<Rightarrow> nat \<Rightarrow> internalSentinelFile \<Rightarrow> store_view \<Rightarrow> store_view \<Rightarrow> bool" where
  "overwrites calm s op y m x V = vwp calm op (\<lambda>_. sentinel_now (rootDir s) (Some (Reg 384 (CSentinel y))) V)
     (\<lambda>_. sentinel_now (rootDir s) (Some (Reg m (CSentinel x))) V)
     (\<lambda>V'. sentinel_now (rootDir s) (Some (Reg m (CSentinel x))) V V' \<or> sentinel_now (rootDir s) (Some (Reg 384 (CSentinel y))) V V')"

lemma overwrites_read_only:
  assumes "V (sentinelPath (rootDir s)) = Some (Reg m (CSentinel x))" "\<not> readOnly s \<Longrightarrow> overwrites calm s op y m x V V"
  shows "overwrites calm s (if readOnly s then fail ErrReadOnly else op) y m x V V"
  using assms sentinel_nowI [where V = V, OF assms(1)] by (auto simp: overwrites_def intro!: vwp_if vwp_fail)

lemma overwrites_guarded:
  assumes "clean (rootDir s)" "V (sentinelPath (rootDir s)) = Some (Reg m (CSentinel x))"
    "\<And>V1. sentinel_now (rootDir s) (Some (Reg m (CSentinel x))) V V1 \<Longrightarrow> overwrites calm s fn y m x V V1"
  shows "overwrites calm s (withGuardExclusive s fn) y m x V V"
  unfolding overwrites_def
  by (rule vwp_guarded [where V = V, OF assms(1,2)]) (use assms(3) in \<open>auto simp: overwrites_def\<close>)

lemma overwrites_save:
  assumes "clean (rootDir s)" "sentinel_now (rootDir s) (Some (Reg m (CSentinel x))) V V1" "FormatVersion x = SentinelFormatVersion" "y = g x"
  shows "overwrites calm s (bindIO (wrapErr c1 (loadOrInitSentinelForWrite s)) (\<lambda>z. wrapErr c2 (saveSentinel (rootDir s) (g z)))) y m x V V1"
  using vwp_rewrite [OF assms(1-3), where g = g] assms(4) by (simp add: overwrites_def)

interpretation uidvalidity: sentinel_writer "\<lambda>v s. SaveUIDValidity s v" keep_recovery "\<lambda>s V. \<not> readOnly s"
proof (unfold_locales, fold overwrites_def)
  fix s :: fileStore and V m x calm a
  assume a: "clean (rootDir s)" "V (sentinelPath (rootDir s)) = Some (Reg m (CSentinel x))" "FormatVersion x = SentinelFormatVersion"
  show "overwrites calm s (SaveUIDValidity s a) (keep_recovery a x) m x V V"
    unfolding SaveUIDValidity_def
    by (rule overwrites_read_only [where V = V, OF a(2)], rule overwrites_save [OF a(1) sentinel_nowI [where V = V, OF a(2)] a(3)])
      (simp add: keep_recovery_def)
qed (auto simp: keep_recovery_def sentinel_identity_def SaveUIDValidity_def intro!: vwp_fail)

interpretation recovery: sentinel_writer "\<lambda>(p, c, t) s. SaveRecoveryRequired s p c t" with_recovery "\<lambda>s V. \<not> readOnly s"
proof (unfold_locales, fold overwrites_def)
  fix s :: fileStore and V m x calm and a :: "u32 \<times> u32 \<times> gotime"
  assume a: "clean (rootDir s)" "V (sentinelPath (rootDir s)) = Some (Reg m (CSentinel x))" "FormatVersion x = SentinelFormatVersion"
  obtain p c t where pct: "a = (p, c, t)" by (cases a) blast
  show "overwrites calm s ((case a of (p, c, t) \<Rightarrow> \<lambda>s. SaveRecoveryRequired s p c t) s) (with_recovery a x) m x V V"
    unfolding SaveRecoveryRequired_def pct prod.case
    by (rule overwrites_read_only [where V = V, OF a(2)], rule overwrites_guarded [where V = V, OF a(1,2)], rule overwrites_save [OF a(1) _ a(3)])
      (simp_all add: with_recovery_def)
qed (auto simp: with_recovery_def sentinel_identity_def SaveRecoveryRequired_def intro!: vwp_fail split: prod.splits)

interpretation clearing: sentinel_writer "\<lambda>u s. ClearRecoveryRequired s" without_recovery "\<lambda>s V. \<not> readOnly s"
proof (unfold_locales, fold overwrites_def)
  fix s :: fileStore and V m x calm and a :: unit
  assume a: "clean (rootDir s)" "V (sentinelPath (rootDir s)) = Some (Reg m (CSentinel x))" "FormatVersion x = SentinelFormatVersion"
  have "overwrites calm s (bindIO (wrapErr c1 (loadSentinel (rootDir s))) (\<lambda>found. case found of
          None \<Rightarrow> ret ()
        | Some sentinel \<Rightarrow> wrapErr c2 (saveSentinel (rootDir s) (sentinel\<lparr>RecoveryRequired := None\<rparr>)))) (without_recovery a x) m x V V1"
    if V1: "sentinel_now (rootDir s) (Some (Reg m (CSentinel x))) V V1" for V1 c1 c2
  proof -
    have "V1 (sentinelPath (rootDir s)) = Some (Reg m (CSentinel x))" using V1 by (simp add: sentinel_now_def)
    then show ?thesis
      unfolding overwrites_def
      by (intro vwp_bind vwp_mapErr vwp_loadSentinel)
        (use a(1,3) V1 sentinel_now_upd [OF V1] in \<open>auto simp: without_recovery_def intro!: vwp_mapErr vwp_saveSentinel\<close>)
  qed
  then show "overwrites calm s (ClearRecoveryRequired s) (without_recovery a x) m x V V"
    unfolding ClearRecoveryRequired_def
    by (intro overwrites_read_only [where V = V, OF a(2)] overwrites_guarded [where V = V, OF a(1,2)])
qed (auto simp: without_recovery_def sentinel_identity_def ClearRecoveryRequired_def intro!: vwp_fail)

text \<open>What the manifest says: no reset in progress, one in progress, or a manifest the program refuses.\<close>

definition reset_pending :: "path \<Rightarrow> store_view \<Rightarrow> bool option" where
  "reset_pending root V = (case V (resetManifestPath root) of
       None \<Rightarrow> if v_absent_errno V (resetManifestPath root) = ENOENT then Some False else None
     | Some (Reg m (CManifest x)) \<Rightarrow>
         if manifest_Version x = resetManifestVersion \<and> validateManifestPhase (manifest_Phase x) = None
         then Some (manifest_Phase x \<noteq> resetPhaseCommitted) else None
     | _ \<Rightarrow> None)"

lemma vwp_HasPendingReset:
  assumes "clean (rootDir s)" "\<And>b. reset_pending (rootDir s) V = Some b \<Longrightarrow> Q b V"
    "\<And>e. \<not> calm \<or> reset_pending (rootDir s) V = None \<Longrightarrow> E e V" "\<not> calm \<Longrightarrow> C V"
  shows "vwp calm (HasPendingReset s) Q E C V"
  unfolding HasPendingReset_def
  apply (rule vwp_bind, rule vwp_attempt, rule vwp_readResetManifest)
      apply (simp add: path_defs assms(1))
  subgoal for m x using assms(2,3) by (auto intro!: vc simp: reset_pending_def split: option.splits)
  subgoal using assms(2) by (auto intro!: vc simp: reset_pending_def is_not_exist_def)
  subgoal for e
    using assms(3) by (auto intro!: vc simp: reset_pending_def split: option.splits node.splits content.splits)
  subgoal using assms(4) by simp
  done

interpretation applying: sentinel_writer "\<lambda>v s. ApplyRecovery s v" recovered
  "\<lambda>s V. \<not> readOnly s \<and> reset_pending (rootDir s) V = Some False"
proof (unfold_locales, fold overwrites_def)
  fix s :: fileStore and V m x calm a
  assume a: "clean (rootDir s)" "V (sentinelPath (rootDir s)) = Some (Reg m (CSentinel x))" "FormatVersion x = SentinelFormatVersion"
  have "overwrites calm s (withGuardExclusive s (bindIO (wrapErr c1 (loadOrInitSentinelForWrite s)) (\<lambda>sentinel.
      wrapErr c2 (saveSentinel (rootDir s) (sentinel\<lparr>UIDValidity := Some a, RecoveryRequired := None\<rparr>))))) (recovered a x) m x V V" for c1 c2
    by (rule overwrites_guarded [where V = V, OF a(1,2)], rule overwrites_save [OF a(1) _ a(3)]) (simp_all add: recovered_def)
  then have "overwrites calm s (bindIO (wrapErr c0 (HasPendingReset s)) (\<lambda>p. if p then fail ErrPendingReset else
      withGuardExclusive s (bindIO (wrapErr c1 (loadOrInitSentinelForWrite s)) (\<lambda>sentinel.
      wrapErr c2 (saveSentinel (rootDir s) (sentinel\<lparr>UIDValidity := Some a, RecoveryRequired := None\<rparr>)))))) (recovered a x) m x V V" for c0 c1 c2
    using sentinel_nowI [where V = V, OF a(2)] unfolding overwrites_def
    by (intro vwp_bind vwp_mapErr vwp_HasPendingReset) (use a(1) in \<open>auto intro!: vwp_fail\<close>)
  then show "overwrites calm s (ApplyRecovery s a) (recovered a x) m x V V"
    unfolding ApplyRecovery_def by (intro overwrites_read_only [where V = V, OF a(2)])
next
  fix s :: fileStore and V calm a
  assume "\<not> (\<not> readOnly s \<and> reset_pending (rootDir s) V = Some False)" "clean (rootDir s)"
  then show "vwp calm (ApplyRecovery s a) (\<lambda>_ _. False) (\<lambda>_ V'. V' = V) (\<lambda>V'. V' = V) V"
    unfolding ApplyRecovery_def by (auto intro!: vwp_if vwp_fail vwp_bind vwp_mapErr vwp_HasPendingReset)
qed (auto simp: recovered_def sentinel_identity_def)

lemma LoadRecoveryRequired_Ok:
  assumes "LoadRecoveryRequired s w = (Ok y, w')"
  shows "\<exists>z. loadSentinel (rootDir s) w = (Ok z, w') \<and> y = (case z of None \<Rightarrow> None
     | Some x \<Rightarrow> map_option (\<lambda>rs. (PrevUIDValidity rs, CurrUIDValidity rs, DetectedAt rs)) (RecoveryRequired x))"
  using assms by (auto simp: LoadRecoveryRequired_def bindIO_def mapErr_def ret_def split: prod.splits outcome.splits)

lemma LoadUIDValidity_Ok:
  assumes "LoadUIDValidity s w = (Ok y, w')"
  shows "\<exists>z. loadSentinel (rootDir s) w = (Ok z, w') \<and> y = (case z of None \<Rightarrow> None | Some x \<Rightarrow> UIDValidity x)"
  using assms by (auto simp: LoadUIDValidity_def bindIO_def mapErr_def ret_def split: prod.splits outcome.splits)

text \<open>
  C13. Keep-old recovery changes UIDVALIDITY and the recovery flag together: under every schedule of
  faults and crashes the sentinel afterwards is the old one or the one with the new value and no
  recovery state, never one with only half of the change; success means the new one; nothing else
  changes but a missing guard file; and while a discard-old reset is in progress, or its manifest is
  unreadable, the operation never succeeds and changes nothing.
\<close>

theorem ApplyRecovery_atomic:
  assumes "clean (rootDir s)" "view w (sentinelPath (rootDir s)) = Some (Reg m (CSentinel x))" "FormatVersion x = SentinelFormatVersion"
    "ApplyRecovery s v w = (r, w')"
  shows "(case r of
      Ok _ \<Rightarrow> sentinel_now (rootDir s) (Some (Reg 384 (CSentinel (x\<lparr>UIDValidity := Some v, RecoveryRequired := None\<rparr>)))) (view w) (view w')
    | Err e \<Rightarrow> sentinel_now (rootDir s) (Some (Reg m (CSentinel x))) (view w) (view w')
    | Crashed \<Rightarrow> sentinel_now (rootDir s) (Some (Reg m (CSentinel x))) (view w) (view w')
        \<or> sentinel_now (rootDir s) (Some (Reg 384 (CSentinel (x\<lparr>UIDValidity := Some v, RecoveryRequired := None\<rparr>)))) (view w) (view w'))
    \<and> (reset_pending (rootDir s) (view w) \<noteq> Some False \<longrightarrow> r \<noteq> Ok () \<and> view w' = view w)"
proof -
  have "view w' = view w \<and> r \<noteq> Ok ()" if "reset_pending (rootDir s) (view w) \<noteq> Some False"
    using vwp_cases [OF applying.refused [of s "view w" False v] _ assms(4)] assms(1) that by (auto simp: quiet_def split: outcome.splits)
  with applying.atomic [where a = v, OF assms(1-3)] assms(4) show ?thesis
    by (auto simp: recovered_def split: outcome.splits)
qed

text \<open>
  C22. The recovery state that is recorded is the one the next load reports, with the stored
  UIDVALIDITY unaffected; and a stored UIDVALIDITY is the one loaded, with the recovery state
  unaffected.
\<close>

theorem recovery_state_roundtrip:
  assumes "clean (rootDir s)" "view w (sentinelPath (rootDir s)) = Some (Reg m (CSentinel x))" "FormatVersion x = SentinelFormatVersion"
  shows "(SaveRecoveryRequired s p c t w = (Ok (), w1) \<and> view v1 = view w1 \<longrightarrow>
      (LoadRecoveryRequired s v1 = (Ok a, v1') \<longrightarrow> a = Some (p, c, t)) \<and> (LoadUIDValidity s v1 = (Ok b, v1') \<longrightarrow> b = UIDValidity x))
    \<and> (SaveUIDValidity s u w = (Ok (), w2) \<and> view v2 = view w2 \<longrightarrow>
      (LoadUIDValidity s v2 = (Ok d, v2') \<longrightarrow> d = Some u) \<and>
      (LoadRecoveryRequired s v2 = (Ok e, v2') \<longrightarrow>
        e = map_option (\<lambda>rs. (PrevUIDValidity rs, CurrUIDValidity rs, DetectedAt rs)) (RecoveryRequired x)))"
  using recovery.load_after [where a = "(p, c, t)" and w = w and w' = w1 and v = v1 and v' = v1', OF assms]
    uidvalidity.load_after [where a = u and w = w and w' = w2 and v = v2 and v' = v2', OF assms]
  by (auto dest!: LoadRecoveryRequired_Ok LoadUIDValidity_Ok simp: with_recovery_def keep_recovery_def)

text \<open>A store in which a UIDVALIDITY change has been recorded, used in examples.\<close>

definition sample_identity :: IMAPIdentity where
  "sample_identity = \<lparr>identity_Host = ''imap.example.org'', identity_Port = 993, identity_Mailbox = ''INBOX''\<rparr>"

definition sample_sentinel :: "u32 option \<Rightarrow> internalRecoveryState option \<Rightarrow> internalSentinelFile" where
  "sample_sentinel uv rs = \<lparr>FormatVersion = 1, IMAPHost = ''imap.example.org'', IMAPPort = 993, IMAPMailbox = ''INBOX'',
     InitializedAt = 5, UIDValidity = uv, RecoveryRequired = rs\<rparr>"

definition sample_pending :: internalSentinelFile where
  "sample_pending = sample_sentinel (Some 1) (Some \<lparr>PrevUIDValidity = 1, CurrUIDValidity = 2, DetectedAt = 7\<rparr>)"

definition sample_files :: "internalSentinelFile \<Rightarrow> content fsys" where
  "sample_files s = [([], Dir 493), ([''s''], Dir 448), ([''s'', ''.tlsrpt-digest-meta.json''], Reg 384 (CSentinel s)),
     ([''s'', ''tlsrpt.json''], Reg 384 (CData \<lparr>df_Version = 1, df_Reports = [], df_Emails = [\<lparr>entry_UID = 3, entry_UIDValidity = 1, entry_InternalDate = 9\<rparr>]\<rparr>)),
     ([''s'', ''emails''], Dir 448), ([''s'', ''emails'', ''1''], Dir 448)]"

definition sample_pending_world :: "content world" where
  "sample_pending_world = \<lparr>fs = sample_files sample_pending, sched = [], clock = 11\<rparr>"

lemma sample_pending_facts:
  "clean (rootDir sample_store)" "view sample_pending_world (sentinelPath (rootDir sample_store)) = Some (Reg 384 (CSentinel sample_pending))"
  "FormatVersion sample_pending = SentinelFormatVersion"
  by (simp_all add: sample_store_def sample_pending_world_def sample_files_def sample_pending_def sample_sentinel_def
      path_defs visible_def SentinelFormatVersion_def)

theorem ApplyRecovery_atomic_witness:
  "\<exists>w'. ApplyRecovery sample_store 2 sample_pending_world = (Ok (), w')
     \<and> sentinel_now [''s''] (Some (Reg 384 (CSentinel (sample_sentinel (Some 2) None)))) (view sample_pending_world) (view w')"
proof -
  have "fst (ApplyRecovery sample_store 2 sample_pending_world) = Ok ()" by code_simp
  then obtain w' where run: "ApplyRecovery sample_store 2 sample_pending_world = (Ok (), w')" by (metis prod.collapse)
  from ApplyRecovery_atomic [OF sample_pending_facts run] run show ?thesis
    by (simp add: sample_store_def sample_pending_def sample_sentinel_def)
qed

theorem recovery_state_roundtrip_witness:
  "\<exists>w1 w2. SaveRecoveryRequired sample_store 4 5 6 sample_pending_world = (Ok (), w1)
     \<and> LoadRecoveryRequired sample_store w1 = (Ok (Some (4, 5, 6)), w2)"
proof -
  have "fst (SaveRecoveryRequired sample_store 4 5 6 sample_pending_world) = Ok ()" by code_simp
  then obtain w1 where 1: "SaveRecoveryRequired sample_store 4 5 6 sample_pending_world = (Ok (), w1)" by (metis prod.collapse)
  have "is_ok (fst (LoadRecoveryRequired sample_store (snd (SaveRecoveryRequired sample_store 4 5 6 sample_pending_world))))" by code_simp
  then obtain a w2 where 2: "LoadRecoveryRequired sample_store w1 = (Ok a, w2)" using 1 by (auto simp: is_ok_def split: outcome.splits) (metis prod.collapse)
  have "a = Some (4, 5, 6)" using recovery_state_roundtrip [OF sample_pending_facts, of 4 5 6 w1 w1 a w2] 1 2 by blast
  with 1 2 show ?thesis by blast
qed

end
