(* ===== verification/Store_Open.thy ===== *)
theory Store_Open
  imports Store_Recovery
begin

text \<open>
  \<^verbatim>\<open>Open\<close> and \<^verbatim>\<open>initDataFile\<close> of \<^verbatim>\<open>internal/store/store.go\<close>.
\<close>

definition initDataFile :: "path \<Rightarrow> unit store_io" where
  "initDataFile root =
     bindIO (attempt (stat (dataFilePath root))) (\<lambda>r. case r of
       Inr _ \<Rightarrow> ret ()
     | Inl err \<Rightarrow>
         if \<not> is_not_exist err then fail (Wrap ''initDataFile: stat'' err)
         else
           bindIO (wrapErr ''initDataFile: marshal'' (marshal (CData emptyDataFile))) (\<lambda>data.
           atomicWriteFile (dataFilePath root) data))"

text \<open>The directories and files a writable store needs; the reset mode leaves data and emails alone.\<close>

definition prepareStore :: "path \<Rightarrow> OpenMode \<Rightarrow> unit store_io" where
  "prepareStore root m =
     (if m = OpenReadOnly then ret ()
      else
        bindIO (wrapErr ''Open: ensure root dir'' (ensureDirExists root)) (\<lambda>_.
        bindIO (if m \<noteq> OpenRecoverReset
                then bindIO (wrapErr ''Open: ensure emails dir'' (ensureDirExists (emailsPath root))) (\<lambda>_.
                     wrapErr ''Open: init data file'' (initDataFile root))
                else ret ()) (\<lambda>_.
        wrapErr ''Open: create guard file'' (openCreate (guardFilePath root) filePerm (CRaw [])))))"

definition newFileStore :: "path \<Rightarrow> IMAPIdentity \<Rightarrow> OpenMode \<Rightarrow> fileStore" where
  "newFileStore root ident m =
     \<lparr>rootDir = root, identity = ident, mode = m, readOnly = (m = OpenReadOnly),
      dataPath = dataFilePath root, emailsDirPath = emailsPath root\<rparr>"

text \<open>The sentinel is verified, or created unless the store is read-only; loose permissions are only reported.\<close>

definition bindIdentity :: "path \<Rightarrow> IMAPIdentity \<Rightarrow> OpenMode \<Rightarrow> unit store_io" where
  "bindIdentity root ident m =
     bindIO (wrapErr ''Open: load sentinel'' (loadSentinel root)) (\<lambda>found.
     bindIO (case found of
         Some sentinel \<Rightarrow>
           (case verifySentinelIdentity root sentinel ident of
              Some err \<Rightarrow> fail err
            | None \<Rightarrow> checkFilePermissions (sentinelPath root))
       | None \<Rightarrow>
           if m \<noteq> OpenReadOnly then wrapErr ''Open: init sentinel'' (bindIO (initSentinel root ident) (\<lambda>_. ret ()))
           else ret ()) (\<lambda>_.
     bindIO (attempt (stat (dataFilePath root))) (\<lambda>r.
     case r of Inr _ \<Rightarrow> checkFilePermissions (dataFilePath root) | Inl _ \<Rightarrow> ret ())))"

definition Open :: "path \<Rightarrow> IMAPIdentity \<Rightarrow> OpenMode \<Rightarrow> fileStore store_io" where
  "Open root ident m =
     bindIO (if m = OpenReadWrite then cleanupCompletedReset root else ret ()) (\<lambda>_.
     bindIO (prepareStore root m) (\<lambda>_.
     bindIO (bindIdentity root ident m) (\<lambda>_.
     ret (newFileStore root ident m))))"

lemma newFileStore_simps [simp]:
  "rootDir (newFileStore root ident m) = root" "identity (newFileStore root ident m) = ident"
  "mode (newFileStore root ident m) = m" "readOnly (newFileStore root ident m) \<longleftrightarrow> m = OpenReadOnly"
  "dataPath (newFileStore root ident m) = dataFilePath root"
  "emailsDirPath (newFileStore root ident m) = emailsPath root"
  by (simp_all add: newFileStore_def)

end
