(* ===== verification/Notify_Types.thy ===== *)
theory Notify_Types
  imports Go_Time
begin

text \<open>
  \<^verbatim>\<open>internal/notify/types.go\<close>, the message types of \<^verbatim>\<open>message.go\<close>, the options of \<^verbatim>\<open>options.go\<close> and the part
  of \<^verbatim>\<open>log/slog\<close> the package stores notifications in. Text is a list of code points. Go's
  \<^verbatim>\<open>map[string]int64\<close> is an association list with distinct keys.
\<close>

definition runes :: "string \<Rightarrow> gotext" where
  "runes s = map of_char s"

section \<open>Payloads\<close>

type_synonym PolicyType = gotext
type_synonym WarningKind = gotext
type_synonym SystemErrorKind = gotext
type_synonym org_stats = "(gotext \<times> int) list"

definition PolicyTypeUnknown :: PolicyType where
  "PolicyTypeUnknown = []"

record notifyDateRange =
  range_Start :: gotime
  range_End :: gotime

record notifyFailureDetail =
  fd_ResultType :: gotext
  fd_FailedSessionCount :: int
  fd_ReceivingMXHostname :: gotext
  fd_FailureReasonCode :: gotext

record Alert =
  alert_OrganizationName :: gotext
  alert_PolicyType :: PolicyType
  FailureCount :: int
  alert_DateRange :: notifyDateRange
  alert_ReportID :: gotext
  alert_FailureDetails :: "notifyFailureDetail list"
  FailureDetailsTotalCount :: int
  FailureDetailsTotalSessions :: int

record Warning =
  warning_Kind :: WarningKind
  warning_UID :: u32
  warning_UIDValidity :: u32
  warning_MessageID :: gotext

record SystemError =
  syserr_Kind :: SystemErrorKind
  syserr_Component :: gotext
  syserr_Mailbox :: gotext

record Summary =
  Period :: notifyDateRange
  OrganizationStats :: org_stats
  ReportCount :: int

definition WarningKindSizeMismatch :: WarningKind where
  "WarningKindSizeMismatch = runes ''size_mismatch''"

definition WarningKindParseFailure :: WarningKind where
  "WarningKindParseFailure = runes ''parse_failure''"

definition WarningKindMailboxReadOnly :: WarningKind where
  "WarningKindMailboxReadOnly = runes ''mailbox_read_only''"

definition SystemErrorKindLockHeld :: SystemErrorKind where
  "SystemErrorKindLockHeld = runes ''lock_held''"

definition SystemErrorKindStoreIdentityMismatch :: SystemErrorKind where
  "SystemErrorKindStoreIdentityMismatch = runes ''store_identity_mismatch''"

definition SystemErrorKindStorePermission :: SystemErrorKind where
  "SystemErrorKindStorePermission = runes ''store_permission''"

definition SystemErrorKindStoreCorruption :: SystemErrorKind where
  "SystemErrorKindStoreCorruption = runes ''store_corruption''"

definition SystemErrorKindIMAPCredentialsMissing :: SystemErrorKind where
  "SystemErrorKindIMAPCredentialsMissing = runes ''imap_credentials_missing''"

definition SystemErrorKindIMAPConnectFailed :: SystemErrorKind where
  "SystemErrorKindIMAPConnectFailed = runes ''imap_connect_failed''"

definition SystemErrorKindIMAPAuthFailed :: SystemErrorKind where
  "SystemErrorKindIMAPAuthFailed = runes ''imap_auth_failed''"

definition SystemErrorKindIMAPOperationFailed :: SystemErrorKind where
  "SystemErrorKindIMAPOperationFailed = runes ''imap_operation_failed''"

definition SystemErrorKindUIDValidityChanged :: SystemErrorKind where
  "SystemErrorKindUIDValidityChanged = runes ''uidvalidity_changed''"

definition SystemErrorKindRecoveryRequired :: SystemErrorKind where
  "SystemErrorKindRecoveryRequired = runes ''recovery_required''"

definition SystemErrorKindResetIncomplete :: SystemErrorKind where
  "SystemErrorKindResetIncomplete = runes ''reset_incomplete''"

definition SystemErrorKindNotificationFlushFailed :: SystemErrorKind where
  "SystemErrorKindNotificationFlushFailed = runes ''notification_flush_failed''"

section \<open>Slack messages\<close>

record slackField =
  Title :: gotext
  Value :: gotext
  Short :: bool

record slackAttachment =
  Color :: gotext
  Fields :: "slackField list"

record slackMessage =
  Text :: gotext
  Attachments :: "slackAttachment list"

section \<open>Log records\<close>

text \<open>
  The kinds of \<^verbatim>\<open>slog.Value\<close> the package uses, the levels as the integers \<^verbatim>\<open>slog\<close> gives them, and a record
  without its time stamp, which nothing reads. \<^verbatim>\<open>Record.AddAttrs\<close> leaves out attributes that are empty groups.
\<close>

datatype slog_value = VString gotext | VInt64 int | VUint64 int | VTime gotime | VGroup "(gotext \<times> slog_value) list"

type_synonym slog_attr = "gotext \<times> slog_value"

definition LevelInfo :: int where
  "LevelInfo = 0"

definition LevelWarn :: int where
  "LevelWarn = 4"

definition LevelError :: int where
  "LevelError = 8"

record slogRecord =
  record_Level :: int
  record_Message :: gotext
  record_Attrs :: "slog_attr list"

definition AddAttrs :: "slog_attr list \<Rightarrow> slogRecord \<Rightarrow> slogRecord" where
  "AddAttrs as r = r\<lparr>record_Attrs := record_Attrs r @ filter (\<lambda>a. snd a \<noteq> VGroup []) as\<rparr>"

section \<open>Options\<close>

datatype LevelMode = LevelModeExactInfo | LevelModeWarnAndAbove | LevelModeOther string

text \<open>Durations are nanoseconds.\<close>

record BackoffConfig =
  Base :: int
  RetryCount :: int

definition DefaultBackoffConfig :: BackoffConfig where
  "DefaultBackoffConfig = \<lparr>Base = 2 * nanos_per_second, RetryCount = 3\<rparr>"

text \<open>The options without the loggers and the HTTP client.\<close>

record SlackHandlerOptions =
  WebhookURL :: string
  AllowedHost :: string
  RunID :: gotext
  opt_LevelMode :: LevelMode
  opt_IsDryRun :: bool
  opt_BackoffConfig :: BackoffConfig

end
