(* ===== verification/Cmd_Boot.thy ===== *)
theory Cmd_Boot
  imports Store_Open Notify_Types
begin

text \<open>
  The part of start-up that touches the store: the writer lock (\<^verbatim>\<open>internal/storelock/storelock.go\<close>), the
  check of the root directory (\<^verbatim>\<open>cmd/tlsrpt-digest/lock.go\<close>) and the opening of the store by
  \<^verbatim>\<open>Bootstrap\<close> (\<^verbatim>\<open>cmd/tlsrpt-digest/boot.go\<close>). Whether another process holds the writer lock is an
  argument of a run. There are no symbolic links in the file system, so \<^verbatim>\<open>Lstat\<close> is \<open>stat\<close> and the branch that
  rejects links is unreachable.
\<close>

section \<open>The writer lock\<close>

definition lockFilePerm :: nat where
  "lockFilePerm = 384"

definition LockPath :: "path \<Rightarrow> path" where
  "LockPath root = root @ [''.tlsrpt-digest-store.lock'']"

lemmas store_path_defs = path_defs LockPath_def

definition Acquire :: "bool \<Rightarrow> path \<Rightarrow> unit store_io" where
  "Acquire held lockPath =
     bindIO (wrapErr ''storelock.Acquire: open lock file'' (openCreate lockPath lockFilePerm (CRaw ''''))) (\<lambda>_.
     bindIO (wrapErr ''storelock.Acquire: acquire lock'' nop) (\<lambda>_.
     if held then fail ErrLockHeld else ret ()))"

section \<open>The root directory\<close>

definition rootDirPerm :: nat where
  "rootDirPerm = 448"

definition rootDirGroupPerm :: nat where
  "rootDirGroupPerm = 488"

definition validateAndEnsureRootDir :: "path \<Rightarrow> unit store_io" where
  "validateAndEnsureRootDir root =
     bindIO (bindIO (attempt (stat root)) (\<lambda>r. case r of
         Inr fi \<Rightarrow> ret fi
       | Inl err \<Rightarrow>
           if \<not> is_not_exist err then fail (Wrap ''validateAndEnsureRootDir: stat'' err)
           else bindIO (wrapErr ''validateAndEnsureRootDir: mkdir'' (mkdirAll root rootDirPerm)) (\<lambda>_.
             wrapErr ''validateAndEnsureRootDir: stat after mkdir'' (stat root)))) (\<lambda>fi.
     if \<not> is_dir fi then fail (Wrap ''validateAndEnsureRootDir'' ErrRootDirNotDirectory)
     else if node_mode fi \<noteq> rootDirPerm \<and> node_mode fi \<noteq> rootDirGroupPerm
     then fail (Wrap ''validateAndEnsureRootDir'' ErrRootDirPermission)
     else ret ())"

section \<open>Opening the store for a command\<close>

definition storeOpenMode :: "bool \<Rightarrow> OpenMode" where
  "storeOpenMode dryRun = (if dryRun then OpenReadOnly else OpenReadWrite)"

definition is_identity_mismatch :: "go_error \<Rightarrow> bool" where
  "is_identity_mismatch e \<longleftrightarrow> list_ex (\<lambda>x. case x of ErrStoreIdentityMismatch p a b \<Rightarrow> True | _ \<Rightarrow> False) (err_chain e)"

definition classifyOpenError :: "go_error \<Rightarrow> SystemErrorKind" where
  "classifyOpenError err =
     (if errors_Is err ErrPendingReset then SystemErrorKindResetIncomplete
      else if is_identity_mismatch err then SystemErrorKindStoreIdentityMismatch
      else if is_permission err then SystemErrorKindStorePermission
      else SystemErrorKindStoreCorruption)"

definition bootstrapAcquireWriterLock :: "(SystemErrorKind \<Rightarrow> unit store_io) \<Rightarrow> bool \<Rightarrow> path \<Rightarrow> unit store_io" where
  "bootstrapAcquireWriterLock notifySystemError held root =
     bindIO (attempt (Acquire held (LockPath root))) (\<lambda>r. case r of
       Inr _ \<Rightarrow> ret ()
     | Inl err \<Rightarrow>
         bindIO (bestEffort (notifySystemError
           (if errors_Is err ErrLockHeld then SystemErrorKindLockHeld else SystemErrorKindStorePermission))) (\<lambda>_.
         fail (Wrap ''acquire store writer lock'' err)))"

text \<open>
  \<^verbatim>\<open>Bootstrap\<close> of every command but \<^verbatim>\<open>summary\<close>, from the root directory on. The notifier is an argument:
  the result of building it, as the operation that reports a system error and flushes.
\<close>

definition Bootstrap ::
    "go_error + (SystemErrorKind \<Rightarrow> unit store_io) \<Rightarrow> bool \<Rightarrow> bool \<Rightarrow> OpenMode option \<Rightarrow> path \<Rightarrow> IMAPIdentity \<Rightarrow> fileStore store_io" where
  "Bootstrap buildNotifier held dryRun override root ident =
     bindIO (if dryRun then ret () else wrapErr ''prepare store root'' (validateAndEnsureRootDir root)) (\<lambda>_.
     case buildNotifier of
       Inl err \<Rightarrow> fail (Wrap ''build notifier'' err)
     | Inr notifySystemError \<Rightarrow>
         bindIO (if dryRun then ret () else bootstrapAcquireWriterLock notifySystemError held root) (\<lambda>_.
         bindIO (attempt (Open root ident (case override of Some m \<Rightarrow> m | None \<Rightarrow> storeOpenMode dryRun))) (\<lambda>r. case r of
           Inr st \<Rightarrow> ret st
         | Inl err \<Rightarrow>
             bindIO (bestEffort (notifySystemError (classifyOpenError err))) (\<lambda>_.
             if errors_Is err ErrPendingReset then fail (Wrap ''store reset is incomplete'' err)
             else fail (Wrap ''open store'' err)))))"

text \<open>\<^verbatim>\<open>Bootstrap\<close> of \<^verbatim>\<open>summary\<close>: no lock, no directory; the store is read-only and a shared guard is taken.\<close>

definition bootstrapSummary :: "path \<Rightarrow> IMAPIdentity \<Rightarrow> (fileStore \<times> SummaryConsistencyGuard) store_io" where
  "bootstrapSummary root ident =
     bindIO (wrapErr ''open summary store'' (Open root ident OpenReadOnly)) (\<lambda>st.
     bindIO (wrapErr ''acquire summary consistency guard'' (AcquireSummaryConsistencyGuard st)) (\<lambda>g.
     ret (st, g)))"

end
