(* ===== verification/Cmd_Recover.thy ===== *)
theory Cmd_Recover
  imports Cmd_Boot
begin

text \<open>
  \<^verbatim>\<open>cmd/tlsrpt-digest/recover.go\<close>: the runner of the \<^verbatim>\<open>recover\<close> subcommand on an open store. What it
  prints is not modelled.
\<close>

definition exitOK :: int where
  "exitOK = 0"

definition exitError :: int where
  "exitError = 1"

definition recoverModeKeepOld :: string where
  "recoverModeKeepOld = ''keep-old''"

definition recoverModeDiscardOld :: string where
  "recoverModeDiscardOld = ''discard-old''"

record recoverOptions =
  RecoverMode :: string
  RecoverYes :: bool

definition runKeepOld :: "fileStore \<Rightarrow> u32 \<Rightarrow> int store_io" where
  "runKeepOld st currV =
     bindIO (wrapErr ''recover: apply recovery'' (ApplyRecovery st currV)) (\<lambda>_. ret exitOK)"

definition runDiscardOld :: "fileStore \<Rightarrow> u32 \<Rightarrow> bool \<Rightarrow> bool \<Rightarrow> int store_io" where
  "runDiscardOld st currV confirmed pendingReset =
     (if \<not> confirmed then ret exitError
      else bindIO (wrapErr ''recover: reset for recovery'' (ResetForRecovery st currV)) (\<lambda>_. ret exitOK))"

definition executeMode :: "fileStore \<Rightarrow> recoverOptions \<Rightarrow> u32 \<Rightarrow> bool \<Rightarrow> int store_io" where
  "executeMode st opts currV pendingReset =
     (if pendingReset \<and> RecoverMode opts = recoverModeKeepOld then ret exitError
      else if RecoverMode opts = recoverModeKeepOld then runKeepOld st currV
      else if RecoverMode opts = recoverModeDiscardOld then runDiscardOld st currV (RecoverYes opts) pendingReset
      else ret exitError)"

definition handleNoRecoveryRequired :: "fileStore \<Rightarrow> recoverOptions \<Rightarrow> int store_io" where
  "handleNoRecoveryRequired st opts =
     bindIO (wrapErr ''recover: check pending reset'' (HasPendingReset st)) (\<lambda>pendingReset.
     if \<not> pendingReset then ret exitError
     else if RecoverMode opts = recoverModeDiscardOld \<and> RecoverYes opts
     then bindIO (wrapErr ''recover: finalize pending cleanup'' (ResetForRecovery st 0)) (\<lambda>_. ret exitOK)
     else ret exitError)"

definition recoverRun :: "fileStore \<Rightarrow> recoverOptions \<Rightarrow> int store_io" where
  "recoverRun st opts =
     bindIO (wrapErr ''recover: load recovery-required'' (LoadRecoveryRequired st)) (\<lambda>found. case found of
       None \<Rightarrow> handleNoRecoveryRequired st opts
     | Some (prevV, currV, _) \<Rightarrow>
         bindIO (wrapErr ''recover: check pending reset'' (HasPendingReset st)) (\<lambda>pendingReset.
         executeMode st opts currV pendingReset))"

text \<open>
  \<^verbatim>\<open>recoverStoreOpenMode\<close> of \<^verbatim>\<open>main.go\<close>, and a whole invocation as \<^verbatim>\<open>runCLI\<close> composes it: start-up with that
  mode and a notifier that does nothing, then the runner on the store; the argument \<open>held\<close> says whether
  another process holds the writer lock. Releasing the lock at the end has no effect on files.
\<close>

definition recoverStoreOpenMode :: "recoverOptions \<Rightarrow> OpenMode" where
  "recoverStoreOpenMode opts =
     (if RecoverMode opts = recoverModeDiscardOld \<and> RecoverYes opts then OpenRecoverReset else OpenReadWrite)"

definition nopNotifier :: "SystemErrorKind \<Rightarrow> unit store_io" where
  "nopNotifier kind = ret ()"

definition recoverCommand :: "bool \<Rightarrow> path \<Rightarrow> IMAPIdentity \<Rightarrow> recoverOptions \<Rightarrow> int store_io" where
  "recoverCommand held root ident opts =
     bindIO (Bootstrap (Inr nopNotifier) held False (Some (recoverStoreOpenMode opts)) root ident) (\<lambda>st.
     recoverRun st opts)"

end
