(* ===== verification/Reset_Safety.thy ===== *)
theory Reset_Safety
  imports Cmd_Recover
begin

text \<open>
  Crash safety of the discard-old reset. \<open>reset_inv\<close> describes every state that any number of
  interrupted \<^verbatim>\<open>recover --mode discard-old --yes\<close> runs can leave; each function of the reset keeps it
  whatever fails or dies, and an undisturbed run ends in \<open>reset_done\<close>.
\<close>

definition root_dirs :: "path \<Rightarrow> store_view \<Rightarrow> bool" where
  "root_dirs root V \<longleftrightarrow> (\<forall>q. prefix q root \<longrightarrow> (\<exists>m. V q = Some (Dir m)))
     \<and> (V root = Some (Dir rootDirPerm) \<or> V root = Some (Dir rootDirGroupPerm))"

definition no_dir_at :: "path \<Rightarrow> store_view \<Rightarrow> bool" where
  "no_dir_at p V \<longleftrightarrow> (\<forall>m. V p \<noteq> Some (Dir m))"

definition no_file_at :: "path \<Rightarrow> store_view \<Rightarrow> bool" where
  "no_file_at p V \<longleftrightarrow> (\<forall>m c. V p \<noteq> Some (Reg m c))"

definition no_orphans :: "path \<Rightarrow> store_view \<Rightarrow> bool" where
  "no_orphans p V \<longleftrightarrow> (V p = None \<longrightarrow> (\<forall>q. V (p @ q) = None))"

text \<open>The shape of a store directory that every program run assumes and keeps.\<close>

definition layout :: "path \<Rightarrow> store_view \<Rightarrow> bool" where
  "layout root V \<longleftrightarrow> root_dirs root V \<and> no_dir_at (guardFilePath root) V \<and> no_dir_at (dataFilePath root) V
     \<and> no_dir_at (LockPath root) V
     \<and> no_file_at (emailsPath root) V \<and> no_orphans (emailsPath root) V \<and> no_orphans (resetStagingPath root) V"

definition sentinel_at :: "path \<Rightarrow> IMAPIdentity \<Rightarrow> gotime \<Rightarrow> internalSentinelFile \<Rightarrow> store_view \<Rightarrow> bool" where
  "sentinel_at root ident t0 s V \<longleftrightarrow> (\<exists>m. V (sentinelPath root) = Some (Reg m (CSentinel s)))
     \<and> FormatVersion s = SentinelFormatVersion \<and> sentinel_identity s = ident \<and> InitializedAt s = t0"

definition manifest_at :: "path \<Rightarrow> int \<Rightarrow> u32 \<Rightarrow> store_view \<Rightarrow> bool" where
  "manifest_at root phase currV V \<longleftrightarrow> (\<exists>m. V (resetManifestPath root) = Some (Reg m (CManifest
     \<lparr>manifest_Version = resetManifestVersion, manifest_CurrUIDValidity = currV, manifest_Phase = phase\<rparr>)))"

definition staging_ready :: "path \<Rightarrow> store_view \<Rightarrow> bool" where
  "staging_ready root V \<longleftrightarrow> no_file_at (resetStagingPath root) V
     \<and> no_dir_at (resetStagingPath root @ [''tlsrpt.json'']) V
     \<and> (V (emailsPath root) \<noteq> None \<longrightarrow> V (resetStagingPath root @ [''emails'']) = None)"

definition old_gone :: "path \<Rightarrow> store_view \<Rightarrow> bool" where
  "old_gone root V \<longleftrightarrow> V (dataFilePath root) = None \<and> (\<forall>q. V (emailsPath root @ q) = None)"

definition pending :: "u32 \<Rightarrow> internalSentinelFile \<Rightarrow> bool" where
  "pending currV s \<longleftrightarrow> (\<exists>rs. RecoveryRequired s = Some rs \<and> CurrUIDValidity rs = currV)"

definition committed :: "u32 \<Rightarrow> internalSentinelFile \<Rightarrow> bool" where
  "committed currV s \<longleftrightarrow> RecoveryRequired s = None \<and> UIDValidity s = Some currV"

lemma committed_recovered: "committed currV s \<Longrightarrow> RecoveryRequired s = None"
  by (simp add: committed_def)

text \<open>Recovery required, with no manifest or with the manifest of the running reset.\<close>

definition unstarted :: "path \<Rightarrow> IMAPIdentity \<Rightarrow> gotime \<Rightarrow> u32 \<Rightarrow> store_view \<Rightarrow> bool" where
  "unstarted root ident t0 currV V \<longleftrightarrow> layout root V \<and> V (resetManifestPath root) = None
     \<and> (\<exists>s. sentinel_at root ident t0 s V \<and> pending currV s)"

text \<open>A manifest of phase 1: files are being staged, or the commit has reached the sentinel and not the manifest.\<close>

definition started :: "path \<Rightarrow> IMAPIdentity \<Rightarrow> gotime \<Rightarrow> u32 \<Rightarrow> store_view \<Rightarrow> bool" where
  "started root ident t0 currV V \<longleftrightarrow> layout root V \<and> manifest_at root resetPhaseManifestWritten currV V
     \<and> staging_ready root V
     \<and> (\<exists>s. sentinel_at root ident t0 s V \<and> (pending currV s \<or> RecoveryRequired s = None))"

definition reset_done :: "path \<Rightarrow> IMAPIdentity \<Rightarrow> gotime \<Rightarrow> u32 \<Rightarrow> store_view \<Rightarrow> bool" where
  "reset_done root ident t0 currV V \<longleftrightarrow> layout root V \<and> old_gone root V
     \<and> (V (resetManifestPath root) = None \<or> manifest_at root resetPhaseCommitted currV V)
     \<and> (\<exists>s. sentinel_at root ident t0 s V \<and> committed currV s)"

definition reset_inv :: "path \<Rightarrow> IMAPIdentity \<Rightarrow> gotime \<Rightarrow> u32 \<Rightarrow> store_view \<Rightarrow> bool" where
  "reset_inv root ident t0 currV V \<longleftrightarrow>
     unstarted root ident t0 currV V \<or> started root ident t0 currV V \<or> reset_done root ident t0 currV V"

lemmas reset_state_defs = layout_def sentinel_at_def manifest_at_def staging_ready_def old_gone_def
  unstarted_def started_def reset_done_def no_dir_at_def no_file_at_def

section \<open>Views of the store directory after an update below it\<close>

lemma manifest_path_neq [simp]:
  "resetManifestPath root \<noteq> resetStagingPath root" "resetStagingPath root \<noteq> resetManifestPath root"
  "resetStagingPath root @ q \<noteq> resetManifestPath root" "guardFilePath root \<noteq> resetManifestPath root"
  "resetManifestPath root \<noteq> guardFilePath root" "emailsPath root \<noteq> resetManifestPath root"
  by (simp_all add: store_path_defs)

lemma apart_append:
  "\<not> prefix p r \<Longrightarrow> p @ q \<noteq> r" "\<not> prefix p r \<Longrightarrow> \<not> prefix r p \<Longrightarrow> \<not> prefix r (p @ q)"
  using prefix_same_cases [of r "p @ q" p] by auto

lemma no_orphans_upd:
  "\<not> prefix p r \<Longrightarrow> no_orphans p (V(r := n)) = no_orphans p V"
  "no_orphans p (V(p \<mapsto> x))"
  "V p \<noteq> None \<Longrightarrow> p \<noteq> r \<Longrightarrow> no_orphans p (V(r := n))"
  "no_orphans p (v_del_tree p V)"
  "\<not> prefix p r \<Longrightarrow> \<not> prefix r p \<Longrightarrow> no_orphans p (v_del_tree r V) = no_orphans p V"
  "no_orphans p V \<Longrightarrow> no_orphans p (v_del_some p ps V)"
  "\<not> prefix p r \<Longrightarrow> \<not> prefix r p \<Longrightarrow> no_orphans p (v_del_some r ps V) = no_orphans p V"
  "\<not> prefix old p \<Longrightarrow> \<not> prefix new p \<Longrightarrow> V p \<noteq> None \<Longrightarrow> no_orphans p (v_move old new V)"
  "\<not> prefix new p \<Longrightarrow> \<not> prefix p new \<Longrightarrow> no_orphans p (v_move p new V)"
  using apart_append(1) [of p r "[]"]
  by (simp_all add: no_orphans_def v_del_tree_def v_del_some_def v_move_def strict_prefix_def apart_append)
    (elim exE, simp)+

lemma root_dirs_upd [simp]:
  "root_dirs root (V(root @ x # xs := n)) = root_dirs root V"
  "root_dirs root (v_del_tree (root @ x # xs) V) = root_dirs root V"
  "root_dirs root (v_del_some (root @ x # xs) ps V) = root_dirs root V"
  by (auto simp: root_dirs_def v_del_tree_def v_del_some_def strict_prefix_def prefix_def)

lemma root_dirs_move [simp]:
  "root_dirs root (v_move (root @ x # xs) (root @ y # ys) V) = root_dirs root V"
  by (auto simp: root_dirs_def v_move_def prefix_def)

lemma root_dirs_mkdirs [intro]: "root_dirs root V \<Longrightarrow> root_dirs root (v_mkdirs m ps V)"
  by (fastforce simp: root_dirs_def v_mkdirs_def)

lemma root_dirsD: "root_dirs root V \<Longrightarrow> \<exists>m. V root = Some (Dir m)"
  by (auto simp: root_dirs_def)

lemma root_dirs_absent [simp]:
  assumes "root_dirs root V"
  shows "v_absent_errno V (root @ [x]) = ENOENT"
proof -
  have "\<not> file_at V q" if "strict_prefix q (root @ [x])" for q
  proof -
    have "prefix q root" using that by (auto simp: strict_prefix_def prefix_snoc)
    then show ?thesis using assms by (auto simp: root_dirs_def file_at_def)
  qed
  then show ?thesis by (auto simp: v_absent_errno_def)
qed

lemma root_dirs_no_file:
  assumes "root_dirs root V" "no_file_at (root @ [x]) V" "prefix q (root @ [x])"
  shows "\<not> file_at V q"
proof (cases "q = root @ [x]")
  case True
  with assms(2) show ?thesis by (auto simp: file_at_def no_file_at_def is_dir_def split: option.splits node.splits)
next
  case False
  with assms(3) have "prefix q root" by (auto simp: prefix_snoc)
  then show ?thesis using assms(1) by (auto simp: root_dirs_def file_at_def)
qed

lemma writable_below [simp]:
  "root_dirs root V \<Longrightarrow> writable (root @ [x]) V \<longleftrightarrow> no_dir_at (root @ [x]) V"
  by (auto simp: writable_def no_dir_at_def dest: root_dirsD)

section \<open>The reset, function by function\<close>

text \<open>An error or a crash happens only in a disturbed run, and leaves \<open>J\<close>.\<close>

definition disturbed :: "bool \<Rightarrow> (store_view \<Rightarrow> bool) \<Rightarrow> store_view \<Rightarrow> bool" where
  "disturbed calm J V \<longleftrightarrow> \<not> calm \<and> J V"

lemma disturbedI [intro]: "\<not> calm \<Longrightarrow> J V \<Longrightarrow> disturbed calm J V"
  by (simp add: disturbed_def)

lemma vwp_stageDataFile:
  assumes "clean root" "layout root V" "V (resetStagingPath root) = Some (Dir d)" "staging_ready root V"
    "V (dataFilePath root) = None \<Longrightarrow> Q () V"
    "\<And>m c. V (dataFilePath root) = Some (Reg m c) \<Longrightarrow>
       Q () (V(dataFilePath root := None, resetStagingPath root @ [''tlsrpt.json''] \<mapsto> Reg m c))"
    "\<And>e. \<not> calm \<Longrightarrow> E e V" "\<not> calm \<Longrightarrow> C V"
  shows "vwp calm (stageDataFile root (resetStagingPath root)) Q E C V"
  unfolding stageDataFile_def
  apply (rule vc)+
     apply (simp add: store_path_defs assms(1))
  subgoal for n
    using assms(2,4) by (cases n; simp add: layout_def no_dir_at_def no_file_at_def)
      (rule vc, rule vwp_rename_file; use assms in \<open>simp add: store_path_defs staging_ready_def no_dir_at_def\<close>)
  subgoal
    using assms(2,5) by (auto intro!: vc simp: is_not_exist_def store_path_defs layout_def)
  subgoal
    using assms(7,8) by (auto intro!: vc simp: is_not_exist_def)
  done

lemma vwp_stageEmailsDir:
  assumes "clean root" "layout root V" "V (resetStagingPath root) = Some (Dir d)" "staging_ready root V"
    "V (emailsPath root) = None \<Longrightarrow> Q () V"
    "\<And>m. V (emailsPath root) = Some (Dir m) \<Longrightarrow> Q () (v_move (emailsPath root) (resetStagingPath root @ [''emails'']) V)"
    "\<And>e. \<not> calm \<Longrightarrow> E e V" "\<not> calm \<Longrightarrow> C V"
  shows "vwp calm (stageEmailsDir root (resetStagingPath root)) Q E C V"
  unfolding stageEmailsDir_def
  apply (rule vc)+
     apply (simp add: store_path_defs assms(1))
  subgoal for n
    using assms(2,4) by (cases n; simp add: layout_def no_dir_at_def no_file_at_def)
      (rule vc, rule vwp_rename_dir; use assms in \<open>simp add: store_path_defs staging_ready_def no_dir_at_def\<close>)
  subgoal
    using assms(2,5) by (auto intro!: vc simp: is_not_exist_def store_path_defs layout_def)
  subgoal
    using assms(7,8) by (auto intro!: vc simp: is_not_exist_def)
  done

lemma guard_upd:
  "layout root V \<Longrightarrow> layout root (V(guardFilePath root \<mapsto> Reg m c))"
  "sentinel_at root ident t0 s (V(guardFilePath root \<mapsto> Reg m c)) = sentinel_at root ident t0 s V"
  "manifest_at root p curr' (V(guardFilePath root \<mapsto> Reg m c)) = manifest_at root p curr' V"
  "staging_ready root (V(guardFilePath root \<mapsto> Reg m c)) = staging_ready root V"
  "old_gone root (V(guardFilePath root \<mapsto> Reg m c)) = old_gone root V"
  "(V(guardFilePath root \<mapsto> Reg m c)) (resetManifestPath root) = V (resetManifestPath root)"
  by (auto simp: reset_state_defs store_path_defs no_orphans_upd)

lemma sentinel_upd:
  "layout root V \<Longrightarrow> layout root (V(sentinelPath root \<mapsto> Reg m c))"
  "manifest_at root p curr' (V(sentinelPath root \<mapsto> Reg m c)) = manifest_at root p curr' V"
  "staging_ready root (V(sentinelPath root \<mapsto> Reg m c)) = staging_ready root V"
  "old_gone root (V(sentinelPath root \<mapsto> Reg m c)) = old_gone root V"
  by (auto simp: reset_state_defs store_path_defs no_orphans_upd)

lemma manifest_upd:
  "layout root V \<Longrightarrow> layout root (V(resetManifestPath root := n))"
  "sentinel_at root ident t0 s (V(resetManifestPath root := n)) = sentinel_at root ident t0 s V"
  "staging_ready root (V(resetManifestPath root := n)) = staging_ready root V"
  "old_gone root (V(resetManifestPath root := n)) = old_gone root V"
  by (auto simp: reset_state_defs store_path_defs no_orphans_upd)

lemma started_guard [simp]: "started root ident t0 cv V \<Longrightarrow> started root ident t0 cv (V(guardFilePath root \<mapsto> Reg m c))"
  by (auto simp: started_def guard_upd)

lemma layoutD:
  assumes "layout root V"
  shows "root_dirs root V" "\<exists>m. V root = Some (Dir m)" "V (guardFilePath root) \<noteq> Some (Dir m)"
  using assms root_dirsD by (auto simp: layout_def no_dir_at_def)

lemma startedD: "started root ident t0 cv V \<Longrightarrow> layout root V" "started root ident t0 cv V \<Longrightarrow> reset_inv root ident t0 cv V"
  by (auto simp: started_def reset_inv_def)

abbreviation reset_store :: "path \<Rightarrow> IMAPIdentity \<Rightarrow> fileStore" where
  "reset_store root ident \<equiv> newFileStore root ident OpenRecoverReset"

lemma vwp_commitReset:
  assumes "clean root" "started root ident t0 cv V" "old_gone root V"
  shows "vwp calm (commitReset (reset_store root ident) (resetManifestPath root) cv)
    (\<lambda>_. reset_done root ident t0 cv) (\<lambda>_. disturbed calm (reset_inv root ident t0 cv)) (disturbed calm (reset_inv root ident t0 cv)) V"
proof -
  let ?J = "reset_inv root ident t0 cv"
  let ?M = "\<lparr>manifest_Version = resetManifestVersion, manifest_CurrUIDValidity = cv, manifest_Phase = resetPhaseCommitted\<rparr>"
  have body: "vwp calm (bindIO (wrapErr ''commitReset: load sentinel'' (loadOrInitSentinelForWrite (reset_store root ident))) (\<lambda>sentinel.
       bindIO (wrapErr ''commitReset: save sentinel'' (saveSentinel root
         (sentinel\<lparr>UIDValidity := Some cv, RecoveryRequired := None\<rparr>))) (\<lambda>_. writeResetManifest (resetManifestPath root) ?M)))
     (\<lambda>_. reset_done root ident t0 cv) (\<lambda>_. disturbed calm ?J) (disturbed calm ?J) V'"
    if V': "started root ident t0 cv V'" "old_gone root V'" for V'
  proof -
    obtain x m where x: "V' (sentinelPath root) = Some (Reg m (CSentinel x))" "FormatVersion x = SentinelFormatVersion"
      "sentinel_identity x = ident" "InitializedAt x = t0" and l: "layout root V'" "manifest_at root resetPhaseManifestWritten cv V'"
      using V'(1) by (auto simp: started_def sentinel_at_def)
    define y where "y = x\<lparr>UIDValidity := Some cv, RecoveryRequired := None\<rparr>"
    define V1 where "V1 = V'(sentinelPath root \<mapsto> Reg 384 (CSentinel y))"
    define V2 where "V2 = V1(resetManifestPath root \<mapsto> Reg 384 (CManifest ?M))"
    have y: "sentinel_at root ident t0 y V1" "committed cv y"
      using x by (auto simp: y_def V1_def sentinel_at_def committed_def sentinel_identity_def)
    have st: "started root ident t0 cv V1"
      unfolding started_def using V'(1) y l committed_recovered [OF y(2)] by (intro conjI exI [of _ y]) (simp_all add: started_def V1_def sentinel_upd)
    have w: "writable (sentinelPath root) V'" "writable (resetManifestPath root) V1"
      using l x by (auto simp: layout_def no_dir_at_def manifest_at_def store_path_defs V1_def)
    have d: "reset_done root ident t0 cv V2"
      using V' y l by (auto simp: reset_done_def V2_def V1_def sentinel_upd manifest_upd) (auto simp: manifest_at_def)
    have J: "?J V'" "?J V1" "?J V2" using V' st d by (auto simp: reset_inv_def)
    have save: "vwp calm (writeResetManifest (resetManifestPath root) ?M)
        (\<lambda>_. reset_done root ident t0 cv) (\<lambda>_. disturbed calm ?J) (disturbed calm ?J) V1"
      by (rule vc) (use assms(1) w(2) d J in \<open>auto simp: V2_def store_path_defs\<close>)
    show ?thesis
      apply (rule vc)+
       apply (simp add: assms(1))
      subgoal for m' z
        apply (rule vc)+
        using assms(1) x w(1) save J by (auto simp: V1_def y_def)
      subgoal using x by simp
      subgoal using x J by auto
      subgoal using J by auto
      done
  qed
  show ?thesis
    unfolding commitReset_def
    by (rule vwp_withGuardExclusive)
      (use assms layoutD [OF startedD(1) [OF assms(2)]] in \<open>auto intro!: body disturbedI startedD(2) simp: guard_upd\<close>)
qed

lemma mkdirs_staging:
  assumes "root_dirs root V" "set ps \<subseteq> set (prefixes (resetStagingPath root))"
  shows "v_mkdirs m ps V = (if V (resetStagingPath root) = None \<and> resetStagingPath root \<in> set ps
    then V(resetStagingPath root \<mapsto> Dir m) else V)"
proof
  fix q
  show "v_mkdirs m ps V q = (if V (resetStagingPath root) = None \<and> resetStagingPath root \<in> set ps
      then V(resetStagingPath root \<mapsto> Dir m) else V) q"
  proof (cases "q \<in> set ps \<and> q \<noteq> resetStagingPath root")
    case True
    then have "prefix q root" using assms(2) by (auto simp: store_path_defs prefix_snoc)
    then show ?thesis using assms(1) True by (auto simp: root_dirs_def v_mkdirs_def)
  next
    case False
    then show ?thesis by (cases "q = resetStagingPath root"; cases "V q"; simp add: v_mkdirs_def)
  qed
qed

lemma vwp_mkdir_staging:
  assumes "clean root" "layout root V" "no_file_at (resetStagingPath root) V"
    "\<And>V'. V' = V \<and> V (resetStagingPath root) \<noteq> None \<or> V' = V(resetStagingPath root \<mapsto> Dir dirPerm) \<and> V (resetStagingPath root) = None
      \<Longrightarrow> Q () V'"
    "\<And>V' e. \<not> calm \<Longrightarrow> V' = V \<or> V' = V(resetStagingPath root \<mapsto> Dir dirPerm) \<and> V (resetStagingPath root) = None \<Longrightarrow> E e V' \<and> C V'"
  shows "vwp calm (mkdirAll (resetStagingPath root) dirPerm) Q E C V"
proof (rule vwp_mkdirAll, goal_cases)
  case 1
  show ?case by (simp add: store_path_defs assms(1))
next
  case 2
  show ?case using assms(4) by (simp add: mkdirs_staging [OF layoutD(1) [OF assms(2)]])
next
  case 3
  then show ?case using root_dirs_no_file [OF layoutD(1) [OF assms(2)]] assms(3) by (auto simp: store_path_defs)
next
  case (4 ps)
  have "set (filter (\<lambda>q. q \<in> set ps) (prefixes (resetStagingPath root))) \<subseteq> set (prefixes (resetStagingPath root))" by auto
  from mkdirs_staging [OF layoutD(1) [OF assms(2)] this, of dirPerm] assms(5) [OF 4]
  show ?case by (simp add: Let_def del: set_filter)
qed

lemma started_mkdir: "started root ident t0 cv V \<Longrightarrow> V (resetStagingPath root) = None \<Longrightarrow> started root ident t0 cv (V(resetStagingPath root \<mapsto> Dir m))"
  by (auto simp: reset_state_defs store_path_defs no_orphans_upd)

lemma started_stage_data:
  "started root ident t0 cv V \<Longrightarrow> V (resetStagingPath root) \<noteq> None \<Longrightarrow> started root ident t0 cv (V(dataFilePath root := None, resetStagingPath root @ [''tlsrpt.json''] \<mapsto> Reg m c))"
  by (auto simp: reset_state_defs store_path_defs no_orphans_upd)

lemma old_goneI: "layout root V \<Longrightarrow> V (dataFilePath root) = None \<Longrightarrow> V (emailsPath root) = None \<Longrightarrow> old_gone root V"
  by (simp add: old_gone_def layout_def no_orphans_def)

lemma move_emails:
  fixes root :: path and V :: store_view
  defines "V' \<equiv> v_move (emailsPath root) (resetStagingPath root @ [''emails'']) V"
  shows "\<not> prefix (emailsPath root) p \<Longrightarrow> \<not> prefix (resetStagingPath root @ [''emails'']) p \<Longrightarrow> V' p = V p"
    and "V' (emailsPath root @ q) = None"
  by (simp_all add: V'_def v_move_def store_path_defs)

lemma started_stage_emails:
  assumes "started root ident t0 cv V" "V (dataFilePath root) = None" "V (resetStagingPath root) \<noteq> None"
  defines "V' \<equiv> v_move (emailsPath root) (resetStagingPath root @ [''emails'']) V"
  shows "started root ident t0 cv V'" "old_gone root V'"
proof -
  have same: "V' (sentinelPath root) = V (sentinelPath root)" "V' (resetManifestPath root) = V (resetManifestPath root)"
    "V' (dataFilePath root) = V (dataFilePath root)" "V' (guardFilePath root) = V (guardFilePath root)"
    "V' (LockPath root) = V (LockPath root)"
    "V' (resetStagingPath root) = V (resetStagingPath root)"
    "V' (resetStagingPath root @ [''tlsrpt.json'']) = V (resetStagingPath root @ [''tlsrpt.json''])"
    unfolding V'_def by (rule move_emails(1); simp add: store_path_defs)+
  have gone: "V' (emailsPath root @ q) = None" "V' (emailsPath root) = None" for q
    using move_emails(2) [of root V q] move_emails(2) [of root V "[]"] by (simp_all add: V'_def)
  show og: "old_gone root V'"
    using assms(2) by (simp add: old_gone_def same gone)
  have "root_dirs root V'" using assms(1) by (simp add: V'_def store_path_defs started_def layout_def)
  then have "layout root V'"
    using assms(1,3) by (simp add: started_def layout_def no_dir_at_def no_file_at_def same gone no_orphans_def) (elim exE, simp)
  then show "started root ident t0 cv V'"
    using assms(1) og by (simp add: started_def sentinel_at_def manifest_at_def staging_ready_def no_dir_at_def no_file_at_def same gone)
qed

lemma vwp_advanceResetPhases:
  assumes "clean root" "started root ident t0 cv V"
  shows "vwp calm (advanceResetPhases (reset_store root ident) cv (resetStagingPath root) (resetManifestPath root))
    (\<lambda>_. reset_done root ident t0 cv) (\<lambda>_. disturbed calm (reset_inv root ident t0 cv)) (disturbed calm (reset_inv root ident t0 cv)) V"
proof -
  let ?J = "reset_inv root ident t0 cv"
  have emails: "vwp calm (stageEmailsDir root (resetStagingPath root))
      (\<lambda>_ V'. started root ident t0 cv V' \<and> old_gone root V') (\<lambda>_. disturbed calm ?J) (disturbed calm ?J) V'"
    if V': "started root ident t0 cv V'" "V' (resetStagingPath root) = Some (Dir m)" "V' (dataFilePath root) = None" for V' m
    by (rule vwp_stageEmailsDir [OF assms(1) startedD(1) [OF V'(1)] V'(2)])
      (use V' started_stage_emails [OF V'(1,3)] startedD [OF V'(1)] in \<open>auto intro: old_goneI simp: started_def\<close>)
  have data: "vwp calm (stageDataFile root (resetStagingPath root))
      (\<lambda>_ V'. started root ident t0 cv V' \<and> V' (resetStagingPath root) = Some (Dir m) \<and> V' (dataFilePath root) = None)
      (\<lambda>_. disturbed calm ?J) (disturbed calm ?J) V'"
    if V': "started root ident t0 cv V'" "V' (resetStagingPath root) = Some (Dir m)" for V' m
    by (rule vwp_stageDataFile [OF assms(1) startedD(1) [OF V'(1)] V'(2)])
      (use V' started_stage_data [OF V'(1)] startedD(2) [OF V'(1)] in \<open>auto simp: store_path_defs, auto simp: started_def\<close>)
  have rest: "vwp calm (bindIO (wrapErr ''advanceResetPhases: stage data file'' (stageDataFile root (resetStagingPath root))) (\<lambda>_.
     bindIO (wrapErr ''advanceResetPhases: stage emails dir'' (stageEmailsDir root (resetStagingPath root))) (\<lambda>_.
     wrapErr ''advanceResetPhases: commit'' (commitReset (reset_store root ident) (resetManifestPath root) cv))))
     (\<lambda>_. reset_done root ident t0 cv) (\<lambda>_. disturbed calm ?J) (disturbed calm ?J) V'"
    if V': "started root ident t0 cv V'" "V' (resetStagingPath root) = Some (Dir m)" for V' m
  proof ((rule vwp_bind vwp_mapErr)+, rule vwp_conseq [OF data [OF V']], goal_cases)
    case (1 a V1)
    then show ?case
      by (intro vwp_bind vwp_mapErr vwp_conseq [OF emails]) (auto intro!: vwp_mapErr vwp_commitReset [OF assms(1)])
  qed auto
  have nf: "no_file_at (resetStagingPath root) V" using assms(2) by (simp add: started_def staging_ready_def)
  then have dir: "V (resetStagingPath root) \<noteq> None \<Longrightarrow> \<exists>m. V (resetStagingPath root) = Some (Dir m)"
    by (cases "the (V (resetStagingPath root))") (auto simp: no_file_at_def)
  show ?thesis
    unfolding advanceResetPhases_def newFileStore_simps
    apply (rule vwp_bind, rule vwp_mapErr, rule vwp_mkdir_staging [OF assms(1) startedD(1) [OF assms(2)] nf])
    subgoal for V' using assms(2) dir rest by (cases "V (resetStagingPath root)") (auto intro!: rest started_mkdir)
    subgoal for V' using assms(2) startedD(2) started_mkdir [OF assms(2)] by blast
    done
qed

lemma staging_upd:
  "layout root V \<Longrightarrow> layout root (v_del_tree (resetStagingPath root) V)"
  "layout root V \<Longrightarrow> layout root (v_del_some (resetStagingPath root) ps V)"
  "layout root V \<Longrightarrow> layout root (V(resetStagingPath root \<mapsto> Dir m))"
  "sentinel_at root ident t0 s (v_del_tree (resetStagingPath root) V) = sentinel_at root ident t0 s V"
  "sentinel_at root ident t0 s (v_del_some (resetStagingPath root) ps V) = sentinel_at root ident t0 s V"
  "sentinel_at root ident t0 s (V(resetStagingPath root := n)) = sentinel_at root ident t0 s V"
  "v_del_tree (resetStagingPath root) V (resetManifestPath root) = V (resetManifestPath root)"
  "v_del_some (resetStagingPath root) ps V (resetManifestPath root) = V (resetManifestPath root)"
  "(V(resetStagingPath root := n)) (resetManifestPath root) = V (resetManifestPath root)"
  "old_gone root V \<Longrightarrow> old_gone root (v_del_tree (resetStagingPath root) V)"
  "old_gone root V \<Longrightarrow> old_gone root (v_del_some (resetStagingPath root) ps V)"
  "v_del_tree (resetStagingPath root) V (resetStagingPath root @ q) = None"
  by (auto simp: reset_state_defs store_path_defs no_orphans_upd) (auto simp: v_del_tree_def v_del_some_def strict_prefix_def)

lemma manifest_at_staging:
  "manifest_at root p cv (v_del_tree (resetStagingPath root) V) = manifest_at root p cv V"
  "manifest_at root p cv (v_del_some (resetStagingPath root) ps V) = manifest_at root p cv V"
  by (simp_all add: manifest_at_def staging_upd)

lemma reset_done_staging:
  assumes "reset_done root ident t0 cv V"
  shows "reset_done root ident t0 cv (v_del_tree (resetStagingPath root) V)"
    "reset_done root ident t0 cv (v_del_some (resetStagingPath root) ps V)"
    "reset_done root ident t0 cv (V(resetManifestPath root := None))"
  using assms by (auto simp: reset_done_def staging_upd manifest_upd manifest_at_staging)

lemma reset_doneD: "reset_done root ident t0 cv V \<Longrightarrow> layout root V" "reset_done root ident t0 cv V \<Longrightarrow> reset_inv root ident t0 cv V"
  by (auto simp: reset_done_def reset_inv_def)

lemma vwp_executeResetFromManifest:
  assumes "clean root" "started root ident t0 cv V" "manifest_CurrUIDValidity x = cv"
  shows "vwp calm (executeResetFromManifest (reset_store root ident) x (resetStagingPath root) (resetManifestPath root))
    (\<lambda>_ V'. reset_done root ident t0 cv V' \<and> V' (resetManifestPath root) = None \<and> (calm \<longrightarrow> (\<forall>q. V' (resetStagingPath root @ q) = None)))
    (\<lambda>_. disturbed calm (reset_inv root ident t0 cv)) (disturbed calm (reset_inv root ident t0 cv)) V"
proof -
  let ?J = "reset_inv root ident t0 cv"
  have rm: "vwp calm (removeIfExists ctx (resetManifestPath root))
      (\<lambda>_ V'. reset_done root ident t0 cv V' \<and> V' (resetManifestPath root) = None \<and> (calm \<longrightarrow> (\<forall>q. V' (resetStagingPath root @ q) = None)))
      (\<lambda>_. disturbed calm ?J) (disturbed calm ?J) V'"
    if V': "reset_done root ident t0 cv V'" "calm \<longrightarrow> (\<forall>q. V' (resetStagingPath root @ q) = None)" for V' ctx
    apply (rule vwp_removeIfExists)
         apply (simp add: store_path_defs assms(1))
    using V' reset_done_staging [OF V'(1)] reset_doneD [OF V'(1)] layoutD [OF reset_doneD(1) [OF V'(1)]]
    by (auto simp: store_path_defs) (auto simp: reset_done_def manifest_at_def store_path_defs)
  show ?thesis
    unfolding executeResetFromManifest_def assms(3)
    apply (rule vwp_bind, rule vwp_conseq [OF vwp_advanceResetPhases [OF assms(1,2)]])
      apply (rule vwp_bind, rule vwp_bestEffort, rule vwp_removeAll)
    subgoal by (auto intro!: rm reset_done_staging staging_upd)
    subgoal by (intro conjI rm disturbedI reset_doneD(2) reset_done_staging) simp_all
    by auto
qed

text \<open>The sentinel is readable in every state of the reset.\<close>

lemma vwp_load_at:
  assumes "clean root" "sentinel_at root ident t0 s V" "Q (Some s) V" "\<And>e. \<not> calm \<Longrightarrow> E e V" "\<not> calm \<Longrightarrow> C V"
  shows "vwp calm (loadSentinel root) Q E C V"
  by (rule vwp_loadSentinel) (use assms in \<open>auto simp: sentinel_at_def\<close>)

lemma vwp_LoadRecoveryRequired:
  assumes "clean (rootDir st)" "sentinel_at (rootDir st) ident t0 s V"
    "Q (map_option (\<lambda>rs. (PrevUIDValidity rs, CurrUIDValidity rs, DetectedAt rs)) (RecoveryRequired s)) V"
    "\<And>e. \<not> calm \<Longrightarrow> E e V" "\<not> calm \<Longrightarrow> C V"
  shows "vwp calm (LoadRecoveryRequired st) Q E C V"
  unfolding LoadRecoveryRequired_def
  by (rule vwp_bind, rule vwp_mapErr, rule vwp_load_at [OF assms(1,2)]) (use assms in \<open>auto intro!: vc\<close>)

definition fresh_staging :: "path \<Rightarrow> store_view \<Rightarrow> bool" where
  "fresh_staging root V \<longleftrightarrow> no_file_at (resetStagingPath root) V \<and> (\<forall>x q. V (resetStagingPath root @ x # q) = None)"

lemma unstarted_staging:
  assumes "unstarted root ident t0 cv V"
  shows "unstarted root ident t0 cv (v_del_tree (resetStagingPath root) V)"
    "unstarted root ident t0 cv (v_del_some (resetStagingPath root) ps V)"
    "unstarted root ident t0 cv (V(resetStagingPath root \<mapsto> Dir m))"
    "fresh_staging root (v_del_tree (resetStagingPath root) V)"
    "fresh_staging root V \<Longrightarrow> fresh_staging root (V(resetStagingPath root \<mapsto> Dir m))"
    "fresh_staging root V \<Longrightarrow> started root ident t0 cv (V(resetManifestPath root \<mapsto> Reg p (CManifest
       \<lparr>manifest_Version = resetManifestVersion, manifest_CurrUIDValidity = cv, manifest_Phase = resetPhaseManifestWritten\<rparr>)))"
  using assms
  by (auto simp: unstarted_def started_def staging_upd manifest_upd fresh_staging_def no_file_at_def no_dir_at_def
      staging_ready_def manifest_at_def v_del_tree_def)

lemma unstartedD: "unstarted root ident t0 cv V \<Longrightarrow> layout root V" "unstarted root ident t0 cv V \<Longrightarrow> reset_inv root ident t0 cv V"
  by (auto simp: unstarted_def reset_inv_def)

lemma vwp_initResetManifest:
  assumes "clean root" "unstarted root ident t0 cv V"
  shows "vwp calm (initResetManifest (reset_store root ident) cv (resetStagingPath root) (resetManifestPath root))
    (\<lambda>x V'. started root ident t0 cv V' \<and> manifest_CurrUIDValidity x = cv)
    (\<lambda>_. disturbed calm (reset_inv root ident t0 cv)) (disturbed calm (reset_inv root ident t0 cv)) V"
proof -
  let ?J = "reset_inv root ident t0 cv"
  let ?Q = "\<lambda>x V'. started root ident t0 cv V' \<and> manifest_CurrUIDValidity x = cv"
  let ?M = "\<lparr>manifest_Version = resetManifestVersion, manifest_CurrUIDValidity = cv, manifest_Phase = resetPhaseManifestWritten\<rparr>"
  obtain s rs where s: "sentinel_at root ident t0 s V" "RecoveryRequired s = Some rs" "CurrUIDValidity rs = cv"
    using assms(2) by (auto simp: unstarted_def pending_def)
  have wr: "vwp calm (bindIO (wrapErr ''ResetForRecovery: write manifest'' (writeResetManifest (resetManifestPath root) ?M)) (\<lambda>_. ret ?M))
      ?Q (\<lambda>_. disturbed calm ?J) (disturbed calm ?J) V'"
    if V': "unstarted root ident t0 cv V'" "fresh_staging root V'" for V'
  proof -
    have "writable (resetManifestPath root) V'"
      using V'(1) layoutD(1) [OF unstartedD(1) [OF V'(1)]] by (simp add: unstarted_def store_path_defs no_dir_at_def)
    with unstarted_staging(6) [OF V'] unstartedD(2) [OF V'(1)] startedD(2) show ?thesis
      by (intro vwp_bind vwp_mapErr vwp_writeResetManifest vwp_ret) (auto simp: assms(1) store_path_defs)
  qed
  have mk: "vwp calm (bindIO (wrapErr ''ResetForRecovery: create staging dir'' (mkdirAll (resetStagingPath root) dirPerm)) (\<lambda>_.
      bindIO (wrapErr ''ResetForRecovery: write manifest'' (writeResetManifest (resetManifestPath root) ?M)) (\<lambda>_. ret ?M)))
      ?Q (\<lambda>_. disturbed calm ?J) (disturbed calm ?J) V'"
    if V': "unstarted root ident t0 cv V'" "fresh_staging root V'" for V'
    apply (rule vwp_bind, rule vwp_mapErr, rule vwp_mkdir_staging [OF assms(1) unstartedD(1) [OF V'(1)]])
    subgoal using V'(2) by (simp add: fresh_staging_def)
    subgoal using V' wr unstarted_staging(3,5) [OF V'(1)] by blast
    subgoal using V' unstartedD(2) unstarted_staging(3) [OF V'(1)] by blast
    done
  show ?thesis
    unfolding initResetManifest_def
    apply (rule vwp_bind, rule vwp_mapErr, rule vwp_LoadRecoveryRequired)
        apply (simp add: assms(1))
       apply (simp, rule s(1))
      apply (simp add: s Let_def)
      apply (rule vwp_bind, rule vwp_mapErr, rule vwp_removeAll)
    subgoal using mk [OF unstarted_staging(1,4) [OF assms(2)]] by simp
    subgoal using unstartedD(2) [OF unstarted_staging(2) [OF assms(2)]] by auto
    using unstartedD(2) [OF assms(2)] by auto
qed

lemma vwp_startReset:
  assumes "clean root" "unstarted root ident t0 cv V"
  shows "vwp calm (startReset (reset_store root ident) cv (resetStagingPath root) (resetManifestPath root))
    (\<lambda>_ V'. reset_done root ident t0 cv V' \<and> V' (resetManifestPath root) = None \<and> (calm \<longrightarrow> (\<forall>q. V' (resetStagingPath root @ q) = None)))
    (\<lambda>_. disturbed calm (reset_inv root ident t0 cv)) (disturbed calm (reset_inv root ident t0 cv)) V"
  unfolding startReset_def
  by (rule vwp_bind, rule vwp_conseq [OF vwp_initResetManifest [OF assms]])
    (auto intro!: vwp_executeResetFromManifest [OF assms(1)])

text \<open>Reading the manifest, where it is absent or well-formed.\<close>

lemma vwp_read_absent:
  assumes "clean root" "layout root V" "V (resetManifestPath root) = None"
    "E (Wrap ''readResetManifest: read'' (OsError ENOENT)) V" "\<And>e. \<not> calm \<Longrightarrow> \<not> is_not_exist e \<Longrightarrow> E e V" "\<not> calm \<Longrightarrow> C V"
  shows "vwp calm (readResetManifest (resetManifestPath root)) Q E C V"
  by (rule vwp_readResetManifest) (use assms layoutD(1) [OF assms(2)] in \<open>auto simp: store_path_defs\<close>)

lemma vwp_read_present:
  assumes "clean root" "manifest_at root p cv V"
    "Q \<lparr>manifest_Version = resetManifestVersion, manifest_CurrUIDValidity = cv, manifest_Phase = p\<rparr> V"
    "\<And>e. \<not> calm \<Longrightarrow> \<not> is_not_exist e \<Longrightarrow> E e V" "\<not> calm \<Longrightarrow> C V"
  shows "vwp calm (readResetManifest (resetManifestPath root)) Q E C V"
  by (rule vwp_readResetManifest) (use assms in \<open>auto simp: manifest_at_def store_path_defs\<close>)

lemma phases [simp]: "resetPhaseManifestWritten \<noteq> resetPhaseCommitted" "resetPhaseCommitted \<noteq> resetPhaseManifestWritten"
  "validateManifestPhase resetPhaseManifestWritten = None" "validateManifestPhase resetPhaseCommitted = None"
  by (simp_all add: validateManifestPhase_def resetPhaseManifestWritten_def resetPhaseCommitted_def)

lemma vwp_ResetForRecovery:
  assumes "clean root" "unstarted root ident t0 cv V \<and> c = cv \<or> started root ident t0 cv V \<and> (c = cv \<or> c = 0)"
  shows "vwp calm (ResetForRecovery (reset_store root ident) c)
    (\<lambda>_ V'. reset_done root ident t0 cv V' \<and> V' (resetManifestPath root) = None \<and> (calm \<longrightarrow> (\<forall>q. V' (resetStagingPath root @ q) = None)))
    (\<lambda>_. disturbed calm (reset_inv root ident t0 cv)) (disturbed calm (reset_inv root ident t0 cv)) V"
  using assms(2)
proof
  assume u: "unstarted root ident t0 cv V \<and> c = cv"
  then have l: "layout root V" "V (resetManifestPath root) = None" "reset_inv root ident t0 cv V"
    by (auto simp: unstarted_def reset_inv_def)
  show ?thesis
    unfolding ResetForRecovery_def Let_def newFileStore_simps
    apply (simp, rule vwp_bind, rule vwp_attempt, rule vwp_read_absent [OF assms(1) l(1,2)])
    using u l(3) vwp_startReset [OF assms(1)] by (auto intro!: vwp_fail simp: is_not_exist_def)
next
  assume u: "started root ident t0 cv V \<and> (c = cv \<or> c = 0)"
  then have l: "manifest_at root resetPhaseManifestWritten cv V" "reset_inv root ident t0 cv V"
    by (auto simp: started_def reset_inv_def)
  show ?thesis
    unfolding ResetForRecovery_def Let_def newFileStore_simps
    apply (simp, rule vwp_bind, rule vwp_attempt, rule vwp_read_present [OF assms(1) l(1)])
    using u l(2) vwp_executeResetFromManifest [OF assms(1)] by (auto intro!: vwp_fail simp: is_not_exist_def)
qed

section \<open>The recover command\<close>

definition discardOld :: recoverOptions where
  "discardOld = \<lparr>RecoverMode = recoverModeDiscardOld, RecoverYes = True\<rparr>"

lemma discardOld_simps [simp]:
  "RecoverMode discardOld = recoverModeDiscardOld" "RecoverYes discardOld" "recoverStoreOpenMode discardOld = OpenRecoverReset"
  "recoverModeDiscardOld \<noteq> recoverModeKeepOld"
  by (simp_all add: discardOld_def recoverStoreOpenMode_def recoverModeDiscardOld_def recoverModeKeepOld_def)

lemma vwp_HasPendingReset_absent:
  assumes "clean root" "layout root V" "V (resetManifestPath root) = None" "Q False V" "\<And>e. \<not> calm \<Longrightarrow> E e V" "\<not> calm \<Longrightarrow> C V"
  shows "vwp calm (HasPendingReset (newFileStore root ident m)) Q E C V"
  unfolding HasPendingReset_def newFileStore_simps
  by (rule vwp_bind, rule vwp_attempt, rule vwp_read_absent [OF assms(1-3)])
    (use assms in \<open>auto intro!: vc simp: is_not_exist_def\<close>)

lemma vwp_HasPendingReset_present:
  assumes "clean root" "manifest_at root p cv V" "validateManifestPhase p = None" "Q (p \<noteq> resetPhaseCommitted) V"
    "\<And>e. \<not> calm \<Longrightarrow> E e V" "\<not> calm \<Longrightarrow> C V"
  shows "vwp calm (HasPendingReset (newFileStore root ident m)) Q E C V"
  unfolding HasPendingReset_def newFileStore_simps
  by (rule vwp_bind, rule vwp_attempt, rule vwp_read_present [OF assms(1,2)])
    (use assms in \<open>auto intro!: vc\<close>)

text \<open>The cases of a recovery run: what is checked when the reset is done, the reset itself, and the choice by the recorded state.\<close>

lemma vwp_HasPendingReset_done:
  assumes "clean root" "reset_inv root ident t0 cv V" "reset_done root ident t0 cv V"
  shows "vwp calm (HasPendingReset (reset_store root ident)) (\<lambda>b V'. \<not> b \<and> reset_done root ident t0 cv V')
    (\<lambda>_. disturbed calm (reset_inv root ident t0 cv)) (disturbed calm (reset_inv root ident t0 cv)) V"
proof (cases "V (resetManifestPath root) = None")
  case True
  then show ?thesis
    by (intro vwp_HasPendingReset_absent) (use assms reset_doneD [OF assms(3)] in auto)
next
  case False
  moreover have "V (resetManifestPath root) = None \<or> manifest_at root resetPhaseCommitted cv V"
    using assms(3) by (simp add: reset_done_def)
  ultimately have "manifest_at root resetPhaseCommitted cv V" by (elim disjE) (simp_all only: simp_thms)
  then show ?thesis
    by (rule vwp_HasPendingReset_present [OF assms(1)]) (use assms(2,3) in auto)
qed

lemma vwp_reset_code:
  assumes "clean root" "unstarted root ident t0 cv V \<and> c = cv \<or> started root ident t0 cv V \<and> (c = cv \<or> c = 0)"
  shows "vwp calm (bindIO (wrapErr ctx (ResetForRecovery (reset_store root ident) c)) (\<lambda>_. ret code))
      (\<lambda>r V'. r = code \<and> reset_done root ident t0 cv V') (\<lambda>_. disturbed calm (reset_inv root ident t0 cv)) (disturbed calm (reset_inv root ident t0 cv)) V"
  by (rule vwp_bind, rule vwp_mapErr, rule vwp_conseq [OF vwp_ResetForRecovery [OF assms]]) (auto intro!: vc)

lemma vwp_recoverRun_at:
  assumes "clean root" "reset_inv root ident t0 cv V" "sentinel_at root ident t0 s V"
    "RecoveryRequired s = None \<Longrightarrow> vwp calm (handleNoRecoveryRequired (reset_store root ident) discardOld) Q (\<lambda>_. disturbed calm (reset_inv root ident t0 cv)) (disturbed calm (reset_inv root ident t0 cv)) V"
    "\<And>rs. RecoveryRequired s = Some rs \<Longrightarrow> vwp calm (HasPendingReset (reset_store root ident)) (\<lambda>_ V'. V' = V)
       (\<lambda>_. disturbed calm (reset_inv root ident t0 cv)) (disturbed calm (reset_inv root ident t0 cv)) V"
    "\<And>rs. RecoveryRequired s = Some rs \<Longrightarrow> vwp calm (bindIO (wrapErr ''recover: reset for recovery'' (ResetForRecovery (reset_store root ident) (CurrUIDValidity rs))) (\<lambda>_. ret exitOK))
       Q (\<lambda>_. disturbed calm (reset_inv root ident t0 cv)) (disturbed calm (reset_inv root ident t0 cv)) V"
  shows "vwp calm (recoverRun (reset_store root ident) discardOld) Q (\<lambda>_. disturbed calm (reset_inv root ident t0 cv)) (disturbed calm (reset_inv root ident t0 cv)) V"
proof -
  have exec: "executeMode (reset_store root ident) discardOld c =
      (\<lambda>_. bindIO (wrapErr ''recover: reset for recovery'' (ResetForRecovery (reset_store root ident) c)) (\<lambda>_. ret exitOK))" for c
    by (simp add: executeMode_def runDiscardOld_def fun_eq_iff)
  have go: "RecoveryRequired s = Some rs \<Longrightarrow> vwp calm (bindIO (wrapErr ''recover: check pending reset'' (HasPendingReset (reset_store root ident)))
      (executeMode (reset_store root ident) discardOld (CurrUIDValidity rs))) Q (\<lambda>_. disturbed calm (reset_inv root ident t0 cv)) (disturbed calm (reset_inv root ident t0 cv)) V" for rs
    unfolding exec by (rule vwp_bind, rule vwp_mapErr, rule vwp_conseq [OF assms(5)]) (use assms(6) in auto)
  show ?thesis
    unfolding recoverRun_def
    by (rule vwp_bind, rule vwp_mapErr, rule vwp_LoadRecoveryRequired [where s = s])
      (use assms(1-4) go in \<open>auto split: option.splits\<close>)
qed

lemma vwp_recoverRun:
  assumes "clean root" "reset_inv root ident t0 cv V"
  shows "vwp calm (recoverRun (reset_store root ident) discardOld) (\<lambda>code V'. reset_done root ident t0 cv V' \<and> (\<not> reset_done root ident t0 cv V \<longrightarrow> code = exitOK))
    (\<lambda>_. disturbed calm (reset_inv root ident t0 cv)) (disturbed calm (reset_inv root ident t0 cv)) V"
proof -
  let ?Q = "\<lambda>code V'. reset_done root ident t0 cv V' \<and> (\<not> reset_done root ident t0 cv V \<longrightarrow> code = exitOK)"
  obtain s where s: "sentinel_at root ident t0 s V" and
    cases: "unstarted root ident t0 cv V \<and> pending cv s \<or> started root ident t0 cv V \<and> pending cv s
      \<or> started root ident t0 cv V \<and> RecoveryRequired s = None \<or> reset_done root ident t0 cv V \<and> committed cv s"
    using assms(2) unfolding reset_inv_def unstarted_def started_def reset_done_def by blast
  have reset: "vwp calm (bindIO (wrapErr ctx (ResetForRecovery (reset_store root ident) c)) (\<lambda>_. ret exitOK)) ?Q
      (\<lambda>_. disturbed calm (reset_inv root ident t0 cv)) (disturbed calm (reset_inv root ident t0 cv)) V"
    if "unstarted root ident t0 cv V \<and> c = cv \<or> started root ident t0 cv V \<and> (c = cv \<or> c = 0)" for c ctx
    by (rule vwp_conseq [OF vwp_reset_code [OF assms(1) that]]) auto
  note load = vwp_recoverRun_at [OF assms s]
  from cases show ?thesis
  proof (elim disjE conjE, goal_cases)
    case 1
    then show ?case
      by (intro load reset) (use assms in \<open>auto simp: pending_def unstarted_def intro!: vwp_HasPendingReset_absent\<close>)
  next
    case 2
    then show ?case
      by (intro load reset) (use assms in \<open>auto simp: pending_def started_def intro!: vwp_HasPendingReset_present [where p = resetPhaseManifestWritten and cv = cv]\<close>)
  next
    case 3
    then have at: "manifest_at root resetPhaseManifestWritten cv V" by (simp add: started_def)
    have "vwp calm (handleNoRecoveryRequired (reset_store root ident) discardOld) ?Q
        (\<lambda>_. disturbed calm (reset_inv root ident t0 cv)) (disturbed calm (reset_inv root ident t0 cv)) V"
      unfolding handleNoRecoveryRequired_def
      by (rule vwp_bind, rule vwp_mapErr, rule vwp_HasPendingReset_present [OF assms(1) at]) (use assms 3 reset [of 0] in auto)
    then show ?case by (intro load) (simp_all add: 3)
  next
    case 4
    then show ?case
      using vwp_HasPendingReset_done [OF assms 4(1), of calm]
      by (intro load) (auto simp: committed_def handleNoRecoveryRequired_def intro!: vwp_bind vwp_mapErr vwp_ret elim!: vwp_conseq)
  qed
qed

text \<open>What start-up on an existing store directory keeps: it adds nothing but missing lock files.\<close>

definition boot_stable :: "path \<Rightarrow> IMAPIdentity \<Rightarrow> gotime \<Rightarrow> (store_view \<Rightarrow> bool) \<Rightarrow> bool" where
  "boot_stable root ident t0 J \<longleftrightarrow> (\<forall>V. J V \<longrightarrow> layout root V \<and> (\<exists>s. sentinel_at root ident t0 s V))
     \<and> (\<forall>V m c. J V \<longrightarrow> J (V(guardFilePath root \<mapsto> Reg m c)) \<and> J (V(LockPath root \<mapsto> Reg m c)))"

lemma boot_stableD:
  assumes "boot_stable root ident t0 J" "J V"
  shows "layout root V" "\<exists>s. sentinel_at root ident t0 s V" "J (V(guardFilePath root \<mapsto> Reg m c))" "J (V(LockPath root \<mapsto> Reg m c))"
  using assms by (simp_all add: boot_stable_def)

lemma boot_stable_reset: "boot_stable root ident t0 (started root ident t0 cv)" "boot_stable root ident t0 (reset_inv root ident t0 cv)"
proof -
  have lock: "layout root V \<Longrightarrow> layout root (V(LockPath root \<mapsto> Reg m c))" "(V(LockPath root \<mapsto> Reg m c)) (resetManifestPath root) = V (resetManifestPath root)"
    "sentinel_at root ident t0 s (V(LockPath root \<mapsto> Reg m c)) = sentinel_at root ident t0 s V" "manifest_at root p cv (V(LockPath root \<mapsto> Reg m c)) = manifest_at root p cv V"
    "staging_ready root (V(LockPath root \<mapsto> Reg m c)) = staging_ready root V" "old_gone root (V(LockPath root \<mapsto> Reg m c)) = old_gone root V" for V m c s p
    by (auto simp: reset_state_defs store_path_defs no_orphans_upd)
  have neq: "resetManifestPath root \<noteq> LockPath root" by (simp add: store_path_defs)
  show "boot_stable root ident t0 (started root ident t0 cv)"
    by (auto simp: boot_stable_def started_def guard_upd lock)
  show "boot_stable root ident t0 (reset_inv root ident t0 cv)"
    unfolding boot_stable_def reset_inv_def by (auto simp: unstarted_def started_def reset_done_def guard_upd lock neq)
qed

lemma reset_invD:
  assumes "reset_inv root ident t0 cv V"
  shows "layout root V" "\<exists>s. sentinel_at root ident t0 s V"
  using boot_stableD [OF boot_stable_reset(2) assms] by auto

lemma vwp_bindIdentity:
  assumes "clean root" "sentinel_at root ident t0 s V" "Q () V" "\<And>e. \<not> calm \<Longrightarrow> E e V" "\<not> calm \<Longrightarrow> C V"
  shows "vwp calm (bindIdentity root ident m) Q E C V"
proof -
  have "verifySentinelIdentity root s ident = None"
    using assms(2) by (auto simp: sentinel_at_def verifySentinelIdentity_def sentinel_identity_def)
  with assms show ?thesis
    unfolding bindIdentity_def
    by (intro vwp_bind vwp_mapErr vwp_load_at [OF assms(1,2)]) (auto intro!: vc simp: store_path_defs)
qed

lemma vwp_Open_reset:
  assumes "clean root" "boot_stable root ident t0 J" "J V"
  shows "vwp calm (Open root ident OpenRecoverReset) (\<lambda>st V'. st = reset_store root ident \<and> J V') (\<lambda>_. disturbed calm J) (disturbed calm J) V"
proof -
  note stable = boot_stableD [OF assms(2)]
  note l = layoutD [OF stable(1) [OF assms(3)]]
  have tail: "vwp calm (bindIO (bindIdentity root ident OpenRecoverReset) (\<lambda>_. ret (reset_store root ident)))
      (\<lambda>st V'. st = reset_store root ident \<and> J V') (\<lambda>_. disturbed calm J) (disturbed calm J) V'"
    if V': "J V'" for V'
    using stable(2) [OF V'] V' by (auto intro!: vwp_bind vwp_bindIdentity [OF assms(1)] vwp_ret)
  have "vwp calm (prepareStore root OpenRecoverReset) (\<lambda>_. J) (\<lambda>_. disturbed calm J) (disturbed calm J) V"
    unfolding prepareStore_def using l assms(1,3) stable(3) [OF assms(3)] root_dirs_absent [OF l(1)]
    by (auto intro!: vc simp: store_path_defs filePerm_def root_dirs_def file_at_def split: if_splits)
  then show ?thesis
    unfolding Open_def by (auto intro!: vwp_bind vwp_ret tail elim!: vwp_conseq)
qed

lemma vwp_validateRoot:
  assumes "clean root" "layout root V" "Q () V" "\<And>e. \<not> calm \<Longrightarrow> E e V" "\<not> calm \<Longrightarrow> C V"
  shows "vwp calm (validateAndEnsureRootDir root) Q E C V"
proof -
  obtain m where m: "V root = Some (Dir m)" "m = rootDirPerm \<or> m = rootDirGroupPerm"
    using layoutD(1) [OF assms(2)] by (auto simp: root_dirs_def)
  show ?thesis
    unfolding validateAndEnsureRootDir_def
    by (rule vwp_bind, rule vwp_bind, rule vwp_attempt, rule vwp_stat [OF assms(1)])
      (use m assms in \<open>auto intro!: vc simp: is_not_exist_def is_dir_def\<close>)
qed

lemma vwp_writerLock:
  assumes "clean root" "boot_stable root ident t0 J" "J V" "calm \<longrightarrow> \<not> held"
  shows "vwp calm (bootstrapAcquireWriterLock nopNotifier held root) (\<lambda>_. J) (\<lambda>_. disturbed calm J) (disturbed calm J) V"
proof -
  note stable = boot_stableD [OF assms(2,3)]
  note l = layoutD [OF stable(1)]
  have d: "V (LockPath root) \<noteq> Some (Dir m)" for m using stable(1) by (simp add: layout_def no_dir_at_def)
  have "vwp calm (Acquire held (LockPath root)) (\<lambda>_. J) (\<lambda>_. disturbed calm J) (disturbed calm J) V"
    unfolding Acquire_def
    by (rule vwp_bind, rule vwp_mapErr, rule vwp_openCreate)
      (use assms l d boot_stableD(4) [OF assms(2)] in \<open>auto intro!: vc simp: store_path_defs disturbed_def\<close>)
  then show ?thesis
    unfolding bootstrapAcquireWriterLock_def nopNotifier_def
    by (intro vwp_bind vwp_attempt) (erule vwp_conseq; auto intro!: vc)
qed

lemma vwp_Bootstrap:
  assumes "clean root" "boot_stable root ident t0 J" "J V" "calm \<longrightarrow> \<not> held"
  shows "vwp calm (Bootstrap (Inr nopNotifier) held False (Some OpenRecoverReset) root ident)
      (\<lambda>st V'. st = reset_store root ident \<and> J V') (\<lambda>_. disturbed calm J) (disturbed calm J) V"
proof -
  have opened: "vwp calm (bindIO (attempt (Open root ident OpenRecoverReset)) (\<lambda>r. case r of
           Inr st \<Rightarrow> ret st
         | Inl err \<Rightarrow> bindIO (bestEffort (nopNotifier (classifyOpenError err))) (\<lambda>_.
             if errors_Is err ErrPendingReset then fail (Wrap a err) else fail (Wrap b err))))
      (\<lambda>st V'. st = reset_store root ident \<and> J V') (\<lambda>_. disturbed calm J) (disturbed calm J) V'" if "J V'" for V' a b
    by (rule vwp_bind, rule vwp_attempt, rule vwp_conseq [OF vwp_Open_reset [OF assms(1,2) that]])
      (auto intro!: vc simp: nopNotifier_def)
  show ?thesis
    unfolding Bootstrap_def if_False option.case sum.case
    by (rule vwp_bind, rule vwp_mapErr, rule vwp_validateRoot [OF assms(1) boot_stableD(1) [OF assms(2,3)]], rule vwp_bind,
        rule vwp_conseq [OF vwp_writerLock [OF assms]]) (use assms(3) opened in \<open>auto\<close>)
qed

lemma vwp_recoverCommand:
  assumes "clean root" "reset_inv root ident t0 cv V" "calm \<longrightarrow> \<not> held"
  shows "vwp calm (recoverCommand held root ident discardOld) (\<lambda>_. reset_done root ident t0 cv)
    (\<lambda>_. disturbed calm (reset_inv root ident t0 cv)) (disturbed calm (reset_inv root ident t0 cv)) V"
  unfolding recoverCommand_def discardOld_simps
  by (intro vwp_bind) (rule vwp_conseq [OF vwp_Bootstrap [OF assms(1) boot_stable_reset(2) assms(2,3)]];
    auto intro!: vwp_conseq [OF vwp_recoverRun [OF assms(1)]])

text \<open>With a manifest of phase 1 the run resets the store and reports success.\<close>

lemma vwp_recoverCommand_started:
  assumes "clean root" "started root ident t0 cv V"
  shows "vwp True (recoverCommand False root ident discardOld) (\<lambda>code V'. code = exitOK \<and> reset_done root ident t0 cv V') (\<lambda>_ _. False) (\<lambda>_. False) V"
proof -
  have "\<not> reset_done root ident t0 cv V'" if "started root ident t0 cv V'" for V'
    using that by (auto simp: started_def reset_done_def manifest_at_def)
  then have run: "vwp True (recoverRun (reset_store root ident) discardOld) (\<lambda>code V'. code = exitOK \<and> reset_done root ident t0 cv V') (\<lambda>_ _. False) (\<lambda>_. False) V'"
    if "started root ident t0 cv V'" for V'
    using that by (intro vwp_conseq [OF vwp_recoverRun [OF assms(1) startedD(2) [OF that]]]) (auto simp: disturbed_def)
  show ?thesis
    unfolding recoverCommand_def discardOld_simps
    by (intro vwp_bind) (rule vwp_conseq [OF vwp_Bootstrap [where calm = True, OF assms(1) boot_stable_reset(1) assms(2)]]; auto intro!: run simp: disturbed_def)
qed

section \<open>Opening the store after the reset\<close>

definition empty_store :: "path \<Rightarrow> IMAPIdentity \<Rightarrow> gotime \<Rightarrow> u32 \<Rightarrow> store_view \<Rightarrow> bool" where
  "empty_store root ident t0 cv V \<longleftrightarrow>
     V (dataFilePath root) = Some (Reg filePerm (CData emptyDataFile))
     \<and> V (emailsPath root) = Some (Dir dirPerm) \<and> (\<forall>x q. V (emailsPath root @ x # q) = None)
     \<and> V (resetManifestPath root) = None \<and> (\<forall>q. V (resetStagingPath root @ q) = None)
     \<and> (\<exists>s. sentinel_at root ident t0 s V \<and> committed cv s)"

definition tidy :: "path \<Rightarrow> IMAPIdentity \<Rightarrow> gotime \<Rightarrow> u32 \<Rightarrow> store_view \<Rightarrow> bool" where
  "tidy root ident t0 cv V \<longleftrightarrow> reset_done root ident t0 cv V \<and> V (resetManifestPath root) = None
     \<and> (\<forall>q. V (resetStagingPath root @ q) = None)"

lemma staging_gone_manifest:
  "(V(resetManifestPath root := n)) (resetStagingPath root @ q) = V (resetStagingPath root @ q)"
  by simp

lemma vwp_cleanup_done:
  assumes "clean root" "reset_done root ident t0 cv V"
  shows "vwp True (cleanupCompletedReset root) (\<lambda>_. tidy root ident t0 cv) (\<lambda>_ _. False) (\<lambda>_. False) V"
proof (cases "V (resetManifestPath root) = None")
  case True
  have l: "layout root V" using assms(2) by (simp add: reset_done_def)
  have "vwp True (cleanupOrphanedStaging root) (\<lambda>_. tidy root ident t0 cv) (\<lambda>_ _. False) (\<lambda>_. False) V"
    unfolding cleanupOrphanedStaging_def
    using assms True l reset_done_staging(1) [OF assms(2)] staging_upd(7,12) [of root V]
    by (auto intro!: vc simp: tidy_def store_path_defs layout_def no_orphans_def)
  then show ?thesis
    unfolding cleanupCompletedReset_def
    by (intro vwp_bind vwp_attempt vwp_read_absent [OF assms(1) l True]) (auto simp: is_not_exist_def)
next
  case False
  then have m: "manifest_at root resetPhaseCommitted cv V"
    using assms(2) unfolding reset_done_def by (elim conjE disjE) (simp_all only: simp_thms)
  obtain s where s: "sentinel_at root ident t0 s V" "committed cv s" using assms(2) by (auto simp: reset_done_def)
  let ?V = "v_del_tree (resetStagingPath root) V"
  have m': "manifest_at root resetPhaseCommitted cv ?V" using m by (simp add: manifest_at_staging)
  have t: "tidy root ident t0 cv (?V(resetManifestPath root := None))"
    using reset_done_staging(3) [OF reset_done_staging(1) [OF assms(2)]] by (simp add: tidy_def staging_upd)
  have "vwp True (removeLeftovers root) (\<lambda>_. tidy root ident t0 cv) (\<lambda>_ _. False) (\<lambda>_. False) V"
    unfolding removeLeftovers_def
    apply (rule vwp_bind, rule vwp_bestEffort, rule vwp_removeAll)
     apply (rule vwp_bestEffort, rule vwp_remove)
    using m' t assms(1) by (auto simp: manifest_at_def) (simp add: store_path_defs)
  then show ?thesis
    unfolding cleanupCompletedReset_def
    using s by (intro vwp_bind vwp_attempt vwp_read_present [OF assms(1) m])
      (auto intro!: vwp_bind vwp_mapErr vwp_load_at [OF assms(1) s(1)] simp: committed_def)
qed

lemma root_dirs_mkdirs_below:
  assumes "root_dirs root V" "V (root @ [x]) = None"
  shows "v_mkdirs m (prefixes (root @ [x])) V = V(root @ [x] \<mapsto> Dir m)"
proof
  fix q
  show "v_mkdirs m (prefixes (root @ [x])) V q = (V(root @ [x] \<mapsto> Dir m)) q"
  proof (cases "q = root @ [x]")
    case True
    then show ?thesis using assms(2) by (simp add: v_mkdirs_def)
  next
    case False
    then show ?thesis
      using assms(1) by (cases "prefix q root") (auto simp: root_dirs_def v_mkdirs_def prefix_snoc split: option.split)
  qed
qed

lemma vwp_initDataFile:
  assumes "clean root" "root_dirs root V" "V (dataFilePath root) = None"
    "Q () (V(dataFilePath root \<mapsto> Reg filePerm (CData emptyDataFile)))"
  shows "vwp True (initDataFile root) Q E C V"
  unfolding initDataFile_def
  using assms by (auto intro!: vc simp: store_path_defs is_not_exist_def filePerm_def no_dir_at_def)

lemma vwp_ensure_emails:
  assumes "clean root" "root_dirs root V" "V (emailsPath root) = None" "Q () (V(emailsPath root \<mapsto> Dir dirPerm))"
  shows "vwp True (ensureDirExists (emailsPath root)) Q E C V"
proof -
  have "no_file_at (root @ [''emails'']) V" using assms(3) by (simp add: no_file_at_def store_path_defs)
  from root_dirs_no_file [OF assms(2) this] have nf: "prefix q (emailsPath root) \<Longrightarrow> \<not> file_at V q" for q
    by (simp add: store_path_defs)
  then show ?thesis
    by (intro vwp_ensureDirExists) (use assms root_dirs_mkdirs_below [OF assms(2)] in \<open>auto simp: store_path_defs\<close>)
qed

lemma vwp_ensure_root:
  assumes "clean root" "root_dirs root V" "Q () V"
  shows "vwp True (ensureDirExists root) Q E C V"
proof -
  obtain m where "V root = Some (Dir m)" using root_dirsD [OF assms(2)] ..
  moreover have "prefix q root \<Longrightarrow> \<not> file_at V q" for q using assms(2) by (auto simp: root_dirs_def file_at_def)
  ultimately show ?thesis by (intro vwp_ensureDirExists) (use assms in auto)
qed

lemma vwp_open_guard:
  assumes "clean root" "layout root V" "Q () V" "\<And>m c. Q () (V(guardFilePath root \<mapsto> Reg m c))"
  shows "vwp True (openCreate (guardFilePath root) filePerm (CRaw [])) Q E C V"
  by (rule vwp_openCreate) (use assms layoutD [OF assms(2)] in \<open>auto simp: store_path_defs\<close>)

lemma vwp_prepare_tidy:
  assumes "clean root" "tidy root ident t0 cv V"
  shows "vwp True (prepareStore root OpenReadWrite) (\<lambda>_. empty_store root ident t0 cv) (\<lambda>_ _. False) (\<lambda>_. False) V"
proof -
  have l: "layout root V" "root_dirs root V" and o: "old_gone root V"
    using assms(2) by (auto simp: tidy_def reset_done_def layout_def)
  obtain s where s: "sentinel_at root ident t0 s V" "committed cv s" using assms(2) by (auto simp: tidy_def reset_done_def)
  define V1 where "V1 = V(emailsPath root \<mapsto> Dir dirPerm)"
  define V2 where "V2 = V1(dataFilePath root \<mapsto> Reg filePerm (CData emptyDataFile))"
  have l1: "root_dirs root V1" "V1 (dataFilePath root) = None"
    using l o by (auto simp: V1_def store_path_defs old_gone_def)
  have l2: "layout root V2"
    using l(1) by (auto simp: V1_def V2_def reset_state_defs store_path_defs no_orphans_upd)
  have e2: "empty_store root ident t0 cv V2"
    using s o assms(2) by (auto simp: empty_store_def V2_def V1_def tidy_def store_path_defs sentinel_at_def old_gone_def)
  have e3: "empty_store root ident t0 cv (V2(guardFilePath root \<mapsto> Reg m c))" for m c
    using e2 by (auto simp: empty_store_def store_path_defs sentinel_at_def)
  have e: "V (emailsPath root) = None" using o spec [of "\<lambda>q. V (emailsPath root @ q) = None" "[]"] by (simp add: old_gone_def)
  show ?thesis
    unfolding prepareStore_def
    apply (simp, rule vwp_bind, rule vwp_mapErr, rule vwp_ensure_root [OF assms(1) l(2)])
    apply (rule vwp_bind, rule vwp_bind, rule vwp_mapErr, rule vwp_ensure_emails [OF assms(1) l(2) e])
    apply (fold V1_def, rule vwp_mapErr, rule vwp_initDataFile [OF assms(1) l1])
    apply (fold V2_def, rule vwp_mapErr, rule vwp_open_guard [OF assms(1) l2 e2 e3])
    done
qed

lemma vwp_Open_done:
  assumes "clean root" "reset_done root ident t0 cv V"
  shows "vwp True (Open root ident OpenReadWrite)
    (\<lambda>st V'. st = newFileStore root ident OpenReadWrite \<and> empty_store root ident t0 cv V') (\<lambda>_ _. False) (\<lambda>_. False) V"
proof -
  have tail: "vwp True (bindIO (bindIdentity root ident OpenReadWrite) (\<lambda>_. ret (newFileStore root ident OpenReadWrite)))
      (\<lambda>st V'. st = newFileStore root ident OpenReadWrite \<and> empty_store root ident t0 cv V') (\<lambda>_ _. False) (\<lambda>_. False) V'"
    if "empty_store root ident t0 cv V'" for V'
    using that by (auto simp: empty_store_def intro!: vwp_bind vwp_bindIdentity [OF assms(1)] vwp_ret)
  show ?thesis
    unfolding Open_def
    apply (simp, rule vwp_bind, rule vwp_conseq [OF vwp_cleanup_done [OF assms]])
      apply (rule vwp_bind, rule vwp_conseq [OF vwp_prepare_tidy [OF assms(1)]], assumption)
    by (auto intro: tail)
qed

section \<open>Any number of interrupted runs\<close>

text \<open>
  Runs of \<^verbatim>\<open>recover --mode discard-old --yes\<close>, each under a schedule of its own: the files one run leaves,
  whether it ended or died, are what the next one finds.
\<close>

inductive reset_runs :: "path \<Rightarrow> IMAPIdentity \<Rightarrow> content fsys \<Rightarrow> content fsys \<Rightarrow> bool" for root ident xs where
  reset_none: "reset_runs root ident xs xs"
| reset_more: "reset_runs root ident xs ys \<Longrightarrow>
    recoverCommand held root ident discardOld \<lparr>fs = ys, sched = sc, clock = t\<rparr> = (r, w) \<Longrightarrow>
    reset_runs root ident xs (fs w)"

lemma reset_runs_inv:
  assumes "reset_runs root ident xs ys" "clean root" "reset_inv root ident t0 cv (visible xs)"
  shows "reset_inv root ident t0 cv (visible ys)"
  using assms(1)
proof induction
  case reset_none
  show ?case by (rule assms(3))
next
  case (reset_more ys held sc t r w)
  then have "vwp False (recoverCommand held root ident discardOld) (\<lambda>_. reset_done root ident t0 cv)
      (\<lambda>_. disturbed False (reset_inv root ident t0 cv)) (disturbed False (reset_inv root ident t0 cv)) (view \<lparr>fs = ys, sched = sc, clock = t\<rparr>)"
    using vwp_recoverCommand [OF assms(2)] by simp
  from vwp_cases [OF this _ reset_more(2)] show ?case
    by (auto simp: quiet_def disturbed_def reset_doneD split: outcome.splits)
qed

text \<open>
  C1. Re-running after any number of failed or killed attempts converges: starting from a store in
  which a UIDVALIDITY change has been recorded, after any runs of \<^verbatim>\<open>recover --mode discard-old --yes\<close>
  under any schedules of faults, crashes and lock conflicts, one more undisturbed run followed by an ordinary
  read-write open succeeds and shows an empty store with the current UIDVALIDITY, recovery cleared,
  identity and initialization time preserved, and neither manifest nor staging left.
\<close>

theorem discard_old_converges:
  assumes "clean root" "unstarted root ident t0 cv (visible xs)" "reset_runs root ident xs ys"
  shows "\<exists>code w1 st w2.
    recoverCommand False root ident discardOld \<lparr>fs = ys, sched = [], clock = t\<rparr> = (Ok code, w1) \<and>
    Open root ident OpenReadWrite \<lparr>fs = fs w1, sched = [], clock = t'\<rparr> = (Ok st, w2) \<and>
    empty_store root ident t0 cv (view w2)"
proof -
  have "reset_inv root ident t0 cv (visible ys)"
    using reset_runs_inv [OF assms(3,1)] unstartedD(2) [OF assms(2)] by blast
  then obtain code w1 where 1: "recoverCommand False root ident discardOld \<lparr>fs = ys, sched = [], clock = t\<rparr> = (Ok code, w1)"
      "reset_done root ident t0 cv (view w1)"
    using vwp_calm [OF vwp_recoverCommand [OF assms(1), where calm = True and held = False], of ident t0 cv "\<lparr>fs = ys, sched = [], clock = t\<rparr>"]
    by (auto simp: disturbed_def)
  from vwp_calm [OF vwp_Open_done [OF assms(1)], of ident t0 cv "\<lparr>fs = fs w1, sched = [], clock = t'\<rparr>"] 1(2)
  obtain st w2 where "Open root ident OpenReadWrite \<lparr>fs = fs w1, sched = [], clock = t'\<rparr> = (Ok st, w2)"
      "empty_store root ident t0 cv (view w2)" by auto
  with 1(1) show ?thesis by blast
qed

section \<open>A concrete store\<close>

text \<open>A run that dies while it commits.\<close>

definition sample_crash :: "content world" where
  "sample_crash = \<lparr>fs = sample_files sample_pending, sched = replicate 43 Pass @ [Halt []], clock = 11\<rparr>"

lemma sample_unstarted: "unstarted [''s''] sample_identity 5 2 (visible (sample_files sample_pending))"
  by (auto simp: unstarted_def layout_def root_dirs_def rootDirPerm_def no_dir_at_def no_file_at_def no_orphans_def sentinel_at_def pending_def store_path_defs
      visible_def sample_files_def sample_pending_def sample_sentinel_def sample_identity_def sentinel_identity_def SentinelFormatVersion_def
      prefix_Cons)

theorem discard_old_converges_witness:
  "fst (recoverCommand False [''s''] sample_identity discardOld sample_crash) = Crashed \<and>
   (\<exists>code w1 st w2.
    recoverCommand False [''s''] sample_identity discardOld
      \<lparr>fs = fs (snd (recoverCommand False [''s''] sample_identity discardOld sample_crash)), sched = [], clock = 12\<rparr> = (Ok code, w1) \<and>
    Open [''s''] sample_identity OpenReadWrite \<lparr>fs = fs w1, sched = [], clock = 13\<rparr> = (Ok st, w2) \<and>
    empty_store [''s''] sample_identity 5 2 (view w2))"
proof
  show "fst (recoverCommand False [''s''] sample_identity discardOld sample_crash) = Crashed" by code_simp
  have "reset_runs [''s''] sample_identity (sample_files sample_pending)
      (fs (snd (recoverCommand False [''s''] sample_identity discardOld sample_crash)))"
    unfolding sample_crash_def by (rule reset_more [OF reset_none prod.collapse [symmetric]])
  then show "\<exists>code w1 st w2.
    recoverCommand False [''s''] sample_identity discardOld
      \<lparr>fs = fs (snd (recoverCommand False [''s''] sample_identity discardOld sample_crash)), sched = [], clock = 12\<rparr> = (Ok code, w1) \<and>
    Open [''s''] sample_identity OpenReadWrite \<lparr>fs = fs w1, sched = [], clock = 13\<rparr> = (Ok st, w2) \<and>
    empty_store [''s''] sample_identity 5 2 (view w2)"
    using discard_old_converges [OF _ sample_unstarted] by simp
qed

section \<open>Ordinary commands during a reset\<close>

lemma vwp_cleanup_blocked:
  assumes "clean root" "manifest_at root p cv V" "validateManifestPhase p = None" "sentinel_at root owner t0 s V" "pending cv s"
  shows "vwp calm (cleanupCompletedReset root) (\<lambda>_ _. False) (\<lambda>e V'. V' = V \<and> (calm \<longrightarrow> e = ErrPendingReset)) (\<lambda>V'. V' = V \<and> \<not> calm) V"
  unfolding cleanupCompletedReset_def
  by (intro vwp_bind vwp_attempt vwp_read_present [OF assms(1,2)])
    (use assms in \<open>auto simp: pending_def intro!: vwp_fail vwp_bind vwp_mapErr vwp_load_at [OF assms(1,4)]\<close>)

text \<open>
  C12. While a reset is in progress every read-write open fails closed: with a recorded UIDVALIDITY change
  and a manifest for it, \<^verbatim>\<open>Open\<close> in read-write mode never returns a store and changes no file, under any
  schedule, and undisturbed it reports the pending reset; so no command recreates or overwrites
  files that the reset has staged.
\<close>

theorem Open_blocked_by_reset:
  assumes "clean root" "manifest_at root p cv (view w)" "p = resetPhaseManifestWritten \<or> p = resetPhaseCommitted"
    "sentinel_at root owner t0 s (view w)" "pending cv s" "Open root ident OpenReadWrite w = (r, w')"
  shows "view w' = view w \<and> \<not> is_ok r \<and> (sched w = [] \<longrightarrow> r = Err ErrPendingReset)"
proof -
  have "validateManifestPhase p = None" using assms(3) by auto
  then have "vwp (sched w = []) (Open root ident OpenReadWrite) (\<lambda>_ _. False) (\<lambda>e V'. V' = view w \<and> (sched w = [] \<longrightarrow> e = ErrPendingReset))
      (\<lambda>V'. V' = view w \<and> sched w \<noteq> []) (view w)"
    unfolding Open_def if_P [OF refl]
    by (intro vwp_bind vwp_conseq [OF vwp_cleanup_blocked [OF assms(1,2) _ assms(4,5)]]) auto
  from vwp_cases [OF this _ assms(6)] show ?thesis by (cases r) (auto simp: quiet_def is_ok_def)
qed

definition sample_interrupted :: "content fsys" where
  "sample_interrupted = ([''s'', ''.tlsrpt-digest-reset-manifest.json''], Reg 384 (CManifest
     \<lparr>manifest_Version = 1, manifest_CurrUIDValidity = 2, manifest_Phase = 1\<rparr>)) # sample_files sample_pending"

theorem Open_blocked_by_reset_witness:
  "fst (Open [''s''] sample_identity OpenReadWrite \<lparr>fs = sample_interrupted, sched = [], clock = 3\<rparr>) = Err ErrPendingReset"
proof -
  let ?w = "\<lparr>fs = sample_interrupted, sched = [], clock = 3\<rparr>"
  have m: "manifest_at [''s''] resetPhaseManifestWritten 2 (view ?w)" "sentinel_at [''s''] sample_identity 5 sample_pending (view ?w)"
      "pending 2 sample_pending"
    by (simp_all add: manifest_at_def sentinel_at_def pending_def sample_interrupted_def sample_files_def sample_pending_def sample_sentinel_def
        sample_identity_def sentinel_identity_def visible_def store_path_defs resetManifestVersion_def resetPhaseManifestWritten_def SentinelFormatVersion_def)
  from Open_blocked_by_reset [OF _ m(1) _ m(2,3), of sample_identity "fst (Open [''s''] sample_identity OpenReadWrite ?w)"
      "snd (Open [''s''] sample_identity OpenReadWrite ?w)"]
  show ?thesis by simp
qed

section \<open>A manifest that outlives its reset\<close>

section \<open>A manifest that outlives its reset\<close>

text \<open>
  C25. A manifest that outlives its reset makes the clean-up command destroy current data. Whenever the sentinel records no recovery, so that the store is in
  ordinary use, and a manifest of phase 1 is left from an earlier reset, an undisturbed run of \<^verbatim>\<open>recover --mode discard-old --yes\<close>, which the program
  recommends for finalizing the clean-up, reports success and has deleted the data file and every mail of the store, whatever they contain.
\<close>

theorem stale_manifest_discards:
  assumes "clean root" "layout root (view w)" "manifest_at root resetPhaseManifestWritten cv (view w)" "staging_ready root (view w)"
    and "sentinel_at root ident t0 x (view w)" "RecoveryRequired x = None" "sched w = []"
  shows "\<exists>w'. recoverCommand False root ident discardOld w = (Ok exitOK, w')
    \<and> view w' (dataFilePath root) = None \<and> (\<forall>q. view w' (emailsPath root @ q) = None)"
proof -
  have "started root ident t0 cv (view w)" using assms(2-6) by (auto simp: started_def)
  from vwp_calm [OF vwp_recoverCommand_started [OF assms(1) this] assms(7)] show ?thesis
    by (auto simp: reset_done_def old_gone_def)
qed

text \<open>
  The state is reached: a run dies after the sentinel is committed and before the manifest is; the next ordinary open removes the
  staged files but fails to remove the manifest, which is only logged; a report is then saved.
\<close>

definition sample_new_report :: ReportInput where
  "sample_new_report = \<lparr>input_Report = sample_report 9 77, input_UID = 1, input_UIDValidity = 2\<rparr>"

definition sample_stale :: "content world" where
  "sample_stale = \<lparr>fs =
    [([''s'', ''tlsrpt.json''], Reg 384 (CData \<lparr>df_Version = 1, df_Reports = [sample_report 9 77], df_Emails = []\<rparr>)),
     ([''s'', ''.tlsrpt-digest-meta.json''], Reg 384 (CSentinel (sample_sentinel (Some 2) None))),
     ([''s'', ''.tlsrpt-digest-reset-manifest.json''], Reg 384 (CManifest \<lparr>manifest_Version = 1, manifest_CurrUIDValidity = 2, manifest_Phase = 1\<rparr>)),
     ([''s'', ''.tlsrpt-digest-summary.lock''], Reg 384 (CRaw [])), ([''s'', ''.tlsrpt-digest-store.lock''], Reg 384 (CRaw [])),
     ([], Dir 493), ([''s''], Dir 448), ([''s'', ''emails''], Dir 448)], sched = [], clock = 11\<rparr>"

lemma sample_stale_reached:
  "(let (r1, w1) = Open [''s''] sample_identity OpenReadWrite
          ((snd (recoverCommand False [''s''] sample_identity discardOld sample_crash))\<lparr>sched := [Pass, Pass, Pass, Fail True []]\<rparr>);
        (r2, w2) = SaveReports (newFileStore [''s''] sample_identity OpenReadWrite) [sample_new_report] w1
    in is_ok r1 \<and> is_ok r2 \<and> fs w2 = fs sample_stale)"
  by code_simp

theorem stale_manifest_discards_witness:
  "map_of (fs sample_stale) [''s'', ''tlsrpt.json''] = Some (Reg 384 (CData (emptyDataFile\<lparr>df_Reports := [sample_report 9 77]\<rparr>)))
   \<and> (\<exists>w'. recoverCommand False [''s''] sample_identity discardOld sample_stale = (Ok exitOK, w') \<and> view w' [''s'', ''tlsrpt.json''] = None)"
proof
  show "map_of (fs sample_stale) [''s'', ''tlsrpt.json''] = Some (Reg 384 (CData (emptyDataFile\<lparr>df_Reports := [sample_report 9 77]\<rparr>)))"
    by (simp add: sample_stale_def emptyDataFile_def DataFileVersion_def)
  note defs = sample_stale_def sample_sentinel_def sample_identity_def visible_def store_path_defs
  have "layout [''s''] (view sample_stale)"
    by (auto simp: layout_def root_dirs_def rootDirPerm_def no_dir_at_def no_file_at_def no_orphans_def defs prefix_Cons)
  moreover have "manifest_at [''s''] resetPhaseManifestWritten 2 (view sample_stale)" "staging_ready [''s''] (view sample_stale)"
    "sentinel_at [''s''] sample_identity 5 (sample_sentinel (Some 2) None) (view sample_stale)"
    by (auto simp: manifest_at_def staging_ready_def sentinel_at_def no_dir_at_def no_file_at_def resetManifestVersion_def resetPhaseManifestWritten_def
        SentinelFormatVersion_def sentinel_identity_def defs)
  ultimately show "\<exists>w'. recoverCommand False [''s''] sample_identity discardOld sample_stale = (Ok exitOK, w') \<and> view w' [''s'', ''tlsrpt.json''] = None"
    using stale_manifest_discards [of "[''s'']" sample_stale 2 sample_identity 5 "sample_sentinel (Some 2) None"] by (auto simp: defs)
qed

end
