(* ===== verification/Store_Emails.thy ===== *)
theory Store_Emails
  imports Store_Reports
begin

text \<open>
  \<^verbatim>\<open>internal/store/emails.go\<close>: the mail files \<^verbatim>\<open>emails/<uidvalidity>/<YYYYMM>/<uid>.eml\<close> and their index in
  the data file. \<^verbatim>\<open>mail.ReadMessage\<close> of the standard library is the argument \<open>readMessage\<close>. Results that
  come with an error are pairs of the value and the list of collected errors (\<^verbatim>\<open>errors.Join\<close>).
\<close>

section \<open>Paths\<close>

definition email_month :: "gotime \<Rightarrow> string" where
  "email_month t = format_200601 t"

definition email_file :: "u32 \<Rightarrow> string" where
  "email_file uid = zero_pad 10 (dec_string (unat uid)) @ ''.eml''"

definition buildEmailPath :: "path \<Rightarrow> u32 \<Rightarrow> u32 \<Rightarrow> gotime \<Rightarrow> path" where
  "buildEmailPath root uid uidValidity internalDate =
     root @ [''emails'', dec_string (unat uidValidity), email_month internalDate, email_file uid]"

definition internalDateFromEmailPath :: "path \<Rightarrow> go_error + gotime" where
  "internalDateFromEmailPath relPath =
     (if length relPath \<noteq> 3 then Inl (ErrInvalidEmailPath relPath)
      else (case parse_200601 (relPath ! 1) of
              None \<Rightarrow> Inl (ErrInvalidEmailPath relPath)
            | Some t \<Rightarrow> Inr t))"

section \<open>Saving\<close>

definition SaveEmail :: "fileStore \<Rightarrow> u32 \<Rightarrow> u32 \<Rightarrow> gotime \<Rightarrow> string \<Rightarrow> unit store_io" where
  "SaveEmail s uid uidValidity internalDate rawEML =
     (if readOnly s then fail ErrReadOnly
      else if IsZero internalDate then fail ErrZeroInternalDate
      else
        let targetPath = buildEmailPath (rootDir s) uid uidValidity internalDate in
        bindIO (attempt (stat targetPath)) (\<lambda>r. case r of
          Inr info \<Rightarrow> if \<not> is_dir info then ret () else fail (ErrTargetNotRegularFile targetPath)
        | Inl err \<Rightarrow>
            if \<not> is_not_exist err then fail (Wrap ''SaveEmail: stat'' err)
            else
              bindIO (wrapErr ''SaveEmail: ensure dir'' (ensureDirExists (butlast targetPath))) (\<lambda>_.
              atomicWriteFile targetPath (CRaw rawEML))))"

type_synonym emailKey = "u32 \<times> u32"

definition entry_key :: "internalEmailIndexEntry \<Rightarrow> emailKey" where
  "entry_key e = (entry_UID e, entry_UIDValidity e)"

definition entry_of_meta :: "EmailMeta \<Rightarrow> internalEmailIndexEntry" where
  "entry_of_meta m = \<lparr>entry_UID = meta_UID m, entry_UIDValidity = meta_UIDValidity m, entry_InternalDate = meta_InternalDate m\<rparr>"

fun save_metas_loop ::
    "internalEmailIndexEntry list \<Rightarrow> emailKey set \<Rightarrow> EmailMeta list \<Rightarrow> go_error + internalEmailIndexEntry list" where
  "save_metas_loop emails existing [] = Inr emails"
| "save_metas_loop emails existing (meta # metas) =
     (if IsZero (meta_InternalDate meta) then Inl ErrZeroInternalDate
      else if (meta_UID meta, meta_UIDValidity meta) \<in> existing then save_metas_loop emails existing metas
      else save_metas_loop (emails @ [entry_of_meta meta]) (insert (meta_UID meta, meta_UIDValidity meta) existing) metas)"

definition SaveEmailMetas :: "fileStore \<Rightarrow> EmailMeta list \<Rightarrow> unit store_io" where
  "SaveEmailMetas s metas =
     (if readOnly s then fail ErrReadOnly
      else
        bindIO (wrapErr ''SaveEmailMetas: load data file'' (loadDataFile s)) (\<lambda>df.
        case save_metas_loop (df_Emails df) (set (map entry_key (df_Emails df))) metas of
          Inl err \<Rightarrow> fail err
        | Inr emails \<Rightarrow> saveDataFile s (df\<lparr>df_Emails := emails\<rparr>)))"

section \<open>Loading\<close>

definition validateEmailsDir :: "path \<Rightarrow> bool store_io" where
  "validateEmailsDir emailsDir =
     bindIO (attempt (stat emailsDir)) (\<lambda>r. case r of
       Inl err \<Rightarrow> if is_not_exist err then ret False else fail (Wrap ''LoadEmails: stat emails dir'' err)
     | Inr info \<Rightarrow> if \<not> is_dir info then fail (ErrEmailsPathNotDirectory emailsDir) else ret True)"

fun index_dates :: "internalEmailIndexEntry list \<Rightarrow> (emailKey \<rightharpoonup> gotime) \<Rightarrow> (emailKey \<rightharpoonup> gotime)" where
  "index_dates [] dates = dates"
| "index_dates (e # es) dates = index_dates es (dates(entry_key e \<mapsto> entry_InternalDate e))"

definition loadIndexedEmailDates :: "fileStore \<Rightarrow> (emailKey \<rightharpoonup> gotime) store_io" where
  "loadIndexedEmailDates s =
     bindIO (attempt (loadDataFile s)) (\<lambda>r. case r of
       Inl err \<Rightarrow> ret Map.empty
     | Inr df \<Rightarrow> ret (index_dates (df_Emails df) Map.empty))"

text \<open>\<^verbatim>\<open>filepath.Ext(path) == ".eml"\<close>, from the last dot of the last component.\<close>

definition has_eml_ext :: "path \<Rightarrow> bool" where
  "has_eml_ext p \<longleftrightarrow> p \<noteq> [] \<and> has_suffix (last p) ''.eml''"

text \<open>The identity of a mail file, read off its path below \<^verbatim>\<open>emails/\<close>.\<close>

definition parseEmailPath :: "path \<Rightarrow> (u32 \<times> u32) option" where
  "parseEmailPath relPath =
     (if length relPath \<noteq> 3 then None
      else (case parse_uint 32 (relPath ! 0) of
              None \<Rightarrow> None
            | Some uidValidity \<Rightarrow>
                (case parse_uint 32 (trim_suffix (relPath ! 2) ''.eml'') of
                   None \<Rightarrow> None
                 | Some uid \<Rightarrow> Some (of_nat uid, of_nat uidValidity))))"

text \<open>The callback of the walk on a regular file: an error to collect, or a loaded mail.\<close>

definition loadEmailFile ::
    "(content \<Rightarrow> 'msg option) \<Rightarrow> path \<Rightarrow> (emailKey \<rightharpoonup> gotime) \<Rightarrow> path \<Rightarrow> (go_error + 'msg LoadedEmail) store_io" where
  "loadEmailFile readMessage emailsDir indexedDates path =
     (let relPath = drop (length emailsDir) path in
      case parseEmailPath relPath of
        None \<Rightarrow> ret (Inl (ErrLoadEmailFailed path 0 0 (ErrInvalidEmailPath relPath)))
      | Some (uid, uidValidity) \<Rightarrow>
          (case (case indexedDates (uid, uidValidity) of Some t \<Rightarrow> Inr t | None \<Rightarrow> internalDateFromEmailPath relPath) of
             Inl parseErr \<Rightarrow> ret (Inl (ErrLoadEmailFailed path uid uidValidity parseErr))
           | Inr internalDate \<Rightarrow>
               bindIO (attempt (readFile path)) (\<lambda>r. case r of
                 Inl readErr \<Rightarrow> ret (Inl (ErrLoadEmailFailed path uid uidValidity readErr))
               | Inr data \<Rightarrow>
                   (case readMessage data of
                      None \<Rightarrow> ret (Inl (ErrLoadEmailFailed path uid uidValidity ErrMessageUnreadable))
                    | Some msg \<Rightarrow> ret (Inr \<lparr>loaded_Message = msg, loaded_UID = uid, loaded_UIDValidity = uidValidity,
                                            loaded_InternalDate = internalDate, loaded_Path = relPath\<rparr>)))))"

text \<open>
  The walk: every directory is read, which may fail; the callback collects the error of a name with
  the mail suffix, whose contents are then skipped, and stops the walk on any other. A listing that fails has no entries.
\<close>

fun walk_emails ::
    "(content \<Rightarrow> 'msg option) \<Rightarrow> path \<Rightarrow> (emailKey \<rightharpoonup> gotime) \<Rightarrow> path option \<Rightarrow>
     'msg LoadedEmail list \<Rightarrow> go_error list \<Rightarrow> (path \<times> content node) list \<Rightarrow> ('msg LoadedEmail list \<times> go_error list) store_io" where
  "walk_emails readMessage emailsDir dates skip result errs [] = ret (result, errs)"
| "walk_emails readMessage emailsDir dates skip result errs ((path, node) # entries) =
     (if (case skip of None \<Rightarrow> False | Some d \<Rightarrow> prefix d path) then walk_emails readMessage emailsDir dates skip result errs entries
      else if is_dir node then
        bindIO (attempt nop) (\<lambda>r. case r of
          Inr _ \<Rightarrow> walk_emails readMessage emailsDir dates None result errs entries
        | Inl err \<Rightarrow>
            if has_eml_ext path
            then walk_emails readMessage emailsDir dates (Some path) result (errs @ [ErrLoadEmailFailed path 0 0 err]) entries
            else ret (result, errs @ [err]))
      else if \<not> has_eml_ext path then walk_emails readMessage emailsDir dates None result errs entries
      else
        bindIO (loadEmailFile readMessage emailsDir dates path) (\<lambda>r. case r of
          Inl err \<Rightarrow> walk_emails readMessage emailsDir dates None result (errs @ [err]) entries
        | Inr email \<Rightarrow> walk_emails readMessage emailsDir dates None (result @ [email]) errs entries))"

definition LoadEmails :: "(content \<Rightarrow> 'msg option) \<Rightarrow> fileStore \<Rightarrow> ('msg LoadedEmail list \<times> go_error list) store_io" where
  "LoadEmails readMessage s =
     bindIO (validateEmailsDir (emailsDirPath s)) (\<lambda>found.
     if \<not> found then ret ([], [])
     else
       bindIO (loadIndexedEmailDates s) (\<lambda>indexedDates.
       bindIO (walkTree (emailsDirPath s)) (\<lambda>entries.
       walk_emails readMessage (emailsDirPath s) indexedDates None [] [] entries)))"

section \<open>Retention\<close>

definition emlPath :: "fileStore \<Rightarrow> internalEmailIndexEntry \<Rightarrow> path" where
  "emlPath s e = buildEmailPath (rootDir s) (entry_UID e) (entry_UIDValidity e) (entry_InternalDate e)"

fun delete_emails_loop ::
    "fileStore \<Rightarrow> gotime \<Rightarrow> internalEmailIndexEntry list \<Rightarrow> internalEmailIndexEntry list \<Rightarrow> internalEmailIndexEntry list \<Rightarrow>
     go_error list \<Rightarrow> (internalEmailIndexEntry list \<times> internalEmailIndexEntry list \<times> go_error list) store_io" where
  "delete_emails_loop s cutoff [] surviving gcEntries deleteErrs = ret (surviving, gcEntries, deleteErrs)"
| "delete_emails_loop s cutoff (entry # entries) surviving gcEntries deleteErrs =
     (if \<not> entry_InternalDate entry < cutoff
      then delete_emails_loop s cutoff entries (surviving @ [entry]) gcEntries deleteErrs
      else
        bindIO (attempt (remove (emlPath s entry))) (\<lambda>r. case r of
          Inl rmErr \<Rightarrow>
            if \<not> is_not_exist rmErr
            then delete_emails_loop s cutoff entries (surviving @ [entry]) gcEntries
                   (deleteErrs @ [ErrDeleteEmailFailed (emlPath s entry) (entry_UID entry) (entry_UIDValidity entry) rmErr])
            else delete_emails_loop s cutoff entries surviving (gcEntries @ [entry]) deleteErrs
        | Inr _ \<Rightarrow> delete_emails_loop s cutoff entries surviving (gcEntries @ [entry]) deleteErrs))"

definition removeDirIfEmpty :: "path \<Rightarrow> unit store_io" where
  "removeDirIfEmpty dir =
     bindIO (attempt (readDir dir)) (\<lambda>r. case r of
       Inl rdErr \<Rightarrow> ret ()
     | Inr entries \<Rightarrow> if entries = [] then bestEffort (remove dir) else ret ())"

fun removeEmptyDirs :: "path list \<Rightarrow> unit store_io" where
  "removeEmptyDirs [] = ret ()"
| "removeEmptyDirs (d # ds) = bindIO (removeDirIfEmpty d) (\<lambda>_. removeEmptyDirs ds)"

text \<open>Go iterates over the directory sets in no particular order; here in order of first occurrence.\<close>

definition cleanupEmptyDirs :: "fileStore \<Rightarrow> internalEmailIndexEntry list \<Rightarrow> unit store_io" where
  "cleanupEmptyDirs s gcEntries =
     bindIO (removeEmptyDirs (remdups (map (\<lambda>e. emailsDirPath s @ [dec_string (unat (entry_UIDValidity e)), email_month (entry_InternalDate e)]) gcEntries))) (\<lambda>_.
     removeEmptyDirs (remdups (map (\<lambda>e. emailsDirPath s @ [dec_string (unat (entry_UIDValidity e))]) gcEntries)))"

definition DeleteEmailsBefore :: "fileStore \<Rightarrow> gotime \<Rightarrow> (int \<times> go_error list) store_io" where
  "DeleteEmailsBefore s cutoff =
     (if readOnly s then fail ErrReadOnly
      else if IsZero cutoff then ret (0, [])
      else
        bindIO (wrapErr ''DeleteEmailsBefore: load data file'' (loadDataFile s)) (\<lambda>df.
        bindIO (delete_emails_loop s cutoff (df_Emails df) [] [] []) (\<lambda>(surviving, gcEntries, deleteErrs).
        if gcEntries = [] then ret (0, deleteErrs)
        else
          bindIO (attempt (saveDataFile s (df\<lparr>df_Emails := surviving\<rparr>))) (\<lambda>r. case r of
            Inl saveErr \<Rightarrow> ret (int (length gcEntries), deleteErrs @ [Wrap ''DeleteEmailsBefore: save data file'' saveErr])
          | Inr _ \<Rightarrow> bindIO (cleanupEmptyDirs s gcEntries) (\<lambda>_. ret (int (length gcEntries), deleteErrs))))))"

fun count_emails_loop :: "gotime \<Rightarrow> internalEmailIndexEntry list \<Rightarrow> int \<Rightarrow> int" where
  "count_emails_loop cutoff [] count = count"
| "count_emails_loop cutoff (e # es) count = count_emails_loop cutoff es (if entry_InternalDate e < cutoff then count + 1 else count)"

definition CountEmailsBefore :: "fileStore \<Rightarrow> gotime \<Rightarrow> int store_io" where
  "CountEmailsBefore s cutoff =
     (if IsZero cutoff then ret 0
      else
        bindIO (wrapErr ''CountEmailsBefore: load data file'' (loadDataFile s)) (\<lambda>df.
        ret (count_emails_loop cutoff (df_Emails df) 0)))"

section \<open>Paths are unique and readable\<close>

lemma digit_first_clean: "list_all is_digit s \<Longrightarrow> s \<noteq> [] \<Longrightarrow> \<not> prefix ''.tmp-'' (s @ t)"
  by (cases s) (auto simp: is_digit_def)

lemma email_parts_clean:
  "\<not> prefix ''.tmp-'' (dec_string n)" "\<not> prefix ''.tmp-'' (email_file uid)" "\<not> prefix ''.tmp-'' (email_month t)"
proof -
  show "\<not> prefix ''.tmp-'' (dec_string n)" "\<not> prefix ''.tmp-'' (email_file uid)"
    using digit_first_clean [OF dec_string_digits dec_string_nonempty, of n "[]"]
      digit_first_clean [OF zero_pad_digits [OF dec_string_digits] zero_pad_nonempty [OF dec_string_nonempty], of 10 "unat uid" "''.eml''"]
    by (simp_all add: email_file_def)
  obtain y m d where c: "civil_of_day (day_number t) = (y, m, d)" by (cases "civil_of_day (day_number t)") blast
  then show "\<not> prefix ''.tmp-'' (email_month t)"
    using digit_first_clean [OF zero_pad_digits [OF dec_string_digits] zero_pad_nonempty [OF dec_string_nonempty], of 4 "nat y"]
    by (simp add: email_month_def format_200601_def year_string_def)
qed

lemma buildEmailPath_clean [simp]: "clean (buildEmailPath root uid uv t) = clean root"
  by (simp add: buildEmailPath_def email_parts_clean)

lemma email_file_inj [simp]: "email_file uid = email_file uid' \<longleftrightarrow> uid = uid'"
proof
  assume "email_file uid = email_file uid'"
  then have "digits_val (zero_pad 10 (dec_string (unat uid))) = digits_val (zero_pad 10 (dec_string (unat uid')))"
    by (simp add: email_file_def)
  then show "uid = uid'" by (simp add: zero_pad_val)
qed simp

lemma buildEmailPath_inj:
  "buildEmailPath root uid uv t = buildEmailPath root uid' uv' t' \<longleftrightarrow> uid = uid' \<and> uv = uv' \<and> email_month t = email_month t'"
  by (auto simp: buildEmailPath_def)

lemma parseEmailPath_build: "parseEmailPath [dec_string (unat uv), mm, email_file uid] = Some (uid, uv)"
  by (simp add: parseEmailPath_def email_file_def)

lemma relative_email_path:
  "drop (length (emailsPath root)) (buildEmailPath root uid uv t) = [dec_string (unat uv), email_month t, email_file uid]"
  by (simp add: buildEmailPath_def emailsPath_def)

text \<open>
  C23. The path of a stored mail identifies it: from the path below \<^verbatim>\<open>emails/\<close> of a mail dated in the years
  0 to 9999 the loader recovers uid and uidvalidity, and without an index entry it falls back to the
  first instant of the month, which is not later than the date and names the same file; different
  uids or uidvalidities never share a path.
\<close>

theorem email_path_roundtrip:
  assumes "0 \<le> year_of t" "year_of t \<le> 9999"
    and "rel = drop (length (emailsPath root)) (buildEmailPath root uid uv t)"
  shows "parseEmailPath rel = Some (uid, uv)
    \<and> internalDateFromEmailPath rel = Inr (month_start t)
    \<and> month_start t \<le> t
    \<and> buildEmailPath root uid uv (month_start t) = buildEmailPath root uid uv t
    \<and> (buildEmailPath root uid uv t = buildEmailPath root uid' uv' t' \<longrightarrow> uid' = uid \<and> uv' = uv)"
  using format_200601_parse [OF assms(1,2)] assms(3)
  by (auto simp: relative_email_path parseEmailPath_build internalDateFromEmailPath_def email_month_def
      buildEmailPath_inj month_start_le)

text \<open>A mail of 17 June 2024.\<close>

theorem email_path_roundtrip_witness:
  "parseEmailPath [''7'', ''202406'', ''0000000042.eml''] = Some (42, 7)
     \<and> internalDateFromEmailPath [''7'', ''202406'', ''0000000042.eml''] = Inr (month_start (739053 * nanos_per_day))"
proof -
  have y: "year_of (739053 * nanos_per_day) = 2024" by code_simp
  have p: "drop (length (emailsPath [''s''])) (buildEmailPath [''s''] 42 7 (739053 * nanos_per_day)) = [''7'', ''202406'', ''0000000042.eml'']"
    by code_simp
  from email_path_roundtrip [of "739053 * nanos_per_day" _ "[''s'']" 42 7] y p show ?thesis by simp
qed

section \<open>Saving a mail\<close>

text \<open>What any run of \<^verbatim>\<open>SaveEmail\<close> may change: missing parent directories, with mode 0700, and the missing file.\<close>

definition saved_at :: "path \<Rightarrow> content \<Rightarrow> store_view \<Rightarrow> store_view \<Rightarrow> bool" where
  "saved_at target c V V' \<longleftrightarrow>
     (\<forall>q. V' q = V q \<or> V q = None \<and> strict_prefix q target \<and> V' q = Some (Dir dirPerm)
        \<or> V q = None \<and> q = target \<and> V' q = Some (Reg filePerm c))"

lemma saved_at_refl [simp, intro]: "saved_at target c V V"
  by (simp add: saved_at_def)

lemma saved_at_mkdirs:
  assumes "\<forall>q \<in> set ps. strict_prefix q target"
  shows "saved_at target c V (v_mkdirs dirPerm ps V)"
  unfolding saved_at_def
proof
  fix q
  show "v_mkdirs dirPerm ps V q = V q \<or> V q = None \<and> strict_prefix q target \<and> v_mkdirs dirPerm ps V q = Some (Dir dirPerm)
      \<or> V q = None \<and> q = target \<and> v_mkdirs dirPerm ps V q = Some (Reg filePerm c)"
    using assms by (cases "V q"; cases "q \<in> set ps") (simp_all add: v_mkdirs_def)
qed

lemma saved_at_write:
  assumes "saved_at target c V V'" "V target = None" "V' target = None"
  shows "saved_at target c V (V'(target \<mapsto> Reg 384 c))"
  using assms by (auto simp: saved_at_def filePerm_def)

lemma strict_prefix_butlast: "p \<noteq> [] \<Longrightarrow> prefix q (butlast p) \<Longrightarrow> strict_prefix q p"
proof -
  assume p: "p \<noteq> []" "prefix q (butlast p)"
  have "length q \<le> length p - 1" using prefix_length_le [OF p(2)] by simp
  moreover have "0 < length p" using p(1) by simp
  ultimately have "length q < length p" by linarith
  moreover have "prefix q p" using p(2) prefixeq_butlast by (rule prefix_order.trans)
  ultimately show ?thesis by (auto simp: strict_prefix_def)
qed

lemma vwp_save_new:
  assumes "clean target" "target \<noteq> []" "V target = None"
  shows "vwp calm (bindIO (wrapErr ctx (ensureDirExists (butlast target))) (\<lambda>_. atomicWriteFile target c))
    (\<lambda>_ V'. saved_at target c V V' \<and> V' target = Some (Reg filePerm c)) (\<lambda>_. saved_at target c V) (saved_at target c V) V"
proof -
  have pre: "\<forall>q \<in> set (prefixes (butlast target)). strict_prefix q target"
    using strict_prefix_butlast [OF assms(2)] by simp
  have none: "v_mkdirs dirPerm (prefixes (butlast target)) V target = None"
    using pre assms(3) by (auto simp: v_mkdirs_def)
  have wr: "vwp calm (atomicWriteFile target c) (\<lambda>_ V'. saved_at target c V V' \<and> V' target = Some (Reg filePerm c))
      (\<lambda>_. saved_at target c V) (saved_at target c V) V'"
    if V': "saved_at target c V V'" "V' target = None" for V'
    by (rule vwp_atomicWriteFile) (use assms V' saved_at_write [OF V'(1) assms(3) V'(2)] in \<open>auto simp: filePerm_def\<close>)
  show ?thesis
    apply (rule vwp_bind, rule vwp_mapErr, rule vwp_ensureDirExists)
    using assms(1) wr [OF saved_at_refl assms(3)] wr [OF saved_at_mkdirs [OF pre] none]
      saved_at_mkdirs [of "filter (\<lambda>q. q \<in> set ps) (prefixes (butlast target))" target c V for ps] pre
    by (auto simp: Let_def)
qed

lemma vwp_SaveEmail:
  assumes "clean (rootDir s)" "target = buildEmailPath (rootDir s) uid uv t"
  shows "vwp calm (SaveEmail s uid uv t raw)
    (\<lambda>_ V'. saved_at target (CRaw raw) V V' \<and> \<not> readOnly s \<and> (\<exists>m c. V' target = Some (Reg m c)))
    (\<lambda>_. saved_at target (CRaw raw) V) (saved_at target (CRaw raw) V) V"
proof -
  have c: "clean target" "target \<noteq> []" using assms by (simp_all add: buildEmailPath_def email_parts_clean)
  have new: "vwp calm (bindIO (wrapErr ''SaveEmail: ensure dir'' (ensureDirExists (butlast target))) (\<lambda>_. atomicWriteFile target (CRaw raw)))
    (\<lambda>_ V'. saved_at target (CRaw raw) V V' \<and> \<not> readOnly s \<and> (\<exists>m c. V' target = Some (Reg m c))) (\<lambda>_. saved_at target (CRaw raw) V) (saved_at target (CRaw raw) V) V"
    if "V target = None" "\<not> readOnly s"
    by (rule vwp_conseq [OF vwp_save_new [of target V, OF c that(1)]]) (use that in auto)
  show ?thesis
    unfolding SaveEmail_def assms(2) [symmetric] Let_def
    apply (rule vwp_if, simp add: vwp_fail)
    apply (rule vwp_if, simp add: vwp_fail)
    apply (rule vwp_bind, rule vwp_attempt, rule vwp_stat [OF c(1)])
    subgoal for n by (cases n) (auto intro!: vc)
    subgoal using new by (auto intro!: vwp_if vwp_fail simp: is_not_exist_def)
    subgoal by (auto intro!: vwp_if vwp_fail simp: is_not_exist_def)
    done
qed

text \<open>
  C21. Storing a mail under every schedule of faults and crashes: nothing that existed is changed or
  overwritten; what is new is the complete file with mode 0600 or missing parent directories with
  mode 0700; and when it reports success the file is there.
\<close>

theorem SaveEmail_preserves:
  assumes "clean (rootDir s)" "SaveEmail s uid uv t raw w = (r, w')"
  shows "(\<forall>q n. view w q = Some n \<longrightarrow> view w' q = Some n)
    \<and> (\<forall>q n. view w q = None \<and> view w' q = Some n \<longrightarrow>
         q = buildEmailPath (rootDir s) uid uv t \<and> n = Reg filePerm (CRaw raw)
         \<or> strict_prefix q (buildEmailPath (rootDir s) uid uv t) \<and> n = Dir dirPerm)
    \<and> (r = Ok () \<longrightarrow> (\<exists>m c. view w' (buildEmailPath (rootDir s) uid uv t) = Some (Reg m c)))"
proof -
  have s: "saved_at (buildEmailPath (rootDir s) uid uv t) (CRaw raw) (view w) (view w')"
    and ok: "r = Ok () \<longrightarrow> (\<exists>m c. view w' (buildEmailPath (rootDir s) uid uv t) = Some (Reg m c))"
    using vwp_cases [OF vwp_SaveEmail [OF assms(1) refl, where calm = False] _ assms(2)]
    by (auto simp: quiet_def split: outcome.splits)
  have "view w q = Some n \<Longrightarrow> view w' q = Some n" for q n
    using s unfolding saved_at_def by (metis option.distinct(1))
  moreover have "view w q = None \<Longrightarrow> view w' q = Some n \<Longrightarrow>
      q = buildEmailPath (rootDir s) uid uv t \<and> n = Reg filePerm (CRaw raw)
      \<or> strict_prefix q (buildEmailPath (rootDir s) uid uv t) \<and> n = Dir dirPerm" for q n
    using s unfolding saved_at_def by (metis option.distinct(1) option.inject)
  ultimately show ?thesis using ok by blast
qed

theorem SaveEmail_preserves_witness:
  "\<exists>w'. SaveEmail sample_store 42 7 (739053 * nanos_per_day) ''Subject: x'' sample_world = (Ok (), w')
     \<and> (\<exists>m c. view w' [''s'', ''emails'', ''7'', ''202406'', ''0000000042.eml''] = Some (Reg m c))"
proof -
  have "fst (SaveEmail sample_store 42 7 (739053 * nanos_per_day) ''Subject: x'' sample_world) = Ok ()" by code_simp
  then obtain w' where run: "SaveEmail sample_store 42 7 (739053 * nanos_per_day) ''Subject: x'' sample_world = (Ok (), w')"
    by (metis prod.collapse)
  have p: "buildEmailPath (rootDir sample_store) 42 7 (739053 * nanos_per_day) = [''s'', ''emails'', ''7'', ''202406'', ''0000000042.eml'']"
    by code_simp
  have "clean (rootDir sample_store)" by (simp add: sample_store_def)
  from SaveEmail_preserves [OF this run] run show ?thesis by (simp add: p)
qed

section \<open>The email index\<close>

definition add_entry :: "internalEmailIndexEntry list \<Rightarrow> internalEmailIndexEntry \<Rightarrow> internalEmailIndexEntry list" where
  "add_entry xs e = (if entry_key e \<in> set (map entry_key xs) then xs else xs @ [e])"

lemma entry_table_snoc:
  "map_of (map (\<lambda>x. (entry_key x, x)) (xs @ [e])) k =
     (case map_of (map (\<lambda>x. (entry_key x, x)) xs) k of Some y \<Rightarrow> Some y | None \<Rightarrow> if k = entry_key e then Some e else None)"
  by (simp add: map_add_def split: option.split)

lemma entry_table_absent: "k \<notin> set (map entry_key xs) \<Longrightarrow> map_of (map (\<lambda>x. (entry_key x, x)) xs) k = None"
  by (force simp: map_of_eq_None_iff)

interpretation metas: keyed_upsert add_entry entry_key False
proof
  fix xs r and k :: emailKey
  assume "distinct (map entry_key xs)"
  then show "distinct (map entry_key (add_entry xs r)) \<and> set (map entry_key (add_entry xs r)) = insert (entry_key r) (set (map entry_key xs))"
    by (auto simp: add_entry_def)
  show "map_of (map (\<lambda>x. (entry_key x, x)) (add_entry xs r)) k =
      (if k = entry_key r \<and> (False \<or> entry_key r \<notin> set (map entry_key xs)) then Some r else map_of (map (\<lambda>x. (entry_key x, x)) xs) k)"
    unfolding add_entry_def
    by (cases "entry_key r \<in> set (map entry_key xs)") (auto simp del: map_append set_map simp: entry_table_snoc entry_table_absent split: option.split)
qed

lemma save_metas_loop_fold:
  "existing = set (map entry_key emails) \<Longrightarrow>
   save_metas_loop emails existing metas =
     (if list_ex (\<lambda>m. IsZero (meta_InternalDate m)) metas then Inl ErrZeroInternalDate
      else Inr (foldl add_entry emails (map entry_of_meta metas)))"
proof (induction metas arbitrary: emails existing)
  case Nil
  then show ?case by simp
next
  case (Cons m ms)
  have k: "entry_key (entry_of_meta m) = (meta_UID m, meta_UIDValidity m)" by (simp add: entry_key_def entry_of_meta_def)
  have new: "set (map entry_key (emails @ [entry_of_meta m])) = insert (meta_UID m, meta_UIDValidity m) existing"
    using Cons.prems k by auto
  show ?case
    using Cons.IH [OF Cons.prems] Cons.IH [OF new [symmetric]] Cons.prems k add_entry_def [of emails "entry_of_meta m"] by simp
qed

definition entry_table :: "internalEmailIndexEntry list \<Rightarrow> (emailKey \<rightharpoonup> internalEmailIndexEntry)" where
  "entry_table es = map_of (map (\<lambda>e. (entry_key e, e)) es)"

definition emails_ok :: "internalDataFile \<Rightarrow> bool" where
  "emails_ok df \<longleftrightarrow> distinct (map entry_key (df_Emails df))"

definition save_metas :: "internalDataFile \<Rightarrow> EmailMeta list \<Rightarrow> internalDataFile" where
  "save_metas df ms = df\<lparr>df_Emails := foldl add_entry (df_Emails df) (map entry_of_meta ms)\<rparr>"

lemma vwp_SaveEmailMetas:
  assumes "clean (dataPath s)" "data_of s V = Some df"
  shows "vwp calm (SaveEmailMetas s ms)
    (\<lambda>_ V'. V' = put_data s (save_metas df ms) V \<and> \<not> readOnly s \<and> list_all (\<lambda>m. \<not> IsZero (meta_InternalDate m)) ms)
    (\<lambda>e V'. V' = V \<and> \<not> (calm \<and> \<not> readOnly s \<and> list_all (\<lambda>m. \<not> IsZero (meta_InternalDate m)) ms \<and> writable (dataPath s) V))
    (\<lambda>V'. \<not> calm \<and> (V' = V \<or> V' = put_data s (save_metas df ms) V)) V"
  using assms unfolding SaveEmailMetas_def save_metas_def put_data_def
  by (auto intro!: vc simp: save_metas_loop_fold list_ex_iff list_all_iff split: if_splits)

text \<open>
  C20. Registering mails in the index is one atomic update under every schedule, refused as a whole if any
  date is zero: keys stay unique, an entry that was there keeps its date, the first of several new
  entries for one key is taken, reports are untouched, and registering the same batch again changes
  no entry.
\<close>

theorem SaveEmailMetas_atomic_insert:
  assumes "clean (dataPath s)" "data_of s (view w) = Some df" "emails_ok df" "SaveEmailMetas s ms w = (r, w')"
  shows "(case r of
        Ok _ \<Rightarrow> view w' = put_data s (save_metas df ms) (view w) \<and> (\<forall>m \<in> set ms. \<not> IsZero (meta_InternalDate m))
      | Err e \<Rightarrow> view w' = view w
      | Crashed \<Rightarrow> view w' = view w \<or> view w' = put_data s (save_metas df ms) (view w))
    \<and> emails_ok (save_metas df ms)
    \<and> entry_table (df_Emails (save_metas df ms)) k =
        (case entry_table (df_Emails df) k of Some e \<Rightarrow> Some e | None \<Rightarrow> entry_table (map entry_of_meta ms) k)
    \<and> df_Reports (save_metas df ms) = df_Reports df
    \<and> entry_table (df_Emails (save_metas (save_metas df ms) ms)) = entry_table (df_Emails (save_metas df ms))"
proof (intro conjI)
  have d: "distinct (map entry_key (df_Emails df))" using assms(3) by (simp add: emails_ok_def)
  show "case r of
        Ok _ \<Rightarrow> view w' = put_data s (save_metas df ms) (view w) \<and> (\<forall>m \<in> set ms. \<not> IsZero (meta_InternalDate m))
      | Err e \<Rightarrow> view w' = view w
      | Crashed \<Rightarrow> view w' = view w \<or> view w' = put_data s (save_metas df ms) (view w)"
    using vwp_cases [OF vwp_SaveEmailMetas [OF assms(1,2), where calm = False] _ assms(4)]
    by (auto simp: quiet_def list_all_iff split: outcome.splits)
  show "emails_ok (save_metas df ms)"
    using metas.fold_keys [OF d] by (simp add: emails_ok_def save_metas_def)
  show "entry_table (df_Emails (save_metas df ms)) k =
      (case entry_table (df_Emails df) k of Some e \<Rightarrow> Some e | None \<Rightarrow> entry_table (map entry_of_meta ms) k)"
    using metas.fold_table [OF d, of "map entry_of_meta ms" k] by (simp add: save_metas_def entry_table_def map_add_def del: map_map split: option.split)
  show "entry_table (df_Emails (save_metas (save_metas df ms) ms)) = entry_table (df_Emails (save_metas df ms))"
    using metas.fold_idem [OF d, of "map entry_of_meta ms"] by (simp add: save_metas_def entry_table_def)
qed (simp add: save_metas_def)

theorem SaveEmailMetas_atomic_insert_witness:
  "\<exists>w'. SaveEmailMetas sample_store [\<lparr>meta_UID = 42, meta_UIDValidity = 7, meta_InternalDate = 9\<rparr>] sample_world = (Ok (), w')
     \<and> view w' = put_data sample_store (save_metas sample_data [\<lparr>meta_UID = 42, meta_UIDValidity = 7, meta_InternalDate = 9\<rparr>]) (view sample_world)"
proof -
  let ?m = "[\<lparr>meta_UID = 42, meta_UIDValidity = 7, meta_InternalDate = 9\<rparr>]"
  have "fst (SaveEmailMetas sample_store ?m sample_world) = Ok ()" by code_simp
  then obtain w' where run: "SaveEmailMetas sample_store ?m sample_world = (Ok (), w')" by (metis prod.collapse)
  have "emails_ok sample_data" by (simp add: emails_ok_def sample_data_def)
  from SaveEmailMetas_atomic_insert [OF sample_facts(1,3) this run] run show ?thesis by simp
qed

section \<open>Deleting old mails\<close>

definition only_removed :: "path set \<Rightarrow> store_view \<Rightarrow> store_view \<Rightarrow> bool" where
  "only_removed P V V' \<longleftrightarrow> (\<forall>q. V' q = V q \<or> V' q = None \<and> q \<in> P)"

lemma only_removed_refl [simp]: "only_removed P V V"
  by (simp add: only_removed_def)

lemma only_removed_trans: "only_removed P V V1 \<Longrightarrow> only_removed P V1 V2 \<Longrightarrow> only_removed P V V2"
  unfolding only_removed_def by (metis (no_types))

lemma only_removed_del: "p \<in> P \<Longrightarrow> only_removed P V (V(p := None))"
  by (simp add: only_removed_def)

lemma only_removed_none: "only_removed P V V' \<Longrightarrow> V q = None \<Longrightarrow> V' q = None"
  unfolding only_removed_def by (metis (no_types))

lemma only_removed_keep: "only_removed P V V' \<Longrightarrow> q \<notin> P \<Longrightarrow> V' q = V q"
  unfolding only_removed_def by (metis (no_types))

lemma emlPath_clean [simp]: "clean (rootDir s) \<Longrightarrow> clean (emlPath s e)"
  by (simp add: emlPath_def)

definition expired :: "gotime \<Rightarrow> internalEmailIndexEntry list \<Rightarrow> internalEmailIndexEntry set" where
  "expired cutoff es = {e \<in> set es. entry_InternalDate e < cutoff}"

text \<open>After the loop: the entries dealt with are a set \<open>G\<close> of expired ones, and their files are gone.\<close>

definition loop_done :: "fileStore \<Rightarrow> gotime \<Rightarrow> internalEmailIndexEntry list \<Rightarrow> internalEmailIndexEntry list \<Rightarrow> internalEmailIndexEntry list \<Rightarrow>
    go_error list \<Rightarrow> internalEmailIndexEntry list \<times> internalEmailIndexEntry list \<times> go_error list \<Rightarrow> store_view \<Rightarrow> bool" where
  "loop_done s cutoff es sv gc errs = (\<lambda>(sv', gc', errs') V'. (\<forall>g \<in> set gc'. V' (emlPath s g) = None) \<and>
     (\<exists>G. G \<subseteq> expired cutoff es \<and> sv' = sv @ filter (\<lambda>e. e \<notin> G) es \<and> gc' = gc @ filter (\<lambda>e. e \<in> G) es
        \<and> prefix errs errs' \<and> (errs' = errs \<longrightarrow> expired cutoff es \<subseteq> G)))"

lemma loop_doneI:
  assumes "G \<subseteq> expired cutoff es" "\<forall>g \<in> set gc'. V (emlPath s g) = None" "sv' = sv @ filter (\<lambda>e. e \<notin> G) es"
    "gc' = gc @ filter (\<lambda>e. e \<in> G) es" "prefix errs errs'" "errs' = errs \<Longrightarrow> expired cutoff es \<subseteq> G"
  shows "loop_done s cutoff es sv gc errs (sv', gc', errs') V"
  unfolding loop_done_def prod.case using assms by (intro conjI exI [of _ G]) simp_all

lemma loop_doneE:
  assumes "loop_done s cutoff es sv gc errs (sv', gc', errs') V"
  obtains G where "G \<subseteq> expired cutoff es" "\<forall>g \<in> set gc'. V (emlPath s g) = None" "sv' = sv @ filter (\<lambda>e. e \<notin> G) es"
    "gc' = gc @ filter (\<lambda>e. e \<in> G) es" "prefix errs errs'" "errs' = errs \<Longrightarrow> expired cutoff es \<subseteq> G"
  using assms unfolding loop_done_def prod.case by blast

lemma expired_Cons: "expired cutoff (e # es) = (if entry_InternalDate e < cutoff then insert e (expired cutoff es) else expired cutoff es)"
  by (auto simp: expired_def)

lemma loop_done_step:
  assumes "e \<notin> set es"
  shows "\<not> entry_InternalDate e < cutoff \<Longrightarrow> loop_done s cutoff es (sv @ [e]) gc errs r V \<Longrightarrow> loop_done s cutoff (e # es) sv gc errs r V"
    and "entry_InternalDate e < cutoff \<Longrightarrow> loop_done s cutoff es (sv @ [e]) gc (errs @ [x]) r V \<Longrightarrow> loop_done s cutoff (e # es) sv gc errs r V"
    and "entry_InternalDate e < cutoff \<Longrightarrow> loop_done s cutoff es sv (gc @ [e]) errs r V \<Longrightarrow> loop_done s cutoff (e # es) sv gc errs r V"
proof -
  obtain sv' gc' errs' where r: "r = (sv', gc', errs')" by (cases r) blast
  have notin: "G \<subseteq> expired cutoff es \<Longrightarrow> e \<notin> G" for G using assms by (auto simp: expired_def)
  { assume e: "\<not> entry_InternalDate e < cutoff" and l: "loop_done s cutoff es (sv @ [e]) gc errs r V"
    from l [unfolded r] show "loop_done s cutoff (e # es) sv gc errs r V"
    proof (rule loop_doneE, goal_cases)
      case (1 G)
      with notin [OF 1(1)] e show ?case unfolding r by (intro loop_doneI [of G]) (simp_all add: expired_Cons)
    qed }
  { assume e: "entry_InternalDate e < cutoff" and l: "loop_done s cutoff es (sv @ [e]) gc (errs @ [x]) r V"
    from l [unfolded r] show "loop_done s cutoff (e # es) sv gc errs r V"
    proof (rule loop_doneE, goal_cases)
      case (1 G)
      have "prefix errs errs'" "errs' \<noteq> errs" using 1(5) by (auto simp: prefix_def)
      with 1 notin [OF 1(1)] e show ?case
        unfolding r by (intro loop_doneI [of G]) (auto simp: expired_Cons)
    qed }
  { assume e: "entry_InternalDate e < cutoff" and l: "loop_done s cutoff es sv (gc @ [e]) errs r V"
    have f: "filter (\<lambda>x. x \<notin> insert e G) es = filter (\<lambda>x. x \<notin> G) es" "filter (\<lambda>x. x \<in> insert e G) es = filter (\<lambda>x. x \<in> G) es" for G
      using assms by (auto intro!: filter_cong)
    from l [unfolded r] show "loop_done s cutoff (e # es) sv gc errs r V"
    proof (rule loop_doneE, goal_cases)
      case (1 G)
      with e f [of G] show ?case unfolding r by (intro loop_doneI [of "insert e G"]) (auto simp: expired_Cons)
    qed }
qed

lemma vwp_delete_loop:
  assumes "clean (rootDir s)" "distinct es" "emlPath s ` expired cutoff es \<subseteq> P" "only_removed P V0 V" "\<forall>g \<in> set gc. V (emlPath s g) = None"
  shows "vwp calm (delete_emails_loop s cutoff es sv gc errs)
    (\<lambda>r V'. only_removed P V0 V' \<and> loop_done s cutoff es sv gc errs r V') (\<lambda>_ _. False) (only_removed P V0) V"
  using assms(2-)
proof (induction es arbitrary: V sv gc errs)
  case Nil
  then show ?case by (auto intro!: vwp_ret simp: loop_done_def expired_def)
next
  case (Cons e es)
  have e: "e \<notin> set es" "distinct es" "emlPath s ` expired cutoff es \<subseteq> P"
    using Cons.prems(1,2) by (auto simp: expired_def)
  note IH = Cons.IH [OF e(2,3)]
  show ?case
  proof (cases "entry_InternalDate e < cutoff")
    case False
    then show ?thesis
      using vwp_conseq [OF IH [OF Cons.prems(3,4)]] loop_done_step(1) [OF e(1) False] by auto
  next
    case True
    then have p: "emlPath s e \<in> P" using Cons.prems(2) by (auto simp: expired_def)
    have del: "only_removed P V0 (V(emlPath s e := None))" "\<forall>g \<in> set (gc @ [e]). (V(emlPath s e := None)) (emlPath s g) = None"
      using Cons.prems(3,4) only_removed_del [OF p, of V] only_removed_trans by auto
    have gone: "vwp calm (delete_emails_loop s cutoff es sv (gc @ [e]) errs)
        (\<lambda>r V'. only_removed P V0 V' \<and> loop_done s cutoff (e # es) sv gc errs r V') (\<lambda>_ _. False) (only_removed P V0) V'"
      if "only_removed P V0 V'" "\<forall>g \<in> set (gc @ [e]). V' (emlPath s g) = None" for V'
      by (rule vwp_conseq [OF IH [OF that]]) (use loop_done_step(3) [OF e(1) True] in auto)
    have kept: "vwp calm (delete_emails_loop s cutoff es (sv @ [e]) gc (errs @ [x]))
        (\<lambda>r V'. only_removed P V0 V' \<and> loop_done s cutoff (e # es) sv gc errs r V') (\<lambda>_ _. False) (only_removed P V0) V" for x
      by (rule vwp_conseq [OF IH [OF Cons.prems(3,4)]]) (use loop_done_step(2) [OF e(1) True] in auto)
    have absent: "V (emlPath s e) = None \<Longrightarrow> \<forall>g \<in> set (gc @ [e]). V (emlPath s g) = None" using Cons.prems(4) by auto
    show ?thesis
      using True apply simp
      apply (rule vwp_bind, rule vwp_attempt, rule vwp_remove)
           apply (simp add: assms(1))
      using gone [OF del] gone [OF Cons.prems(3) absent] kept Cons.prems(3)
      by (auto simp: is_not_exist_def fun_upd_def)
  qed
qed

text \<open>Removing empty directories only removes the directories it is given.\<close>

lemma vwp_removeEmptyDirs:
  assumes "\<forall>d \<in> set ds. clean d \<and> d \<in> P" "only_removed P V0 V"
  shows "vwp calm (removeEmptyDirs ds) (\<lambda>_. only_removed P V0) (\<lambda>_ _. False) (only_removed P V0) V"
  using assms
proof (induction ds arbitrary: V)
  case Nil
  then show ?case by (auto intro!: vwp_ret)
next
  case (Cons d ds)
  then have d: "clean d" "d \<in> P" "only_removed P V0 (V(d := None))"
    using only_removed_trans [OF Cons.prems(2) only_removed_del] by auto
  have rest: "vwp calm (removeEmptyDirs ds) (\<lambda>_. only_removed P V0) (\<lambda>_ _. False) (only_removed P V0) V'"
    if "only_removed P V0 V'" for V'
    using Cons.IH [OF _ that] Cons.prems(1) by simp
  show ?case
    unfolding removeEmptyDirs.simps removeDirIfEmpty_def
    using d Cons.prems(2) rest [OF d(3)] rest [OF Cons.prems(2)] by (auto intro!: vc simp: fun_upd_def)
qed

definition email_dirs :: "fileStore \<Rightarrow> path set" where
  "email_dirs s = {emailsDirPath s @ [a] |a. True} \<union> {emailsDirPath s @ [a, b] |a b. True}"

lemma email_dirs_mem [simp]: "emailsDirPath s @ [a] \<in> email_dirs s" "emailsDirPath s @ [a, b] \<in> email_dirs s"
  by (simp_all add: email_dirs_def)

lemma vwp_cleanupEmptyDirs:
  assumes "clean (emailsDirPath s)" "email_dirs s \<subseteq> P" "only_removed P V0 V"
  shows "vwp calm (cleanupEmptyDirs s gc) (\<lambda>_. only_removed P V0) (\<lambda>_ _. False) (only_removed P V0) V"
  unfolding cleanupEmptyDirs_def
  by (rule vwp_bind, rule vwp_conseq [OF vwp_removeEmptyDirs [OF _ assms(3)]])
    (use assms(1) subsetD [OF assms(2)] in \<open>auto simp: email_parts_clean intro!: vwp_removeEmptyDirs\<close>)

text \<open>
  The state after any run of \<^verbatim>\<open>DeleteEmailsBefore\<close>: a set \<open>G\<close> of expired entries has left the index, the
  files of \<open>G\<close> are gone, and apart from the data file only files of expired entries and directories
  below \<^verbatim>\<open>emails/\<close> have been removed.
\<close>

definition swept :: "fileStore \<Rightarrow> gotime \<Rightarrow> internalDataFile \<Rightarrow> internalEmailIndexEntry set \<Rightarrow> store_view \<Rightarrow> store_view \<Rightarrow> bool" where
  "swept s cutoff df G V V' \<longleftrightarrow> G \<subseteq> expired cutoff (df_Emails df) \<and> (\<forall>g \<in> G. V' (emlPath s g) = None)
     \<and> data_of s V' = Some (df\<lparr>df_Emails := filter (\<lambda>e. e \<notin> G) (df_Emails df)\<rparr>)
     \<and> (\<forall>q. q \<noteq> dataPath s \<longrightarrow> V' q = V q \<or> V' q = None \<and> (q \<in> emlPath s ` expired cutoff (df_Emails df) \<or> q \<in> email_dirs s))"

definition standard_store :: "fileStore \<Rightarrow> bool" where
  "standard_store s \<longleftrightarrow> clean (rootDir s) \<and> dataPath s = dataFilePath (rootDir s) \<and> emailsDirPath s = emailsPath (rootDir s)"

lemma standard_paths:
  assumes "standard_store s"
  shows "emlPath s e \<noteq> dataPath s" "dataPath s \<notin> email_dirs s" "emlPath s e \<notin> email_dirs s"
    "clean (rootDir s)" "clean (dataPath s)" "clean (emailsDirPath s)"
    "\<not> strict_prefix (emlPath s e) (dataPath s)" "q \<in> email_dirs s \<Longrightarrow> \<not> strict_prefix q (dataPath s)"
  using assms by (auto simp: standard_store_def emlPath_def buildEmailPath_def email_dirs_def path_defs strict_prefix_def)

lemma data_of_cong:
  assumes "V' (dataPath s) = V (dataPath s)" "\<And>q. strict_prefix q (dataPath s) \<Longrightarrow> V' q = V q"
  shows "data_of s V' = data_of s V"
proof -
  have "strict_prefix q (dataPath s) \<Longrightarrow> file_at V' q = file_at V q" for q using assms(2) by (simp add: file_at_def)
  then have "v_absent_errno V' (dataPath s) = v_absent_errno V (dataPath s)"
    unfolding v_absent_errno_def by (metis (no_types))
  with assms(1) show ?thesis by (simp add: data_of_def)
qed

definition sweep_paths :: "fileStore \<Rightarrow> gotime \<Rightarrow> internalDataFile \<Rightarrow> path set" where
  "sweep_paths s cutoff df = emlPath s ` expired cutoff (df_Emails df) \<union> email_dirs s"

lemma sweep_paths_apart:
  assumes "standard_store s" "q \<in> sweep_paths s cutoff df"
  shows "q \<noteq> dataPath s" "\<not> strict_prefix q (dataPath s)"
proof -
  consider e where "q = emlPath s e" | "q \<in> email_dirs s" using assms(2) by (auto simp: sweep_paths_def)
  then show "q \<noteq> dataPath s" "\<not> strict_prefix q (dataPath s)"
    using standard_paths(1,2,7,8) [OF assms(1)] by metis+
qed

lemma swept_nothing:
  assumes "standard_store s" "data_of s V = Some df" "only_removed (sweep_paths s cutoff df) V V'"
  shows "swept s cutoff df {} V V'"
proof -
  have "data_of s V' = data_of s V"
    using only_removed_keep [OF assms(3)] sweep_paths_apart [OF assms(1)] by (intro data_of_cong) blast+
  moreover have "V' q = V q \<or> V' q = None \<and> (q \<in> emlPath s ` expired cutoff (df_Emails df) \<or> q \<in> email_dirs s)" for q
    using assms(3) by (auto simp: only_removed_def sweep_paths_def)
  ultimately show ?thesis using assms(2) by (simp add: swept_def)
qed

lemma swept_written:
  assumes "standard_store s" "df_Version df = DataFileVersion" "only_removed (sweep_paths s cutoff df) V V1"
    "G \<subseteq> expired cutoff (df_Emails df)" "\<forall>g \<in> G. V1 (emlPath s g) = None" "sv = filter (\<lambda>e. e \<notin> G) (df_Emails df)"
    "only_removed (email_dirs s) (put_data s (df\<lparr>df_Emails := sv\<rparr>) V1) V'"
  shows "swept s cutoff df G V V'"
  unfolding swept_def
proof (intro conjI)
  have k: "V' q = put_data s (df\<lparr>df_Emails := sv\<rparr>) V1 q" if "q \<notin> email_dirs s" for q
    using only_removed_keep [OF assms(7) that] .
  have d: "V' (dataPath s) = Some (Reg 384 (CData (df\<lparr>df_Emails := sv\<rparr>)))"
    using k [OF standard_paths(2) [OF assms(1)]] by (simp add: put_data_def)
  then show "data_of s V' = Some (df\<lparr>df_Emails := filter (\<lambda>e. e \<notin> G) (df_Emails df)\<rparr>)"
    using assms(2,6) by (simp add: data_of_def)
  show "\<forall>g \<in> G. V' (emlPath s g) = None"
    using assms(5) k standard_paths(1,3) [OF assms(1)] by (simp add: put_data_def)
  show "\<forall>q. q \<noteq> dataPath s \<longrightarrow> V' q = V q \<or> V' q = None \<and> (q \<in> emlPath s ` expired cutoff (df_Emails df) \<or> q \<in> email_dirs s)"
  proof (intro allI impI)
    fix q assume q: "q \<noteq> dataPath s"
    have "V' q = V1 q \<or> V' q = None \<and> q \<in> email_dirs s"
      using spec [OF assms(7) [unfolded only_removed_def], of q] q by (simp add: put_data_def)
    moreover have "V1 q = V q \<or> V1 q = None \<and> q \<in> sweep_paths s cutoff df" using assms(3) by (simp add: only_removed_def)
    ultimately show "V' q = V q \<or> V' q = None \<and> (q \<in> emlPath s ` expired cutoff (df_Emails df) \<or> q \<in> email_dirs s)"
      by (auto simp: sweep_paths_def)
  qed
qed (rule assms(4))

text \<open>What the results of a run promise, and the part of it after the loop over the index.\<close>

definition sweep_result :: "fileStore \<Rightarrow> gotime \<Rightarrow> internalDataFile \<Rightarrow> store_view \<Rightarrow> int \<times> go_error list \<Rightarrow> store_view \<Rightarrow> bool" where
  "sweep_result s cutoff df V r V' \<longleftrightarrow> (case r of (n, errs) \<Rightarrow>
     \<exists>G. swept s cutoff df G V V' \<and> (errs = [] \<longrightarrow> \<not> IsZero cutoff \<longrightarrow> G = expired cutoff (df_Emails df) \<and> n = int (card G)))"

lemma loop_done_card: "G \<subseteq> set es \<Longrightarrow> distinct es \<Longrightarrow> gc = filter (\<lambda>e. e \<in> G) es \<Longrightarrow> length gc = card G"
proof -
  assume a: "G \<subseteq> set es" "distinct es" "gc = filter (\<lambda>e. e \<in> G) es"
  then have "set gc = G" "distinct gc" by auto
  then show ?thesis using distinct_card [of gc] by simp
qed

lemma vwp_sweep_finish:
  assumes "standard_store s" "data_of s V = Some df" "df_Version df = DataFileVersion" "distinct (df_Emails df)"
    and V1: "only_removed (sweep_paths s cutoff df) V V1" "loop_done s cutoff (df_Emails df) [] [] [] (sv, gc, errs) V1"
  shows "vwp calm (if gc = [] then ret (0, errs)
        else
          bindIO (attempt (saveDataFile s (df\<lparr>df_Emails := sv\<rparr>))) (\<lambda>r. case r of
            Inl saveErr \<Rightarrow> ret (int (length gc), errs @ [Wrap ''DeleteEmailsBefore: save data file'' saveErr])
          | Inr _ \<Rightarrow> bindIO (cleanupEmptyDirs s gc) (\<lambda>_. ret (int (length gc), errs))))
      (sweep_result s cutoff df V) (\<lambda>e V'. V' = V) (\<lambda>V'. \<exists>G. swept s cutoff df G V V') V1"
  using V1(2)
proof (rule loop_doneE, goal_cases)
  case (1 G)
  note p = standard_paths [OF assms(1)] and idle = swept_nothing [OF assms(1,2)]
  have card: "length gc = card G" by (rule loop_done_card [OF _ assms(4)]) (use 1(1,4) in \<open>auto simp: expired_def\<close>)
  have "\<forall>g \<in> G. V1 (emlPath s g) = None" using 1(1,2,4) by (auto simp: expired_def)
  then have wr: "swept s cutoff df G V V'" if "only_removed (email_dirs s) (put_data s (df\<lparr>df_Emails := sv\<rparr>) V1) V'" for V'
    using swept_written [OF assms(1,3) V1(1) 1(1) _ _ that] 1(3) by auto
  have res: "swept s cutoff df G V V' \<Longrightarrow> sweep_result s cutoff df V (int (length gc), errs) V'" for V'
    using 1(1,6) card by (auto simp: sweep_result_def)
  have none: "gc = [] \<Longrightarrow> sweep_result s cutoff df V (0, errs) V1"
    using idle [OF V1(1)] 1(1,4,6) by (auto simp: sweep_result_def expired_def filter_empty_conv intro!: exI [of _ "{}"])
  have clean_up: "vwp calm (bindIO (cleanupEmptyDirs s gc) (\<lambda>_. ret (int (length gc), errs))) (sweep_result s cutoff df V) (\<lambda>e V'. V' = V)
      (\<lambda>V'. \<exists>G. swept s cutoff df G V V') (put_data s (df\<lparr>df_Emails := sv\<rparr>) V1)"
    by (rule vwp_bind, rule vwp_conseq [OF vwp_cleanupEmptyDirs [OF p(6) subset_refl only_removed_refl]])
      (use wr res in \<open>auto intro!: vwp_ret\<close>)
  show ?case
    apply (rule vwp_if, rule vwp_ret, erule none)
    apply (rule vwp_bind, rule vwp_attempt, rule vwp_saveDataFile [OF p(5)])
    subgoal using clean_up by (simp add: put_data_def)
    subgoal for e using idle [OF V1(1)] by (auto simp: sweep_result_def intro!: vwp_ret)
    subgoal using idle [OF V1(1)] by blast
    subgoal using wr [OF only_removed_refl] by (auto simp: put_data_def)
    done
qed

lemma vwp_DeleteEmailsBefore:
  assumes "standard_store s" "data_of s V = Some df" "df_Version df = DataFileVersion" "distinct (df_Emails df)"
  shows "vwp calm (DeleteEmailsBefore s cutoff)
    (\<lambda>(n, errs) V'. \<exists>G. swept s cutoff df G V V' \<and> (errs = [] \<longrightarrow> \<not> IsZero cutoff \<longrightarrow> G = expired cutoff (df_Emails df) \<and> n = int (card G)))
    (\<lambda>e V'. V' = V) (\<lambda>V'. \<exists>G. swept s cutoff df G V V') V"
proof -
  let ?P = "sweep_paths s cutoff df"
  note p = standard_paths [OF assms(1)]
  note idle = swept_nothing [OF assms(1,2)]
  have loop: "vwp calm (delete_emails_loop s cutoff (df_Emails df) [] [] [])
    (\<lambda>r V'. only_removed ?P V V' \<and> loop_done s cutoff (df_Emails df) [] [] [] r V') (\<lambda>_ _. False) (only_removed ?P V) V"
    by (rule vwp_delete_loop [OF p(4) assms(4)]) (auto simp: sweep_paths_def)
  have unchanged: "\<exists>G. swept s cutoff df G V V" using idle [OF only_removed_refl] by blast
  show ?thesis
    unfolding DeleteEmailsBefore_def
    apply (rule vwp_if, simp add: vwp_fail)
    apply (rule vwp_if, rule vwp_ret, use unchanged in simp)
    apply (rule vwp_bind, rule vwp_mapErr, rule vwp_loadDataFile [OF p(5)])
    subgoal premises prems for df'
    proof -
      have "df' = df" using prems(3) assms(2) by simp
      then show ?thesis
        by (auto intro!: vwp_bind vwp_conseq [OF loop] vwp_conseq [OF vwp_sweep_finish [OF assms]] idle simp: sweep_result_def)
    qed
    subgoal by simp
    subgoal using unchanged by simp
    done
qed

lemma data_of_version: "data_of s V = Some df \<Longrightarrow> df_Version df = DataFileVersion"
  by (auto simp: data_of_def emptyDataFile_def split: option.splits node.splits content.splits if_splits)

lemma distinct_keyE: "distinct (map entry_key es) \<Longrightarrow> e \<in> set es \<Longrightarrow> e' \<in> set es \<Longrightarrow> entry_key e = entry_key e' \<Longrightarrow> e = e'"
  by (auto simp: distinct_map dest: inj_onD)

lemma count_emails_loop: "count_emails_loop cutoff es n = n + int (length (filter (\<lambda>e. entry_InternalDate e < cutoff) es))"
  by (induction es arbitrary: n) simp_all

lemma swept_keeps:
  assumes "standard_store s" "swept s cutoff df G V V'" "emails_ok df" "e \<in> set (df_Emails df)" "cutoff \<le> entry_InternalDate e"
  shows "V' (emlPath s e) = V (emlPath s e)"
proof -
  have "emlPath s e \<notin> emlPath s ` expired cutoff (df_Emails df)"
  proof
    assume "emlPath s e \<in> emlPath s ` expired cutoff (df_Emails df)"
    then obtain x where x: "x \<in> set (df_Emails df)" "entry_InternalDate x < cutoff" "emlPath s e = emlPath s x"
      by (auto simp: expired_def)
    then have "e = x"
      using distinct_keyE [OF assms(3) [unfolded emails_ok_def] assms(4) x(1)] by (simp add: emlPath_def buildEmailPath_inj entry_key_def)
    with x(2) assms(5) show False by simp
  qed
  with assms(2) standard_paths(1,3) [OF assms(1), of e] show ?thesis unfolding swept_def by metis
qed

lemma vwp_CountEmailsBefore:
  assumes "clean (dataPath s)" "data_of s V = Some df" "distinct (df_Emails df)" "\<not> IsZero cutoff"
  shows "vwp calm (CountEmailsBefore s cutoff) (\<lambda>n V'. V' = V \<and> n = int (card (expired cutoff (df_Emails df))))
    (\<lambda>e V'. V' = V) (\<lambda>V'. V' = V) V"
  using assms distinct_card [OF distinct_filter [OF assms(3)], of "\<lambda>e. entry_InternalDate e < cutoff"]
  unfolding CountEmailsBefore_def by (auto intro!: vc simp: count_emails_loop expired_def)

text \<open>
  C7. Deleting old mails under every schedule of faults and crashes: the index loses only expired
  entries whose files are already gone, so a crash never leaves a file without its entry; a mail
  that is not expired keeps its entry and its file; outside the data file nothing but files of
  expired mails and directories below \<^verbatim>\<open>emails/\<close> disappears and nothing appears; an error return leaves
  everything as it was; and a run that ends without collected errors has removed every expired
  entry, as many as a count of the same store announces.
\<close>

theorem DeleteEmailsBefore_safe:
  assumes "standard_store s" "data_of s (view w) = Some df" "emails_ok df" "DeleteEmailsBefore s cutoff w = (r, w')"
  shows "(\<exists>G. swept s cutoff df G (view w) (view w') \<and>
       (\<forall>n. r = Ok (n, []) \<and> \<not> IsZero cutoff \<longrightarrow> G = expired cutoff (df_Emails df) \<and> n = int (card G) \<and>
          (CountEmailsBefore s cutoff v = (Ok m, v') \<and> view v = view w \<longrightarrow> m = n)))
    \<and> (\<forall>e. r = Err e \<longrightarrow> view w' = view w)
    \<and> (\<forall>e \<in> set (df_Emails df). cutoff \<le> entry_InternalDate e \<longrightarrow> view w' (emlPath s e) = view w (emlPath s e))"
proof -
  have d: "distinct (df_Emails df)" using assms(3) by (simp add: emails_ok_def distinct_map)
  note run = vwp_cases [OF vwp_DeleteEmailsBefore [OF assms(1,2) data_of_version [OF assms(2)] d, where calm = False] _ assms(4)]
  have count: "CountEmailsBefore s cutoff v = (Ok m, v') \<and> view v = view w \<longrightarrow> m = int (card (expired cutoff (df_Emails df)))"
    if "\<not> IsZero cutoff"
    using vwp_cases [OF vwp_CountEmailsBefore [OF standard_paths(5) [OF assms(1)] _ d that, where calm = False], of v "Ok m" v'] assms(2)
    by (auto simp: quiet_def)
  have id: "swept s cutoff df {} (view w) (view w)" using swept_nothing [OF assms(1,2) only_removed_refl] .
  have err: "r = Err e \<longrightarrow> view w' = view w" for e
    using run by (auto simp: quiet_def)
  obtain G where G: "swept s cutoff df G (view w) (view w')"
      "\<forall>n. r = Ok (n, []) \<and> \<not> IsZero cutoff \<longrightarrow> G = expired cutoff (df_Emails df) \<and> n = int (card G)"
    using run id by (cases r) (auto simp: quiet_def)
  have keep: "view w' (emlPath s e) = view w (emlPath s e)" if e: "e \<in> set (df_Emails df)" "cutoff \<le> entry_InternalDate e" for e
    using swept_keeps [OF assms(1) G(1) assms(3)] e by blast
  show ?thesis using G count err keep by blast
qed

definition sample_mail_data :: internalDataFile where
  "sample_mail_data = \<lparr>df_Version = 1, df_Reports = [],
     df_Emails = [\<lparr>entry_UID = 1, entry_UIDValidity = 7, entry_InternalDate = 9\<rparr>, \<lparr>entry_UID = 2, entry_UIDValidity = 7, entry_InternalDate = 20\<rparr>]\<rparr>"

definition sample_mail_world :: "content world" where
  "sample_mail_world = \<lparr>fs = [([], Dir 493), ([''s''], Dir 448), ([''s'', ''tlsrpt.json''], Reg 384 (CData sample_mail_data)),
     ([''s'', ''emails''], Dir 448), ([''s'', ''emails'', ''7''], Dir 448), ([''s'', ''emails'', ''7'', ''000101''], Dir 448),
     ([''s'', ''emails'', ''7'', ''000101'', ''0000000001.eml''], Reg 384 (CRaw ''a'')),
     ([''s'', ''emails'', ''7'', ''000101'', ''0000000002.eml''], Reg 384 (CRaw ''b''))], sched = [], clock = 100\<rparr>"

theorem DeleteEmailsBefore_safe_witness:
  "\<exists>w' G. DeleteEmailsBefore sample_store 15 sample_mail_world = (Ok (1, []), w')
     \<and> swept sample_store 15 sample_mail_data G (view sample_mail_world) (view w') \<and> G = expired 15 (df_Emails sample_mail_data)"
proof -
  have "fst (DeleteEmailsBefore sample_store 15 sample_mail_world) = Ok (1, [])" by code_simp
  then obtain w' where run: "DeleteEmailsBefore sample_store 15 sample_mail_world = (Ok (1, []), w')" by (metis prod.collapse)
  have s: "standard_store sample_store" "data_of sample_store (view sample_mail_world) = Some sample_mail_data" "emails_ok sample_mail_data"
    by (simp_all add: standard_store_def sample_store_def path_defs data_of_def visible_def sample_mail_world_def sample_mail_data_def
        DataFileVersion_def emails_ok_def entry_key_def)
  from DeleteEmailsBefore_safe [OF s run] run show ?thesis by (auto simp: IsZero_def)
qed

end
