(* ===== verification/Notify_Format.thy ===== *)
theory Notify_Format
  imports Notify_Types
begin

text \<open>
  \<^verbatim>\<open>internal/notify/format.go\<close> and \<^verbatim>\<open>formatWarning\<close> of \<^verbatim>\<open>message.go\<close>: log records become Slack messages.
  Reading a record panics on a value of the wrong kind (\<^verbatim>\<open>Value.Int64\<close>); that is \<open>None\<close>. The
  argument \<open>render\<close> is how \<^verbatim>\<open>slog\<close> prints a value that is not a string.
\<close>

section \<open>Limits\<close>

definition maxTextRunes :: int where
  "maxTextRunes = 4000"

definition maxFieldRunes :: int where
  "maxFieldRunes = 1000"

definition truncSuffix :: gotext where
  "truncSuffix = runes ''...''"

definition colorGood :: gotext where
  "colorGood = runes ''good''"

definition colorWarning :: gotext where
  "colorWarning = runes ''warning''"

definition colorDanger :: gotext where
  "colorDanger = runes ''danger''"

definition emojiAlert :: gotext where
  "emojiAlert = [0x26A0, 0xFE0F]"

definition emojiError :: gotext where
  "emojiError = [0x1F6A8]"

definition emojiSuccess :: gotext where
  "emojiSuccess = [0x2705]"

definition endash :: gotext where
  "endash = [0x2013]"

definition newline :: rune where
  "newline = 10"

definition TruncateText :: "gotext \<Rightarrow> int \<Rightarrow> gotext" where
  "TruncateText s maxLen =
     (if maxLen \<le> 0 then []
      else let suffixLen = length truncSuffix in
        if maxLen \<le> int suffixLen then take (nat maxLen) truncSuffix
        else if int (length s) \<le> maxLen then s
        else take (nat maxLen - suffixLen) s @ truncSuffix)"

definition truncateField :: "slackField \<Rightarrow> slackField" where
  "truncateField f = f\<lparr>Value := TruncateText (Value f) maxFieldRunes\<rparr>"

definition truncateMessage :: "slackMessage \<Rightarrow> slackMessage" where
  "truncateMessage m = m\<lparr>Text := TruncateText (Text m) maxTextRunes,
     Attachments := map (\<lambda>a. a\<lparr>Fields := map truncateField (Fields a)\<rparr>) (Attachments m)\<rparr>"

section \<open>Reading records\<close>

definition value_String :: "(slog_value \<Rightarrow> gotext) \<Rightarrow> slog_value \<Rightarrow> gotext" where
  "value_String render v = (case v of VString s \<Rightarrow> s | _ \<Rightarrow> render v)"

definition value_Int64 :: "slog_value \<Rightarrow> int option" where
  "value_Int64 v = (case v of VInt64 n \<Rightarrow> Some n | _ \<Rightarrow> None)"

definition value_Uint64 :: "slog_value \<Rightarrow> int option" where
  "value_Uint64 v = (case v of VUint64 n \<Rightarrow> Some n | _ \<Rightarrow> None)"

text \<open>\<^verbatim>\<open>Record.Attrs\<close> with a callback that never stops.\<close>

fun each_attr :: "('b \<Rightarrow> 'a \<Rightarrow> 'a option) \<Rightarrow> 'b list \<Rightarrow> 'a \<Rightarrow> 'a option" where
  "each_attr f [] a = Some a"
| "each_attr f (x # xs) a = (case f x a of None \<Rightarrow> None | Some a' \<Rightarrow> each_attr f xs a')"

definition detail_field :: "(slog_value \<Rightarrow> gotext) \<Rightarrow> slog_attr \<Rightarrow> notifyFailureDetail \<Rightarrow> notifyFailureDetail option" where
  "detail_field render attr fd = (let (key, v) = attr in
     if key = runes ''result_type'' then Some (fd\<lparr>fd_ResultType := value_String render v\<rparr>)
     else if key = runes ''failed_session_count'' then map_option (\<lambda>n. fd\<lparr>fd_FailedSessionCount := n\<rparr>) (value_Int64 v)
     else if key = runes ''receiving_mx_hostname'' then Some (fd\<lparr>fd_ReceivingMXHostname := value_String render v\<rparr>)
     else if key = runes ''failure_reason_code'' then Some (fd\<lparr>fd_FailureReasonCode := value_String render v\<rparr>)
     else Some fd)"

definition zero_detail :: notifyFailureDetail where
  "zero_detail = \<lparr>fd_ResultType = [], fd_FailedSessionCount = 0, fd_ReceivingMXHostname = [], fd_FailureReasonCode = []\<rparr>"

definition detail_child :: "(slog_value \<Rightarrow> gotext) \<Rightarrow> slog_attr \<Rightarrow> notifyFailureDetail list \<Rightarrow> notifyFailureDetail list option" where
  "detail_child render child acc = (case snd child of
       VGroup grp \<Rightarrow> map_option (\<lambda>fd. acc @ [fd]) (each_attr (detail_field render) grp zero_detail)
     | _ \<Rightarrow> Some acc)"

definition zero_range :: notifyDateRange where
  "zero_range = \<lparr>range_Start = 0, range_End = 0\<rparr>"

definition zero_alert :: Alert where
  "zero_alert = \<lparr>alert_OrganizationName = [], alert_PolicyType = [], FailureCount = 0, alert_DateRange = zero_range,
     alert_ReportID = [], alert_FailureDetails = [], FailureDetailsTotalCount = 0, FailureDetailsTotalSessions = 0\<rparr>"

definition alert_attr :: "(slog_value \<Rightarrow> gotext) \<Rightarrow> slog_attr \<Rightarrow> Alert \<Rightarrow> Alert option" where
  "alert_attr render attr a = (let (key, v) = attr in
     if key = runes ''organization_name'' then Some (a\<lparr>alert_OrganizationName := value_String render v\<rparr>)
     else if key = runes ''policy_type'' then Some (a\<lparr>alert_PolicyType := value_String render v\<rparr>)
     else if key = runes ''failure_count'' then map_option (\<lambda>n. a\<lparr>FailureCount := n\<rparr>) (value_Int64 v)
     else if key = runes ''date_start'' then (case v of
         VTime t \<Rightarrow> Some (a\<lparr>alert_DateRange := (alert_DateRange a)\<lparr>range_Start := t\<rparr>\<rparr>) | _ \<Rightarrow> Some a)
     else if key = runes ''date_end'' then (case v of
         VTime t \<Rightarrow> Some (a\<lparr>alert_DateRange := (alert_DateRange a)\<lparr>range_End := t\<rparr>\<rparr>) | _ \<Rightarrow> Some a)
     else if key = runes ''report_id'' then Some (a\<lparr>alert_ReportID := value_String render v\<rparr>)
     else if key = runes ''failure_details_total_count'' then map_option (\<lambda>n. a\<lparr>FailureDetailsTotalCount := n\<rparr>) (value_Int64 v)
     else if key = runes ''failure_details_total_sessions'' then map_option (\<lambda>n. a\<lparr>FailureDetailsTotalSessions := n\<rparr>) (value_Int64 v)
     else if key = runes ''failure_details'' then (case v of
         VGroup children \<Rightarrow> map_option (\<lambda>ds. a\<lparr>alert_FailureDetails := ds\<rparr>) (each_attr (detail_child render) children [])
       | _ \<Rightarrow> Some a)
     else Some a)"

definition extractAlert :: "(slog_value \<Rightarrow> gotext) \<Rightarrow> slogRecord \<Rightarrow> Alert option" where
  "extractAlert render r = each_attr (alert_attr render) (record_Attrs r) zero_alert"

definition syserr_attr :: "(slog_value \<Rightarrow> gotext) \<Rightarrow> slog_attr \<Rightarrow> SystemError \<Rightarrow> SystemError option" where
  "syserr_attr render attr e = (let (key, v) = attr in
     if key = runes ''kind'' then Some (e\<lparr>syserr_Kind := value_String render v\<rparr>)
     else if key = runes ''component'' then Some (e\<lparr>syserr_Component := value_String render v\<rparr>)
     else if key = runes ''mailbox'' then Some (e\<lparr>syserr_Mailbox := value_String render v\<rparr>)
     else Some e)"

definition extractSystemError :: "(slog_value \<Rightarrow> gotext) \<Rightarrow> slogRecord \<Rightarrow> SystemError option" where
  "extractSystemError render r = each_attr (syserr_attr render) (record_Attrs r)
     \<lparr>syserr_Kind = [], syserr_Component = [], syserr_Mailbox = []\<rparr>"

definition warning_attr :: "(slog_value \<Rightarrow> gotext) \<Rightarrow> slog_attr \<Rightarrow> Warning \<Rightarrow> Warning option" where
  "warning_attr render attr w = (let (key, v) = attr in
     if key = runes ''kind'' then Some (w\<lparr>warning_Kind := value_String render v\<rparr>)
     else if key = runes ''uid'' then map_option (\<lambda>n. w\<lparr>warning_UID := word_of_int n\<rparr>) (value_Uint64 v)
     else if key = runes ''uidvalidity'' then map_option (\<lambda>n. w\<lparr>warning_UIDValidity := word_of_int n\<rparr>) (value_Uint64 v)
     else if key = runes ''message_id'' then Some (w\<lparr>warning_MessageID := value_String render v\<rparr>)
     else Some w)"

definition extractWarning :: "(slog_value \<Rightarrow> gotext) \<Rightarrow> slogRecord \<Rightarrow> Warning option" where
  "extractWarning render r = each_attr (warning_attr render) (record_Attrs r)
     \<lparr>warning_Kind = [], warning_UID = 0, warning_UIDValidity = 0, warning_MessageID = []\<rparr>"

text \<open>Assignment to a key of a Go map.\<close>

fun stats_set :: "gotext \<Rightarrow> int \<Rightarrow> org_stats \<Rightarrow> org_stats" where
  "stats_set k n [] = [(k, n)]"
| "stats_set k n (x # xs) = (if fst x = k then (k, n) # xs else x # stats_set k n xs)"

definition stat_attr :: "slog_attr \<Rightarrow> org_stats \<Rightarrow> org_stats" where
  "stat_attr attr st = (case snd attr of VInt64 n \<Rightarrow> stats_set (fst attr) n st | _ \<Rightarrow> st)"

definition summary_attr :: "slog_attr \<Rightarrow> Summary \<Rightarrow> Summary option" where
  "summary_attr attr s = (let (key, v) = attr in
     if key = runes ''report_count'' then map_option (\<lambda>n. s\<lparr>ReportCount := n\<rparr>) (value_Int64 v)
     else if key = runes ''period_start'' then (case v of
         VTime t \<Rightarrow> Some (s\<lparr>Period := (Period s)\<lparr>range_Start := t\<rparr>\<rparr>) | _ \<Rightarrow> Some s)
     else if key = runes ''period_end'' then (case v of
         VTime t \<Rightarrow> Some (s\<lparr>Period := (Period s)\<lparr>range_End := t\<rparr>\<rparr>) | _ \<Rightarrow> Some s)
     else if key = runes ''organization_stats'' then (case v of
         VGroup stats \<Rightarrow> Some (s\<lparr>OrganizationStats := fold stat_attr stats (OrganizationStats s)\<rparr>) | _ \<Rightarrow> Some s)
     else Some s)"

definition extractSummary :: "slogRecord \<Rightarrow> Summary option" where
  "extractSummary r = each_attr summary_attr (record_Attrs r) \<lparr>Period = zero_range, OrganizationStats = [], ReportCount = 0\<rparr>"

section \<open>Text of alerts\<close>

definition maxAlertOrganizationRunes :: int where
  "maxAlertOrganizationRunes = 120"

definition maxAlertPolicyTypeRunes :: int where
  "maxAlertPolicyTypeRunes = 80"

definition maxAlertReportIDRunes :: int where
  "maxAlertReportIDRunes = 160"

definition maxAlertResultTypeRunes :: int where
  "maxAlertResultTypeRunes = 80"

definition maxAlertMXHostnameRunes :: int where
  "maxAlertMXHostnameRunes = 120"

definition maxAlertReasonCodeRunes :: int where
  "maxAlertReasonCodeRunes = 80"

definition maxAlertDetailDisplay :: nat where
  "maxAlertDetailDisplay = 3"

text \<open>\<^verbatim>\<open>unicode.IsControl\<close>, and the white space that \<^verbatim>\<open>strings.TrimSpace\<close> removes.\<close>

definition is_control :: "rune \<Rightarrow> bool" where
  "is_control r \<longleftrightarrow> r \<le> 0x1F \<or> 0x7F \<le> r \<and> r \<le> 0x9F"

definition is_space :: "rune \<Rightarrow> bool" where
  "is_space r \<longleftrightarrow> 9 \<le> r \<and> r \<le> 13 \<or> r = 32 \<or> r = 0x85 \<or> r = 0xA0 \<or> r = 0x1680 \<or> 0x2000 \<le> r \<and> r \<le> 0x200A
     \<or> r = 0x2028 \<or> r = 0x2029 \<or> r = 0x202F \<or> r = 0x205F \<or> r = 0x3000"

definition trim_space :: "gotext \<Rightarrow> gotext" where
  "trim_space s = rev (dropWhile is_space (rev (dropWhile is_space s)))"

definition line_break :: "rune \<Rightarrow> bool" where
  "line_break r \<longleftrightarrow> is_control r \<or> r = 0x2028 \<or> r = 0x2029"

definition normalizeControlChars :: "gotext \<Rightarrow> gotext" where
  "normalizeControlChars s = map (\<lambda>r. if line_break r then 32 else r) s"

definition policyTypeStr :: "PolicyType \<Rightarrow> gotext" where
  "policyTypeStr pt = (if pt = PolicyTypeUnknown then runes ''(unknown)'' else trim_space pt)"

definition uniqueOrgCount :: "Alert list \<Rightarrow> nat" where
  "uniqueOrgCount alerts = length (remdups (map alert_OrganizationName alerts))"

definition clip :: "gotext \<Rightarrow> int \<Rightarrow> gotext" where
  "clip s n = TruncateText (normalizeControlChars s) n"

definition buildPolicySummaryText :: "Alert \<Rightarrow> gotext" where
  "buildPolicySummaryText a =
     clip (alert_OrganizationName a) maxAlertOrganizationRunes @ runes '' | '' @
     clip (policyTypeStr (alert_PolicyType a)) maxAlertPolicyTypeRunes @ runes '' | '' @
     runes (dec_int (FailureCount a)) @ runes '' | '' @
     runes (format_DateOnly (range_Start (alert_DateRange a))) @ runes '' '' @ endash @ runes '' '' @
     runes (format_DateOnly (range_End (alert_DateRange a)))"

definition detail_line :: "nat \<Rightarrow> notifyFailureDetail \<Rightarrow> gotext" where
  "detail_line i fd =
     runes ''['' @ runes (dec_string i) @ runes ''] '' @ clip (fd_ResultType fd) maxAlertResultTypeRunes @ runes '': '' @
     runes (dec_int (fd_FailedSessionCount fd)) @ runes '' sessions'' @
     (if fd_ReceivingMXHostname fd \<noteq> [] then runes '' | MX: '' @ clip (fd_ReceivingMXHostname fd) maxAlertMXHostnameRunes else []) @
     (if fd_FailureReasonCode fd \<noteq> [] then runes '' | Reason: '' @ clip (fd_FailureReasonCode fd) maxAlertReasonCodeRunes else [])"

fun detail_lines :: "nat \<Rightarrow> notifyFailureDetail list \<Rightarrow> gotext" where
  "detail_lines i [] = []"
| "detail_lines i (fd # fds) = detail_line i fd @ (if fds \<noteq> [] then [newline] else []) @ detail_lines (i + 1) fds"

definition buildFailureDetailsText :: "Alert \<Rightarrow> gotext" where
  "buildFailureDetailsText a =
     (let details = alert_FailureDetails a in
      if details = [] then []
      else let shown = take maxAlertDetailDisplay details;
               detailsSessions = sum64 0 (map fd_FailedSessionCount details);
               totalCount = max (FailureDetailsTotalCount a) (int (length details));
               totalSessions = max (FailureDetailsTotalSessions a) detailsSessions
           in (if int maxAlertDetailDisplay < totalCount
               then let topSessions = sum64 0 (map fd_FailedSessionCount shown);
                        otherCount = totalCount - int maxAlertDetailDisplay;
                        otherSessions = max (wrap64 (totalSessions - topSessions)) 0
                    in runes ''Other '' @ runes (dec_int otherCount) @ runes '' entries ('' @ runes (dec_int otherSessions) @
                       runes '' sessions total)'' @ [newline]
               else []) @ detail_lines 1 shown)"

section \<open>Messages\<close>

text \<open>
  The loop \<^verbatim>\<open>for i := 0; i < len(xs); i += n\<close> over the slices \<^verbatim>\<open>xs[i:min(i+n, len(xs))]\<close>; the body is told
  whether its slice is the last one.
\<close>

function chunk_loop :: "nat \<Rightarrow> ('a list \<Rightarrow> bool \<Rightarrow> 'b) \<Rightarrow> 'a list \<Rightarrow> 'b list" where
  "chunk_loop n f xs = (if n = 0 \<or> xs = [] then [] else f (take n xs) (length xs \<le> n) # chunk_loop n f (drop n xs))"
  by pat_completeness auto
termination
  by (relation "measure (\<lambda>(n, f, xs). length xs)") auto

declare chunk_loop.simps [simp del]

definition maxAlertPoliciesPerChunk :: nat where
  "maxAlertPoliciesPerChunk = 3"

definition maxAlertAttachments :: nat where
  "maxAlertAttachments = 100"

definition maxPoliciesInLastChunkWithOverflow :: nat where
  "maxPoliciesInLastChunkWithOverflow = 2"

definition alert_fields :: "Alert \<Rightarrow> slackField list" where
  "alert_fields a =
     [\<lparr>Title = runes ''Organization / Policy / Failures / Period'', Value = buildPolicySummaryText a, Short = False\<rparr>] @
     (if alert_ReportID a \<noteq> []
      then [\<lparr>Title = runes ''Report ID'', Value = clip (alert_ReportID a) maxAlertReportIDRunes, Short = False\<rparr>] else []) @
     (let details = buildFailureDetailsText a in
      if details \<noteq> [] then [\<lparr>Title = runes ''Failure Details'', Value = details, Short = False\<rparr>] else [])"

definition overflow_text :: "Alert list \<Rightarrow> gotext" where
  "overflow_text overflowAlerts =
     (if overflowAlerts = [] then []
      else runes (dec_string (length overflowAlerts)) @ runes '' additional policies omitted; organizations: '' @
           runes (dec_string (uniqueOrgCount overflowAlerts)) @ runes ''; failed sessions: '' @
           runes (dec_int (sum64 0 (map FailureCount overflowAlerts))))"

definition alert_attachment :: "gotext \<Rightarrow> gotext \<Rightarrow> Alert list \<Rightarrow> bool \<Rightarrow> slackAttachment" where
  "alert_attachment runID overflowText chunk isLast =
     \<lparr>Color = colorWarning, Fields = concat (map alert_fields chunk) @
        (if isLast
         then (if overflowText \<noteq> [] then [\<lparr>Title = runes ''Additional Policies'', Value = overflowText, Short = False\<rparr>] else []) @
              [\<lparr>Title = runes ''Run ID'', Value = runID, Short = False\<rparr>]
         else [])\<rparr>"

definition shown_count :: "Alert list \<Rightarrow> nat" where
  "shown_count alerts =
     (if maxAlertAttachments * maxAlertPoliciesPerChunk < length alerts
      then (maxAlertAttachments - 1) * maxAlertPoliciesPerChunk + maxPoliciesInLastChunkWithOverflow
      else length alerts)"

definition formatAlerts :: "Alert list \<Rightarrow> gotext \<Rightarrow> slackMessage" where
  "formatAlerts alerts runID =
     (let shown = take (shown_count alerts) alerts; overflowAlerts = drop (shown_count alerts) alerts in
      \<lparr>Text = emojiAlert @ runes '' TLS Failures '' @ endash @ runes '' '' @ runes (dec_string (uniqueOrgCount alerts)) @
         runes '' organizations affected'',
       Attachments = chunk_loop maxAlertPoliciesPerChunk (alert_attachment runID (overflow_text overflowAlerts)) shown\<rparr>)"

definition formatWarning :: "Warning \<Rightarrow> gotext \<Rightarrow> slackMessage" where
  "formatWarning w runID =
     \<lparr>Text = emojiAlert @ runes '' Fetch Warning: '' @ warning_Kind w,
      Attachments = [\<lparr>Color = colorWarning, Fields =
        [\<lparr>Title = runes ''Kind'', Value = warning_Kind w, Short = True\<rparr>] @
        (if warning_UID w \<noteq> 0 \<and> warning_UIDValidity w \<noteq> 0
         then [\<lparr>Title = runes ''UID'', Value = runes (dec_string (unat (warning_UID w))), Short = True\<rparr>,
               \<lparr>Title = runes ''UIDValidity'', Value = runes (dec_string (unat (warning_UIDValidity w))), Short = True\<rparr>] else []) @
        (if warning_MessageID w \<noteq> [] then [\<lparr>Title = runes ''Message-ID'', Value = warning_MessageID w, Short = False\<rparr>] else []) @
        [\<lparr>Title = runes ''Run ID'', Value = runID, Short = True\<rparr>]\<rparr>]\<rparr>"

definition systemErrorHint :: "SystemErrorKind \<Rightarrow> gotext" where
  "systemErrorHint kind =
     (if kind = SystemErrorKindUIDValidityChanged \<or> kind = SystemErrorKindRecoveryRequired
      then runes ''Run: tlsrpt-digest --config <path> recover --mode discard-old --yes''
      else if kind = SystemErrorKindIMAPCredentialsMissing
      then runes ''Set TLSRPT_IMAP_USERNAME and TLSRPT_IMAP_PASSWORD environment variables''
      else [])"

definition formatSystemError :: "SystemError \<Rightarrow> gotext \<Rightarrow> slackMessage" where
  "formatSystemError e runID =
     \<lparr>Text = emojiError @ runes '' System Error: '' @ syserr_Kind e,
      Attachments = [\<lparr>Color = colorDanger, Fields =
        [\<lparr>Title = runes ''Kind'', Value = syserr_Kind e, Short = True\<rparr>,
         \<lparr>Title = runes ''Component'', Value = syserr_Component e, Short = True\<rparr>] @
        (if syserr_Mailbox e \<noteq> [] then [\<lparr>Title = runes ''Mailbox'', Value = syserr_Mailbox e, Short = True\<rparr>] else []) @
        (let hint = systemErrorHint (syserr_Kind e) in
         if hint \<noteq> [] then [\<lparr>Title = runes ''Action Required'', Value = hint, Short = False\<rparr>] else []) @
        [\<lparr>Title = runes ''Run ID'', Value = runID, Short = True\<rparr>]\<rparr>]\<rparr>"

definition maxSummaryOrgFields :: nat where
  "maxSummaryOrgFields = 9"

definition stats_get :: "gotext \<Rightarrow> org_stats \<Rightarrow> int" where
  "stats_get k st = (case map_of st k of None \<Rightarrow> 0 | Some n \<Rightarrow> n)"

definition summary_attachment :: "gotext \<Rightarrow> org_stats \<Rightarrow> gotext list \<Rightarrow> bool \<Rightarrow> slackAttachment" where
  "summary_attachment runID st orgs isLast =
     \<lparr>Color = colorGood, Fields =
        map (\<lambda>organization. \<lparr>Title = organization, Value = runes (dec_int (stats_get organization st)) @ runes '' successful sessions'',
          Short = True\<rparr>) orgs @
        (if isLast then [\<lparr>Title = runes ''Run ID'', Value = runID, Short = True\<rparr>] else [])\<rparr>"

definition formatSummary :: "Summary \<Rightarrow> gotext \<Rightarrow> slackMessage" where
  "formatSummary s runID =
     (let keys = sort (map fst (OrganizationStats s)) in
      \<lparr>Text = emojiSuccess @ runes '' TLS Report Summary'' @ [newline] @
         runes ''Period: '' @ runes (format_DateOnly (range_Start (Period s))) @ runes '' '' @ endash @ runes '' '' @
         runes (format_DateOnly (range_End (Period s))) @ [newline] @
         runes ''Reports: '' @ runes (dec_int (ReportCount s)) @ [newline] @
         runes ''Organizations: '' @ runes (dec_string (length (OrganizationStats s))),
       Attachments = (if keys = [] then [\<lparr>Color = colorGood, Fields = [\<lparr>Title = runes ''Run ID'', Value = runID, Short = True\<rparr>]\<rparr>]
         else chunk_loop maxSummaryOrgFields (summary_attachment runID (OrganizationStats s)) keys)\<rparr>)"

section \<open>Batches of records\<close>

record batch =
  alerts :: "Alert list"
  warnings :: "Warning list"
  sysErrors :: "SystemError list"
  summaries :: "Summary list"

definition sort_record :: "(slog_value \<Rightarrow> gotext) \<Rightarrow> slogRecord \<Rightarrow> batch \<Rightarrow> batch option" where
  "sort_record render r b =
     (if LevelError \<le> record_Level r then map_option (\<lambda>e. b\<lparr>sysErrors := sysErrors b @ [e]\<rparr>) (extractSystemError render r)
      else if LevelWarn \<le> record_Level r then
        (if record_Message r = runes ''fetch_warning''
         then map_option (\<lambda>w. b\<lparr>warnings := warnings b @ [w]\<rparr>) (extractWarning render r)
         else map_option (\<lambda>a. b\<lparr>alerts := alerts b @ [a]\<rparr>) (extractAlert render r))
      else map_option (\<lambda>s. b\<lparr>summaries := summaries b @ [s]\<rparr>) (extractSummary r))"

definition formatBatch :: "batch \<Rightarrow> gotext \<Rightarrow> slackMessage list" where
  "formatBatch b runID =
     (if alerts b \<noteq> [] then [formatAlerts (alerts b) runID] else []) @
     map (\<lambda>w. formatWarning w runID) (warnings b) @
     map (\<lambda>e. formatSystemError e runID) (sysErrors b) @
     map (\<lambda>s. formatSummary s runID) (summaries b)"

definition empty_batch :: batch where
  "empty_batch = \<lparr>alerts = [], warnings = [], sysErrors = [], summaries = []\<rparr>"

definition formatRecords :: "(slog_value \<Rightarrow> gotext) \<Rightarrow> slogRecord list \<Rightarrow> gotext \<Rightarrow> slackMessage list option" where
  "formatRecords render records runID =
     map_option (\<lambda>b. formatBatch b runID) (each_attr (sort_record render) records empty_batch)"

section \<open>Truncation\<close>

lemma runes_simps [simp]:
  "runes [] = []" "length (runes s) = length s" "runes s = runes t \<longleftrightarrow> s = t" "runes s = [] \<longleftrightarrow> s = []"
  "runes (s @ t) = runes s @ runes t"
  by (auto simp: runes_def inj_map_eq_map inj_def)

lemma truncSuffix_length [simp]: "length truncSuffix = 3"
  by (simp add: truncSuffix_def)

lemma TruncateText_length: "length (TruncateText s n) \<le> nat n"
  by (auto simp: TruncateText_def Let_def)

text \<open>
  For every limit above the length of the suffix, truncation returns a text that fits unchanged and
  otherwise the longest prefix that leaves room for the dots, followed by them, of exactly the limit.
  Up to that length the result consists of dots alone, even for a text that would fit.
\<close>

theorem TruncateText_spec:
  "(int (length s) \<le> maxLen \<and> 3 < maxLen \<longrightarrow> TruncateText s maxLen = s)
   \<and> (3 < maxLen \<and> maxLen < int (length s) \<longrightarrow> TruncateText s maxLen = take (nat maxLen - 3) s @ runes ''...''
        \<and> length (TruncateText s maxLen) = nat maxLen)
   \<and> (maxLen \<le> 3 \<longrightarrow> TruncateText s maxLen = replicate (nat maxLen) 46)"
proof -
  have "take k truncSuffix = replicate k 46" if "k \<le> 3" for k
    using that by (auto simp: truncSuffix_def le_Suc_eq numeral_3_eq_3 take_Cons' runes_def)
  then show ?thesis by (auto simp: TruncateText_def Let_def truncSuffix_def nat_le_iff numeral_3_eq_3)
qed

theorem TruncateText_spec_witness:
  "TruncateText (runes ''abcdefgh'') 6 = runes ''abc...'' \<and> TruncateText (runes ''abc'') 3 = [46, 46, 46]"
  using TruncateText_spec [of "runes ''abcdefgh''" 6] TruncateText_spec [of "runes ''abc''" 3]
  by (simp add: runes_def numeral_3_eq_3)

section \<open>Chunks\<close>

lemma chunk_loop_Nil [simp]: "chunk_loop n f [] = []"
  by (simp add: chunk_loop.simps)

lemma chunk_loop_step:
  "0 < n \<Longrightarrow> xs \<noteq> [] \<Longrightarrow> chunk_loop n f xs = f (take n xs) (length xs \<le> n) # chunk_loop n f (drop n xs)"
  by (subst chunk_loop.simps) simp

lemma chunk_loop_length:
  assumes "0 < n"
  shows "length (chunk_loop n f xs) = (length xs + n - 1) div n"
proof (induction xs rule: measure_induct_rule [of length])
  case (less xs)
  show ?case
  proof (cases "xs = []")
    case True
    then show ?thesis using assms by simp
  next
    case False
    then have "length (chunk_loop n f (drop n xs)) = (length xs - n + n - 1) div n"
      using less [of "drop n xs"] assms by simp
    then show ?thesis
      using False assms by (cases xs; cases "n \<le> length xs") (simp_all add: chunk_loop_step div_if, arith?)
  qed
qed

lemma chunk_loop_all:
  assumes "0 < n" "\<And>c l. c \<noteq> [] \<Longrightarrow> length c \<le> n \<Longrightarrow> set c \<subseteq> set xs \<Longrightarrow> (l \<Longrightarrow> length c mod n = length xs mod n) \<Longrightarrow> P (f c l)"
  shows "list_all P (chunk_loop n f xs)"
  using assms(2)
proof (induction xs rule: measure_induct_rule [of length])
  case (less xs)
  show ?case
  proof (cases "xs = []")
    case False
    have "P (f (take n xs) (length xs \<le> n))"
      using False assms(1) by (intro less.prems) (auto dest: in_set_takeD)
    moreover have "list_all P (chunk_loop n f (drop n xs))"
    proof (cases "length xs \<le> n")
      case le: False
      show ?thesis
      proof (rule less.IH)
        show "length (drop n xs) < length xs" using False assms(1) by simp
        fix c l
        assume "c \<noteq> []" "length c \<le> n" "set c \<subseteq> set (drop n xs)" "l \<Longrightarrow> length c mod n = length (drop n xs) mod n"
        then show "P (f c l)"
          using le set_drop_subset [of n xs] by (intro less.prems) (auto simp: le_mod_geq)
      qed
    qed simp
    ultimately show ?thesis using False assms(1) by (simp add: chunk_loop_step)
  qed simp
qed

lemma chunk_loop_concat:
  assumes "0 < n" "\<And>c l. c \<noteq> [] \<Longrightarrow> h (f c l) = concat (map k c)"
  shows "concat (map h (chunk_loop n f xs)) = concat (map k xs)"
proof (induction xs rule: measure_induct_rule [of length])
  case (less xs)
  show ?case
  proof (cases "xs = []")
    case False
    then have "concat (map h (chunk_loop n f xs)) = concat (map k (take n xs)) @ concat (map k (drop n xs))"
      using less [of "drop n xs"] assms by (simp add: chunk_loop_step)
    then show ?thesis by (metis append_take_drop_id concat_append map_append)
  qed simp
qed

lemma chunk_loop_last:
  assumes "0 < n" "xs \<noteq> []"
  shows "\<exists>c. c \<noteq> [] \<and> chunk_loop n f xs \<noteq> [] \<and> last (chunk_loop n f xs) = f c True"
  using assms(2)
proof (induction xs rule: measure_induct_rule [of length])
  case (less xs)
  show ?case
  proof (cases "length xs \<le> n")
    case True
    then show ?thesis using less.prems assms(1) by (auto simp: chunk_loop_step)
  next
    case False
    then show ?thesis using less.IH [of "drop n xs"] less.prems assms(1) by (auto simp: chunk_loop_step)
  qed
qed

section \<open>Size of alert messages\<close>

lemma alert_fields_length: "length (alert_fields a) \<le> 3"
  by (simp add: alert_fields_def Let_def)

lemma alert_fields_concat: "length (concat (map alert_fields c)) \<le> 3 * length c"
  by (induction c) (use alert_fields_length in \<open>auto simp: add_mono\<close>)

lemmas alert_limits = maxAlertAttachments_def maxAlertPoliciesPerChunk_def maxPoliciesInLastChunkWithOverflow_def

lemma shown_count_le: "shown_count as \<le> length as" "shown_count as \<le> 300"
  by (simp_all add: shown_count_def alert_limits)

lemma alert_attachment_length:
  assumes "length c \<le> 3" "l \<Longrightarrow> length c mod 3 = k mod 3" "ot \<noteq> [] \<Longrightarrow> k = 299"
  shows "length (Fields (alert_attachment runID ot c l)) \<le> 10"
proof (cases "l \<and> ot \<noteq> []")
  case True
  then have "length c mod 3 = 2" using assms(2,3) by simp
  then have "length c = 2" using assms(1) by (cases "length c = 3") (auto simp: le_less)
  with True show ?thesis using alert_fields_concat [of c] by (simp add: alert_attachment_def)
next
  case False
  then show ?thesis using alert_fields_concat [of c] assms(1) by (auto simp: alert_attachment_def)
qed

definition policy_values :: "slackMessage \<Rightarrow> gotext list" where
  "policy_values m = concat (map (\<lambda>a. map Value (filter (\<lambda>f. Title f = runes ''Organization / Policy / Failures / Period'') (Fields a)))
     (Attachments m))"

lemma policy_values_fields:
  "map Value (filter (\<lambda>f. Title f = runes ''Organization / Policy / Failures / Period'') (alert_fields a)) = [buildPolicySummaryText a]"
  by (simp add: alert_fields_def Let_def)

lemma policy_values_chunk:
  "map Value (filter (\<lambda>f. Title f = runes ''Organization / Policy / Failures / Period'') (Fields (alert_attachment runID ot c l)))
   = concat (map (\<lambda>a. [buildPolicySummaryText a]) c)"
proof -
  have "map Value (filter (\<lambda>f. Title f = runes ''Organization / Policy / Failures / Period'') (concat (map alert_fields c)))
      = concat (map (\<lambda>a. [buildPolicySummaryText a]) c)"
    by (induction c) (simp_all only: list.map concat.simps filter_append map_append policy_values_fields filter.simps)
  then show ?thesis by (simp add: alert_attachment_def)
qed

text \<open>
  C31. An alert message, however many policies failed, stays within Slack's limits of 100 attachments and
  10 fields each; it lists one summary per policy in order, and when not all fit, the number of
  policies listed is 299 and the rest is accounted for: the number left out, their organizations
  and their failed sessions are what the overflow field states.
\<close>

theorem formatAlerts_limits:
  "length (Attachments (formatAlerts as runID)) \<le> 100
   \<and> list_all (\<lambda>a. length (Fields a) \<le> 10) (Attachments (formatAlerts as runID))
   \<and> policy_values (formatAlerts as runID) = map buildPolicySummaryText (take (if length as \<le> 300 then length as else 299) as)
   \<and> (300 < length as \<longrightarrow> \<lparr>Title = runes ''Additional Policies'', Value = overflow_text (drop 299 as), Short = False\<rparr>
        \<in> set (Fields (last (Attachments (formatAlerts as runID)))))"
proof (intro conjI impI)
  let ?shown = "take (shown_count as) as" and ?over = "drop (shown_count as) as"
  have A: "Attachments (formatAlerts as runID) = chunk_loop 3 (alert_attachment runID (overflow_text ?over)) ?shown"
    by (simp add: formatAlerts_def Let_def maxAlertPoliciesPerChunk_def)
  have "length ?shown \<le> 300" using shown_count_le [of as] by simp
  then show "length (Attachments (formatAlerts as runID)) \<le> 100" by (simp add: A chunk_loop_length)
  have "overflow_text ?over \<noteq> [] \<Longrightarrow> length ?shown = 299"
    by (auto simp: overflow_text_def shown_count_def alert_limits split: if_splits)
  then show "list_all (\<lambda>a. length (Fields a) \<le> 10) (Attachments (formatAlerts as runID))"
    unfolding A by (intro chunk_loop_all alert_attachment_length [where k = "length ?shown"]) simp_all
  have "policy_values (formatAlerts as runID) = map buildPolicySummaryText ?shown"
    using chunk_loop_concat [where n = 3 and k = "\<lambda>a. [buildPolicySummaryText a]" and f = "alert_attachment runID (overflow_text ?over)"
        and xs = ?shown and h = "\<lambda>a. map Value (filter (\<lambda>f. Title f = runes ''Organization / Policy / Failures / Period'') (Fields a))"]
    unfolding policy_values_def A policy_values_chunk by simp
  then show "policy_values (formatAlerts as runID) = map buildPolicySummaryText (take (if length as \<le> 300 then length as else 299) as)"
    by (simp add: shown_count_def alert_limits)
  assume "300 < length as"
  then have n: "shown_count as = 299" "?over \<noteq> []" by (simp_all add: shown_count_def alert_limits)
  have "?shown \<noteq> []" using n(1) \<open>300 < length as\<close> by auto
  then obtain c where "last (Attachments (formatAlerts as runID)) = alert_attachment runID (overflow_text ?over) c True"
    unfolding A using chunk_loop_last [OF zero_less_numeral, of ?shown "Num.Bit1 num.One" "alert_attachment runID (overflow_text ?over)"] by blast
  with n show "\<lparr>Title = runes ''Additional Policies'', Value = overflow_text (drop 299 as), Short = False\<rparr>
      \<in> set (Fields (last (Attachments (formatAlerts as runID))))"
    by (simp add: alert_attachment_def overflow_text_def)
qed

theorem formatAlerts_limits_witness:
  "length (Attachments (formatAlerts (replicate 301 zero_alert) [])) \<le> 100 \<and>
   \<lparr>Title = runes ''Additional Policies'', Value = runes ''2 additional policies omitted; organizations: 1; failed sessions: 0'', Short = False\<rparr>
     \<in> set (Fields (last (Attachments (formatAlerts (replicate 301 zero_alert) []))))"
proof -
  have "overflow_text (drop 299 (replicate 301 zero_alert)) = runes ''2 additional policies omitted; organizations: 1; failed sessions: 0''"
    by code_simp
  with formatAlerts_limits [of "replicate 301 zero_alert" "[]"] show ?thesis by simp
qed

section \<open>External text cannot break lines\<close>

lemma printable_runes: "list_all (\<lambda>c. 32 \<le> (of_char c :: nat) \<and> (of_char c :: nat) < 127) s \<Longrightarrow> filter line_break (runes s) = []"
  by (induction s) (auto simp: runes_def line_break_def is_control_def)

lemma digit_printable: "is_digit c \<Longrightarrow> 32 \<le> (of_char c :: nat) \<and> (of_char c :: nat) < 127"
  by (auto simp: is_digit_def less_eq_char_def)

lemma digits_printable: "list_all is_digit s \<Longrightarrow> filter line_break (runes s) = []"
  by (rule printable_runes) (auto simp: list_all_iff dest: digit_printable)

lemma no_break_dec [simp]:
  "filter line_break (runes (dec_string n)) = []" "filter line_break (runes (dec_int i)) = []"
  "filter line_break (runes (zero_pad k (dec_string n))) = []"
proof -
  show "filter line_break (runes (dec_string n)) = []" for n by (rule digits_printable [OF dec_string_digits])
  then show "filter line_break (runes (dec_int i)) = []" by (simp add: dec_int_def) (simp add: runes_def line_break_def is_control_def)
  show "filter line_break (runes (zero_pad k (dec_string n))) = []"
    by (rule digits_printable) (use dec_string_digits in \<open>auto simp: zero_pad_def list_all_iff\<close>)
qed

lemma no_break_minus [simp]: "filter line_break (runes ''-'') = []" "filter line_break (runes (CHR ''-'' # s)) = filter line_break (runes s)"
  by (simp_all add: runes_def line_break_def is_control_def)

lemma no_break_date [simp]: "filter line_break (runes (format_DateOnly t)) = []"
  by (simp add: format_DateOnly_def year_string_def split: prod.split)

lemma no_break_dots: "filter line_break truncSuffix = []"
  by (simp add: truncSuffix_def runes_def line_break_def is_control_def)

lemma no_break_take: "filter P xs = [] \<Longrightarrow> filter P (take n xs) = []"
  by (auto simp: filter_empty_conv dest: in_set_takeD)

lemma no_break_clip [simp]: "filter line_break (clip s n) = []"
proof -
  have "filter line_break (normalizeControlChars s) = []"
    by (auto simp: normalizeControlChars_def filter_empty_conv line_break_def is_control_def)
  then show ?thesis by (simp add: clip_def TruncateText_def Let_def no_break_take no_break_dots)
qed

lemma no_break_line [simp]: "filter line_break (detail_line i fd) = []"
  by (simp add: detail_line_def) (simp add: runes_def line_break_def is_control_def)

lemma newline_break [simp]: "line_break newline"
  by (simp add: line_break_def is_control_def newline_def)

lemma breaks_detail_lines: "filter line_break (detail_lines i fds) = replicate (length fds - 1) newline"
  by (induction fds arbitrary: i) (simp_all, metis Suc_pred length_greater_0_conv replicate_Suc)

text \<open>
  C32. No text taken from a report can start a new line in an alert: the policy summary and the report id
  contain no control character and no line or paragraph separator, and the only ones in the failure
  details are the newlines between the entries shown and after the summary of the others.
\<close>

theorem alert_text_lines:
  "filter line_break (buildPolicySummaryText a) = []
   \<and> filter line_break (clip (alert_ReportID a) maxAlertReportIDRunes) = []
   \<and> filter line_break (buildFailureDetailsText a) =
       replicate (if alert_FailureDetails a = [] then 0
         else min 3 (length (alert_FailureDetails a)) - 1
           + (if 3 < max (FailureDetailsTotalCount a) (int (length (alert_FailureDetails a))) then 1 else 0)) newline"
proof (intro conjI)
  have lit: "filter line_break (runes s) = []"
    if "s \<in> {'' | '', '' '', ''Other '', '' entries ('', '' sessions total)''}" for s
    using that by (auto simp: runes_def line_break_def is_control_def)
  have "\<not> line_break 0x2013" by (simp add: line_break_def is_control_def)
  then show "filter line_break (buildPolicySummaryText a) = []" by (simp add: buildPolicySummaryText_def endash_def lit)
  have "replicate (min 3 k - Suc 0) newline @ [newline] = replicate (Suc (min 3 k - Suc 0)) newline" for k
    by (simp add: replicate_append_same)
  moreover have "xs \<noteq> [] \<Longrightarrow> newline # replicate (min (length xs) 3 - Suc 0) newline = replicate (min (length xs) 3) newline"
    for xs :: "notifyFailureDetail list"
    by (cases xs) auto
  ultimately show "filter line_break (buildFailureDetailsText a) =
       replicate (if alert_FailureDetails a = [] then 0
         else min 3 (length (alert_FailureDetails a)) - 1
           + (if 3 < max (FailureDetailsTotalCount a) (int (length (alert_FailureDetails a))) then 1 else 0)) newline"
    unfolding buildFailureDetailsText_def Let_def
    by (simp add: breaks_detail_lines lit maxAlertDetailDisplay_def min.commute)
qed simp

end
