(* ===== verification/Notify_Retry.thy ===== *)
theory Notify_Retry
  imports Notify_Format
begin

text \<open>
  \<^verbatim>\<open>internal/notify/retry.go\<close>: posting a message with retries. The network and the context are a script of
  events, one per attempt: a reply with its status and \<^verbatim>\<open>Retry-After\<close> header, or an error of the
  request. \<open>Cancelled\<close> means that the context is done from there on, so it is never consumed; it is seen
  before an attempt, after a failed request and while sleeping. After the end of the script every
  request fails. The posts made and the times slept are recorded. Durations are nanoseconds.
  \<^verbatim>\<open>json.Marshal\<close> cannot fail on a \<^verbatim>\<open>slackMessage\<close>.
\<close>

section \<open>The network\<close>

datatype net_event = Reply int string | RequestError | Cancelled

record net =
  script :: "net_event list"
  posts :: "(string \<times> slackMessage) list"
  sleeps :: "int list"

datatype notify_error = SlackServerError int bool | SlackClientError int | ContextError | RetriesExhausted notify_error

definition ctx_done :: "net \<Rightarrow> bool" where
  "ctx_done n \<longleftrightarrow> (case script n of Cancelled # _ \<Rightarrow> True | _ \<Rightarrow> False)"

definition requestTimeout :: int where
  "requestTimeout = 5 * nanos_per_second"

definition maxCumulativeWait :: int where
  "maxCumulativeWait = 14 * nanos_per_second"

definition realSleep :: "int \<Rightarrow> net \<Rightarrow> notify_error option \<times> net" where
  "realSleep d n = (if ctx_done n then (Some ContextError, n) else (None, n\<lparr>sleeps := sleeps n @ [d]\<rparr>))"

text \<open>A request is recorded when it is made, whatever the answer; an event is the final answer to it, after any redirects.\<close>

record postResult =
  statusCode :: int
  retryAfter :: string

definition doPost :: "string \<Rightarrow> slackMessage \<Rightarrow> net \<Rightarrow> postResult option \<times> net" where
  "doPost webhookURL body n =
     (let n' = n\<lparr>script := tl (script n), posts := posts n @ [(webhookURL, body)]\<rparr> in
      case script n of
        Reply sc ra # _ \<Rightarrow> (Some \<lparr>statusCode = sc, retryAfter = ra\<rparr>, n')
      | _ \<Rightarrow> (None, n'))"

section \<open>Waiting times\<close>

definition maxBackoffShift :: int where
  "maxBackoffShift = 30"

definition backoffDuration :: "int \<Rightarrow> int \<Rightarrow> int" where
  "backoffDuration base attempt =
     (let attempt = (if maxBackoffShift < attempt then maxBackoffShift else attempt);
          d = wrap64 (base * 2 ^ nat attempt)
      in if maxCumulativeWait < d then maxCumulativeWait else d)"

definition maxRetryAfterSeconds :: int where
  "maxRetryAfterSeconds = 14"

definition parseRetryAfter :: "string \<Rightarrow> int option" where
  "parseRetryAfter header =
     (if header = [] then None
      else case atoi header of
        None \<Rightarrow> None
      | Some secs \<Rightarrow>
          if secs < 0 then None
          else Some ((if maxRetryAfterSeconds < secs then maxRetryAfterSeconds else secs) * nanos_per_second))"

section \<open>One attempt\<close>

text \<open>The result of \<^verbatim>\<open>doAttempt\<close>: stop with a result, or go on, with the pause the server asked for.\<close>

datatype attempt_result = Done "notify_error option" | Again notify_error "int option"

definition doAttempt :: "string \<Rightarrow> slackMessage \<Rightarrow> net \<Rightarrow> attempt_result \<times> net" where
  "doAttempt webhookURL body n =
     (if ctx_done n then (Done (Some ContextError), n)
      else case doPost webhookURL body n of
        (None, n') \<Rightarrow> if ctx_done n' then (Done (Some ContextError), n') else (Again (SlackServerError 0 True) None, n')
      | (Some result, n') \<Rightarrow>
          let sc = statusCode result in
          if 200 \<le> sc \<and> sc < 300 then (Done None, n')
          else if sc = 429 \<or> 500 \<le> sc then
            (Again (SlackServerError sc False) (if sc = 429 then parseRetryAfter (retryAfter result) else None), n')
          else (Done (Some (SlackClientError sc)), n'))"

section \<open>The retry loop\<close>

record postConfig =
  cfg_backoff :: BackoffConfig
  cfg_webhookURL :: string

definition exhausted :: "notify_error option \<Rightarrow> notify_error option" where
  "exhausted lastErr = Some (RetriesExhausted (case lastErr of None \<Rightarrow> SlackServerError 0 False | Some e \<Rightarrow> e))"

text \<open>One round of the loop: the pause before the attempt, then the attempt with the pause the server asks for.\<close>

datatype flow = Stop "notify_error option" | Next int bool "notify_error option"

definition pause_before :: "BackoffConfig \<Rightarrow> int \<Rightarrow> int \<Rightarrow> bool \<Rightarrow> notify_error option \<Rightarrow> net \<Rightarrow> flow \<times> net" where
  "pause_before b attempt cumulativeWait retryAfterHandled lastErr n =
     (if 0 < attempt \<and> \<not> retryAfterHandled then
        let wait = backoffDuration (Base b) (attempt - 1) in
        if maxCumulativeWait < wrap64 (cumulativeWait + wait) then (Stop (exhausted lastErr), n)
        else (case realSleep wait n of
            (Some err, n') \<Rightarrow> (Stop (Some err), n')
          | (None, n') \<Rightarrow> (Next (wrap64 (cumulativeWait + wait)) False lastErr, n'))
      else (Next cumulativeWait False lastErr, n))"

definition attempt_step :: "BackoffConfig \<Rightarrow> string \<Rightarrow> slackMessage \<Rightarrow> int \<Rightarrow> int \<Rightarrow> net \<Rightarrow> flow \<times> net" where
  "attempt_step b webhookURL body attempt cumulativeWait n =
     (case doAttempt webhookURL body n of
        (Done err, n') \<Rightarrow> (Stop err, n')
      | (Again err None, n') \<Rightarrow> (Next cumulativeWait False (Some err), n')
      | (Again err (Some retryWait), n') \<Rightarrow>
          if attempt = RetryCount b then (Stop (exhausted (Some err)), n')
          else if 0 < retryWait then
            if maxCumulativeWait < wrap64 (cumulativeWait + retryWait) then (Stop (exhausted (Some err)), n')
            else (case realSleep retryWait n' of
                (Some sleepErr, n'') \<Rightarrow> (Stop (Some sleepErr), n'')
              | (None, n'') \<Rightarrow> (Next (wrap64 (cumulativeWait + retryWait)) True (Some err), n''))
          else (Next cumulativeWait True (Some err), n'))"

function retry_loop ::
    "BackoffConfig \<Rightarrow> string \<Rightarrow> slackMessage \<Rightarrow> int \<Rightarrow> int \<Rightarrow> bool \<Rightarrow> notify_error option \<Rightarrow> net \<Rightarrow> notify_error option \<times> net" where
  "retry_loop b webhookURL body attempt cumulativeWait retryAfterHandled lastErr n =
     (if RetryCount b < attempt then (exhausted lastErr, n)
      else case pause_before b attempt cumulativeWait retryAfterHandled lastErr n of
        (Stop r, n') \<Rightarrow> (r, n')
      | (Next cumulativeWait' _ _, n') \<Rightarrow>
          (case attempt_step b webhookURL body attempt cumulativeWait' n' of
             (Stop r, n'') \<Rightarrow> (r, n'')
           | (Next cumulativeWait'' handled lastErr', n'') \<Rightarrow>
               retry_loop b webhookURL body (attempt + 1) cumulativeWait'' handled lastErr' n''))"
  by pat_completeness auto
termination
  by (relation "measure (\<lambda>(b, u, m, attempt, c, h, l, n). nat (RetryCount b + 1 - attempt))") auto

declare retry_loop.simps [simp del]

definition postWithRetry :: "postConfig \<Rightarrow> slackMessage \<Rightarrow> net \<Rightarrow> notify_error option \<times> net" where
  "postWithRetry cfg payload n =
     (let b = (if Base (cfg_backoff cfg) = 0 \<and> RetryCount (cfg_backoff cfg) = 0 then DefaultBackoffConfig else cfg_backoff cfg)
      in retry_loop b (cfg_webhookURL cfg) payload 0 0 False None n)"

section \<open>Bounds\<close>

lemma nanos_per_second_pos [simp]: "0 < nanos_per_second" "0 \<le> nanos_per_second"
  by (simp_all add: nanos_per_second_def)

lemma maxCumulativeWait_facts [simp]: "0 \<le> maxCumulativeWait" "int64_range maxCumulativeWait"
  by (simp_all add: maxCumulativeWait_def nanos_per_second_def int64_range_def)

text \<open>A base below \<open>2\<^sup>3\<^sup>3\<close> ns (8.5 s) cannot overflow at the largest shift.\<close>

lemma backoffDuration_bounds:
  assumes "0 \<le> base" "base < 2 ^ 33"
  shows "0 \<le> backoffDuration base k" "backoffDuration base k \<le> maxCumulativeWait"
proof -
  define j where "j = nat (if 30 < k then 30 else k)"
  have "(2::int) ^ j \<le> 2 ^ 30" unfolding j_def by (rule power_increasing) auto
  then have "base * 2 ^ j \<le> base * 2 ^ 30" using assms(1) by (intro mult_left_mono) auto
  then have "base * 2 ^ j < 2 ^ 63" using assms(2) by simp
  moreover have "0 \<le> base * 2 ^ j" using assms(1) by simp
  ultimately have "wrap64 (base * 2 ^ j) = base * 2 ^ j" by (intro wrap64_id) (simp add: int64_range_def)
  then show "0 \<le> backoffDuration base k" "backoffDuration base k \<le> maxCumulativeWait"
    using assms(1) by (auto simp: backoffDuration_def Let_def maxBackoffShift_def j_def)
qed

lemma parseRetryAfter_bounds: "parseRetryAfter s = Some d \<Longrightarrow> 0 \<le> d \<and> d \<le> maxCumulativeWait"
  by (auto simp: parseRetryAfter_def maxRetryAfterSeconds_def maxCumulativeWait_def nanos_per_second_def split: option.splits if_splits)

lemma wrap64_budget:
  assumes "0 \<le> c" "c \<le> maxCumulativeWait" "0 \<le> d" "d \<le> maxCumulativeWait"
  shows "wrap64 (c + d) = c + d"
  using assms by (intro wrap64_id) (simp add: int64_range_def maxCumulativeWait_def nanos_per_second_def)

text \<open>What one step of the loop may add to the network's record, and how it spends the waiting budget.\<close>

definition waited :: "int list \<Rightarrow> int \<Rightarrow> int \<Rightarrow> bool" where
  "waited ws c c' \<longleftrightarrow> list_all (\<lambda>w. 0 \<le> w) ws \<and> sum_list ws = c' - c \<and> 0 \<le> c' \<and> c' \<le> maxCumulativeWait"

definition delivered :: "net_event list \<Rightarrow> bool" where
  "delivered es \<longleftrightarrow> (\<exists>es' sc ra. es = es' @ [Reply sc ra] \<and> 200 \<le> sc \<and> sc < 300)"

lemma pause_before_spec:
  assumes "0 \<le> Base b" "Base b < 2 ^ 33" "0 \<le> c" "c \<le> maxCumulativeWait" "pause_before b attempt c h l n = (f, n')"
  shows "script n' = script n \<and> posts n' = posts n \<and> (case f of
      Stop r \<Rightarrow> r \<noteq> None \<and> sleeps n' = sleeps n
    | Next c' h' l' \<Rightarrow> \<exists>ws. sleeps n' = sleeps n @ ws \<and> waited ws c c')"
proof -
  note d = backoffDuration_bounds [OF assms(1,2), of "attempt - 1"]
  note w = wrap64_budget [OF assms(3,4) d]
  from assms(5) show ?thesis
    unfolding pause_before_def Let_def w realSleep_def
    using assms(3,4) d by (auto simp: exhausted_def waited_def split: if_splits prod.splits option.splits)
qed

lemma doAttempt_spec:
  assumes "doAttempt url m n = (a, n')"
  shows "sleeps n' = sleeps n \<and> (\<exists>j es. j \<le> 1 \<and> posts n' = posts n @ replicate j (url, m) \<and> script n = es @ script n'
    \<and> (case a of Done r \<Rightarrow> r = None \<longrightarrow> delivered es \<and> j = 1
       | Again e p \<Rightarrow> (case p of None \<Rightarrow> True | Some d \<Rightarrow> 0 \<le> d \<and> d \<le> maxCumulativeWait)))"
proof (cases "script n")
  case Nil
  then show ?thesis using assms by (intro conjI exI [where x = "if ctx_done n then 0 else 1"] exI [where x = "[]"])
      (auto simp: doAttempt_def doPost_def ctx_done_def Let_def split: if_splits)
next
  case (Cons e es)
  then show ?thesis
    using assms by (cases e; intro conjI exI [where x = "if ctx_done n then 0 else 1"] exI [where x = "if ctx_done n then [] else [e]"])
      (auto simp: doAttempt_def doPost_def ctx_done_def Let_def delivered_def parseRetryAfter_bounds
        split: if_splits option.splits list.splits net_event.splits)
qed

lemma attempt_step_spec:
  assumes "0 \<le> c" "c \<le> maxCumulativeWait" "attempt_step b url m attempt c n = (f, n')"
  shows "\<exists>j es ws. j \<le> 1 \<and> posts n' = posts n @ replicate j (url, m) \<and> script n = es @ script n' \<and> sleeps n' = sleeps n @ ws \<and>
    (case f of Stop r \<Rightarrow> waited ws c c \<and> (r = None \<longrightarrow> delivered es \<and> j = 1) | Next c' h' l' \<Rightarrow> waited ws c c')"
proof -
  obtain a n1 where a: "doAttempt url m n = (a, n1)" by fastforce
  from doAttempt_spec [OF a] obtain j es where 1: "sleeps n1 = sleeps n" "j \<le> 1" "posts n1 = posts n @ replicate j (url, m)"
      "script n = es @ script n1" "case a of Done r \<Rightarrow> r = None \<longrightarrow> delivered es \<and> j = 1
        | Again e p \<Rightarrow> (case p of None \<Rightarrow> True | Some d \<Rightarrow> 0 \<le> d \<and> d \<le> maxCumulativeWait)" by blast
  have "posts n' = posts n1 \<and> script n' = script n1 \<and> (\<exists>ws. sleeps n' = sleeps n1 @ ws \<and>
      (case f of Stop r \<Rightarrow> waited ws c c \<and> (r = None \<longrightarrow> a = Done None) | Next c' h' l' \<Rightarrow> waited ws c c'))"
    using assms 1(5) wrap64_budget [OF assms(1,2)] a
    by (auto simp: attempt_step_def realSleep_def exhausted_def waited_def split: attempt_result.splits option.splits if_splits)
  then show ?thesis using 1 by (auto split: flow.splits attempt_result.splits) blast+
qed

lemma waited_trans: "waited ws c c' \<Longrightarrow> waited vs c' c'' \<Longrightarrow> waited (ws @ vs) c c''"
  by (auto simp: waited_def)

lemma delivered_append: "delivered vs \<Longrightarrow> delivered (es @ vs)"
  unfolding delivered_def by (metis append.assoc)

definition bounded_run :: "string \<Rightarrow> slackMessage \<Rightarrow> int \<Rightarrow> int \<Rightarrow> net \<Rightarrow> notify_error option \<Rightarrow> net \<Rightarrow> bool" where
  "bounded_run url m k c n r n' \<longleftrightarrow> (\<exists>j es ws c'. int j \<le> max 0 k \<and> posts n' = posts n @ replicate j (url, m)
     \<and> script n = es @ script n' \<and> sleeps n' = sleeps n @ ws \<and> waited ws c c' \<and> (r = None \<longrightarrow> delivered es \<and> 0 < j))"

lemma bounded_run_more:
  assumes "bounded_run url m k c' n1 r n'" "j \<le> 1" "posts n1 = posts n @ replicate j (url, m)" "script n = es @ script n1"
    "sleeps n1 = sleeps n @ ws" "waited ws c c'" "0 \<le> k"
  shows "bounded_run url m (k + 1) c n r n'"
proof -
  from assms(1) obtain i fs vs c'' where 1: "int i \<le> k" "posts n' = posts n1 @ replicate i (url, m)" "script n1 = fs @ script n'"
      "sleeps n' = sleeps n1 @ vs" "waited vs c' c''" "r = None \<longrightarrow> delivered fs \<and> 0 < i" unfolding bounded_run_def using assms(7) by auto
  then show ?thesis
    unfolding bounded_run_def using assms waited_trans [OF assms(6) 1(5)] delivered_append [of fs es]
    by (intro exI [where x = "j + i"] exI [where x = "es @ fs"] exI [where x = "ws @ vs"] exI [where x = c''])
      (auto simp: replicate_add)
qed

lemma retry_loop_bounded:
  assumes "0 \<le> Base b" "Base b < 2 ^ 33" "0 \<le> c" "c \<le> maxCumulativeWait"
    "retry_loop b url m attempt c h l n = (r, n')"
  shows "bounded_run url m (RetryCount b + 1 - attempt) c n r n'"
  using assms(3-)
proof (induction "nat (RetryCount b + 1 - attempt)" arbitrary: attempt c h l n r n' rule: less_induct)
  case (less attempt c h l n)
  have stop: "bounded_run url m (RetryCount b + 1 - attempt) c n (Some e) n" for e
    unfolding bounded_run_def using less.prems by (intro exI [where x = 0] exI [where x = "[]"] exI [where x = c]) (auto simp: waited_def)
  show ?case
  proof (cases "RetryCount b < attempt")
    case True
    then show ?thesis using less.prems(3) stop by (auto simp: retry_loop.simps exhausted_def)
  next
    case False
    obtain f n1 where p: "pause_before b attempt c h l n = (f, n1)" by fastforce
    note ps = pause_before_spec [OF assms(1,2) less.prems(1,2) p]
    show ?thesis
    proof (cases f)
      case (Stop r1)
      then have "n1 = n\<lparr>script := script n1, posts := posts n1, sleeps := sleeps n1\<rparr>" by simp
      then have "n1 = n" using ps Stop by simp
      then show ?thesis using less.prems(3) False p Stop ps stop by (auto simp: retry_loop.simps)
    next
      case (Next c1 h1 l1)
      then obtain ws where w: "sleeps n1 = sleeps n @ ws" "waited ws c c1" using ps by auto
      then have c1: "0 \<le> c1" "c1 \<le> maxCumulativeWait" by (auto simp: waited_def)
      obtain g n2 where a: "attempt_step b url m attempt c1 n1 = (g, n2)" by fastforce
      from attempt_step_spec [OF c1 a] obtain j es vs where 2: "j \<le> 1" "posts n2 = posts n1 @ replicate j (url, m)"
          "script n1 = es @ script n2" "sleeps n2 = sleeps n1 @ vs"
          "case g of Stop r \<Rightarrow> waited vs c1 c1 \<and> (r = None \<longrightarrow> delivered es \<and> j = 1) | Next c' h' l' \<Rightarrow> waited vs c1 c'" by blast
      have k: "RetryCount b + 1 - attempt = RetryCount b + 1 - (attempt + 1) + 1" "0 \<le> RetryCount b + 1 - (attempt + 1)" using False by simp_all
      show ?thesis
      proof (cases g)
        case (Stop r2)
        then have "waited (ws @ vs) c c1" using waited_trans [OF w(2)] 2(5) by simp
        then show ?thesis
          using less.prems(3) False p Next a Stop 2 w ps unfolding bounded_run_def
          by (intro exI [where x = j] exI [where x = es] exI [where x = "ws @ vs"] exI [where x = c1]) (auto simp: retry_loop.simps)
      next
        case n: (Next c2 h2 l2)
        then have v: "waited vs c1 c2" using 2(5) by simp
        then have "bounded_run url m (RetryCount b + 1 - (attempt + 1)) c2 n2 r n'"
          using less.prems(3) False p Next a n by (intro less.hyps) (auto simp: retry_loop.simps waited_def)
        then show ?thesis unfolding k(1)
          by (rule bounded_run_more [OF _ 2(1) _ _ _ waited_trans [OF w(2) v] k(2)]) (use 2 w ps in auto)
      qed
    qed
  qed
qed

lemma postWithRetry_run:
  assumes "0 \<le> Base (cfg_backoff cfg)" "Base (cfg_backoff cfg) < 2 ^ 33" "0 \<le> RetryCount (cfg_backoff cfg)"
    "postWithRetry cfg m n = (r, n')"
  shows "bounded_run (cfg_webhookURL cfg) m
    ((if Base (cfg_backoff cfg) = 0 \<and> RetryCount (cfg_backoff cfg) = 0 then 3 else RetryCount (cfg_backoff cfg)) + 1) 0 n r n'"
proof -
  let ?b = "if Base (cfg_backoff cfg) = 0 \<and> RetryCount (cfg_backoff cfg) = 0 then DefaultBackoffConfig else cfg_backoff cfg"
  have b: "0 \<le> Base ?b" "Base ?b < 2 ^ 33"
    using assms(1,2) by (auto simp: DefaultBackoffConfig_def nanos_per_second_def)
  have "bounded_run (cfg_webhookURL cfg) m (RetryCount ?b + 1 - 0) 0 n r n'"
    by (rule retry_loop_bounded [OF b]) (use assms(4) in \<open>auto simp: postWithRetry_def Let_def\<close>)
  then show ?thesis by (auto simp: DefaultBackoffConfig_def split: if_splits)
qed

text \<open>
  C27. Posting a message always returns, makes at most one request more than the configured number of
  retries, all to the configured URL with the same message, sleeps at most 14 seconds in total
  whatever the server answers and asks for, and reports success only if it posted the message and
  the last reply it read has a status from 200 to 299. The bound on the base is where the exponential backoff cannot overflow.
\<close>

theorem postWithRetry_bounded:
  assumes "0 \<le> Base (cfg_backoff cfg)" "Base (cfg_backoff cfg) < 2 ^ 33" "0 \<le> RetryCount (cfg_backoff cfg)"
    "postWithRetry cfg m n = (r, n')"
  shows "\<exists>j ws es. posts n' = posts n @ replicate j (cfg_webhookURL cfg, m)
    \<and> int j \<le> (if Base (cfg_backoff cfg) = 0 \<and> RetryCount (cfg_backoff cfg) = 0 then 3 else RetryCount (cfg_backoff cfg)) + 1
    \<and> sleeps n' = sleeps n @ ws \<and> list_all (\<lambda>w. 0 \<le> w) ws \<and> sum_list ws \<le> 14 * nanos_per_second
    \<and> script n = es @ script n'
    \<and> (r = None \<longrightarrow> 0 < j \<and> (\<exists>es' sc ra. es = es' @ [Reply sc ra] \<and> 200 \<le> sc \<and> sc < 300))"
  using postWithRetry_run [OF assms] assms(1,3) unfolding bounded_run_def waited_def delivered_def maxCumulativeWait_def
  by (elim exE conjE) (rule exI, rule exI, rule exI, auto split: if_splits)

section \<open>Transient failures\<close>

definition transient :: "net_event \<Rightarrow> bool" where
  "transient e \<longleftrightarrow> (case e of Reply sc ra \<Rightarrow> 500 \<le> sc | RequestError \<Rightarrow> True | Cancelled \<Rightarrow> False)"

definition net_after :: "string \<Rightarrow> slackMessage \<Rightarrow> nat \<Rightarrow> int list \<Rightarrow> net \<Rightarrow> net" where
  "net_after url m j ws n = n\<lparr>script := drop j (script n), posts := posts n @ replicate j (url, m), sleeps := sleeps n @ ws\<rparr>"

lemma attempt_transient:
  assumes "script n = e # e' # rest" "transient e" "e' \<noteq> Cancelled"
  shows "\<exists>err. attempt_step b url m attempt c n = (Next c False (Some err), net_after url m 1 [] n)"
  using assms by (cases e; cases e')
    (auto simp: attempt_step_def doAttempt_def doPost_def ctx_done_def transient_def net_after_def Let_def split: net_event.splits)

lemma attempt_delivers:
  assumes "script n = Reply sc ra # rest" "200 \<le> sc" "sc < 300"
  shows "attempt_step b url m attempt c n = (Stop None, net_after url m 1 [] n)"
  using assms by (auto simp: attempt_step_def doAttempt_def doPost_def ctx_done_def net_after_def Let_def)

text \<open>The pause before each attempt of the default configuration, and their sum before an attempt.\<close>

definition default_waits :: "int list list" where
  "default_waits = [[], [2 * nanos_per_second], [4 * nanos_per_second], [8 * nanos_per_second]]"

definition default_total :: "nat \<Rightarrow> int" where
  "default_total a = sum_list (concat (take a default_waits))"

lemma pause_default:
  assumes "\<not> ctx_done n" "a \<le> 3"
  shows "pause_before DefaultBackoffConfig (int a) (default_total a) False l n =
    (Next (default_total (a + 1)) False l, net_after url m 0 (default_waits ! a) n)"
proof -
  from assms(2) consider "a = 0" | "a = 1" | "a = 2" | "a = 3" by linarith
  then show ?thesis
    using assms(1) by cases (simp_all add: pause_before_def Let_def backoffDuration_def maxBackoffShift_def maxCumulativeWait_def
        DefaultBackoffConfig_def realSleep_def net_after_def nanos_per_second_def wrap64_def default_total_def default_waits_def
        numeral_2_eq_2 numeral_3_eq_3)
qed

lemma default_retry_delivers:
  assumes "script n = es @ Reply sc ra # rest" "length es + a \<le> 3" "list_all transient es" "200 \<le> sc" "sc < 300"
  shows "retry_loop DefaultBackoffConfig url m (int a) (default_total a) False l n =
    (None, net_after url m (length es + 1) (concat (take (length es + 1) (drop a default_waits))) n)"
  using assms(1-3)
proof (induction es arbitrary: a l n)
  case Nil
  then have p: "pause_before DefaultBackoffConfig (int a) (default_total a) False l n =
      (Next (default_total (a + 1)) False l, net_after url m 0 (default_waits ! a) n)"
    by (intro pause_default) (auto simp: ctx_done_def)
  have "attempt_step DefaultBackoffConfig url m (int a) (default_total (a + 1)) (net_after url m 0 (default_waits ! a) n) =
      (Stop None, net_after url m 1 [] (net_after url m 0 (default_waits ! a) n))"
    by (rule attempt_delivers [OF _ assms(4,5)]) (use Nil in \<open>simp add: net_after_def\<close>)
  moreover have "drop a default_waits = default_waits ! a # drop (Suc a) default_waits"
    using Nil by (intro Cons_nth_drop_Suc [symmetric]) (simp add: default_waits_def)
  ultimately show ?case using Nil p by (subst retry_loop.simps) (auto simp: DefaultBackoffConfig_def net_after_def)
next
  case (Cons e es)
  then have p: "pause_before DefaultBackoffConfig (int a) (default_total a) False l n =
      (Next (default_total (a + 1)) False l, net_after url m 0 (default_waits ! a) n)"
    by (intro pause_default) (auto simp: ctx_done_def transient_def split: net_event.splits)
  let ?n = "net_after url m 0 (default_waits ! a) n"
  obtain e' rest' where tl: "es @ Reply sc ra # rest = e' # rest'" "e' \<noteq> Cancelled"
    using Cons.prems(3) by (cases es) (auto simp: transient_def split: net_event.splits)
  have "script ?n = e # e' # rest'" "transient e" using tl(1) Cons.prems by (simp_all add: net_after_def)
  then obtain err where "attempt_step DefaultBackoffConfig url m (int a) (default_total (a + 1)) ?n =
      (Next (default_total (a + 1)) False (Some err), net_after url m 1 [] ?n)"
    using attempt_transient [OF _ _ tl(2)] by blast
  then have "retry_loop DefaultBackoffConfig url m (int a) (default_total a) False l n =
      retry_loop DefaultBackoffConfig url m (int (a + 1)) (default_total (a + 1)) False (Some err) (net_after url m 1 [] ?n)"
    using Cons.prems(2) p by (subst retry_loop.simps) (simp add: DefaultBackoffConfig_def add.commute)
  also have "\<dots> = (None, net_after url m (length es + 1) (concat (take (length es + 1) (drop (a + 1) default_waits))) (net_after url m 1 [] ?n))"
    by (rule Cons.IH) (use Cons.prems in \<open>auto simp: net_after_def\<close>)
  also have "drop a default_waits = default_waits ! a # drop (Suc a) default_waits"
    using Cons.prems(2) by (intro Cons_nth_drop_Suc [symmetric]) (simp add: default_waits_def)
  ultimately show ?case using Cons.prems by (simp add: net_after_def replicate_app_Cons_same)
qed

text \<open>
  C26. With the production configuration a message survives up to three transient failures in a row
  (requests that fail and server errors): if one of the first four replies accepts it, the call
  succeeds, has posted the message once per failure and once more, and has slept 2, 4 and 8
  seconds before the repeated attempts.
\<close>

theorem postWithRetry_delivers:
  assumes "cfg_backoff cfg = DefaultBackoffConfig" "script n = es @ Reply sc ra # rest" "length es \<le> 3" "list_all transient es"
    "200 \<le> sc" "sc < 300"
  shows "postWithRetry cfg m n = (None, n\<lparr>script := rest, posts := posts n @ replicate (length es + 1) (cfg_webhookURL cfg, m),
    sleeps := sleeps n @ take (length es) [2 * nanos_per_second, 4 * nanos_per_second, 8 * nanos_per_second]\<rparr>)"
proof -
  have "concat (take (length es + 1) default_waits) = take (length es) [2 * nanos_per_second, 4 * nanos_per_second, 8 * nanos_per_second]"
    using assms(3) by (auto simp: default_waits_def le_Suc_eq numeral_3_eq_3)
  then show ?thesis
    using default_retry_delivers [OF assms(2) _ assms(4-6), of 0 "cfg_webhookURL cfg" m None] assms(1-3)
    by (simp add: postWithRetry_def Let_def default_total_def net_after_def DefaultBackoffConfig_def nanos_per_second_def)
qed

definition sample_message :: slackMessage where
  "sample_message = \<lparr>Text = [65], Attachments = []\<rparr>"

theorem postWithRetry_bounded_witness:
  "\<exists>j ws. posts (snd (postWithRetry \<lparr>cfg_backoff = DefaultBackoffConfig, cfg_webhookURL = ''u''\<rparr> sample_message
       \<lparr>script = [Reply 429 ''9'', Reply 429 ''9''], posts = [], sleeps = []\<rparr>)) = replicate j (''u'', sample_message)
     \<and> int j \<le> 4 \<and> sleeps (snd (postWithRetry \<lparr>cfg_backoff = DefaultBackoffConfig, cfg_webhookURL = ''u''\<rparr> sample_message
       \<lparr>script = [Reply 429 ''9'', Reply 429 ''9''], posts = [], sleeps = []\<rparr>)) = ws \<and> sum_list ws \<le> 14 * nanos_per_second"
proof -
  let ?c = "\<lparr>cfg_backoff = DefaultBackoffConfig, cfg_webhookURL = ''u''\<rparr>" and ?n = "\<lparr>script = [Reply 429 ''9'', Reply 429 ''9''], posts = [], sleeps = []\<rparr>"
  obtain r n' where run: "postWithRetry ?c sample_message ?n = (r, n')" by fastforce
  from postWithRetry_bounded [OF _ _ _ run] run show ?thesis
    by (fastforce simp: DefaultBackoffConfig_def nanos_per_second_def)
qed

theorem postWithRetry_delivers_witness:
  "postWithRetry \<lparr>cfg_backoff = DefaultBackoffConfig, cfg_webhookURL = ''u''\<rparr> sample_message
       \<lparr>script = [RequestError, Reply 503 [], Reply 200 []], posts = [], sleeps = []\<rparr>
   = (None, \<lparr>script = [], posts = [(''u'', sample_message), (''u'', sample_message), (''u'', sample_message)], sleeps = [2 * nanos_per_second, 4 * nanos_per_second]\<rparr>)"
  using postWithRetry_delivers [of "\<lparr>cfg_backoff = DefaultBackoffConfig, cfg_webhookURL = ''u''\<rparr>"
      "\<lparr>script = [RequestError, Reply 503 [], Reply 200 []], posts = [], sleeps = []\<rparr>" "[RequestError, Reply 503 []]" 200 "[]" "[]"]
  by (simp add: transient_def)

end
