(* ===== verification/Notify_Handler.thy ===== *)
theory Notify_Handler
  imports Notify_Retry "HOL-Library.Multiset"
begin

text \<open>
  \<^verbatim>\<open>internal/notify/helpers.go\<close>, \<^verbatim>\<open>handler.go\<close> and \<^verbatim>\<open>validate.go\<close>: notifications are encoded as log records,
  buffered by handlers and sent by \<^verbatim>\<open>Flush\<close>. Arguments of the definitions: \<open>srt\<close>, the sorting
  function \<^verbatim>\<open>slices.SortFunc\<close>, which leaves the order of equal elements open, applied to the comparator of the program; \<open>urlParse\<close>, the parser of \<^verbatim>\<open>net/url\<close>;
  \<open>render\<close>, how \<^verbatim>\<open>slog\<close> prints a value that is not a string. The debug logger and the mutex around the
  buffer are not modelled: a handler is used by one goroutine.
\<close>

section \<open>Handlers\<close>

record SlackHandler =
  opts :: SlackHandlerOptions
  buf :: "slogRecord list"

definition Enabled :: "SlackHandler \<Rightarrow> int \<Rightarrow> bool" where
  "Enabled h level = (case opt_LevelMode (opts h) of
       LevelModeExactInfo \<Rightarrow> level = LevelInfo
     | LevelModeWarnAndAbove \<Rightarrow> LevelWarn \<le> level
     | LevelModeOther _ \<Rightarrow> LevelInfo \<le> level)"

definition Handle :: "SlackHandler \<Rightarrow> slogRecord \<Rightarrow> SlackHandler" where
  "Handle h r = h\<lparr>buf := buf h @ [r]\<rparr>"

definition takeSnapshot :: "SlackHandler \<Rightarrow> slogRecord list \<times> SlackHandler" where
  "takeSnapshot h = (buf h, h\<lparr>buf := []\<rparr>)"

section \<open>Encoding notifications\<close>

definition maxFailureDetails :: nat where
  "maxFailureDetails = 10"

definition newRecord :: "int \<Rightarrow> string \<Rightarrow> slogRecord" where
  "newRecord level msg = \<lparr>record_Level = level, record_Message = runes msg, record_Attrs = []\<rparr>"

definition detail_attrs :: "notifyFailureDetail \<Rightarrow> slog_attr list" where
  "detail_attrs fd =
     [(runes ''result_type'', VString (fd_ResultType fd)),
      (runes ''failed_session_count'', VInt64 (fd_FailedSessionCount fd)),
      (runes ''receiving_mx_hostname'', VString (fd_ReceivingMXHostname fd)),
      (runes ''failure_reason_code'', VString (fd_FailureReasonCode fd))]"

fun detail_groups :: "nat \<Rightarrow> notifyFailureDetail list \<Rightarrow> slog_attr list" where
  "detail_groups i [] = []"
| "detail_groups i (fd # fds) = (runes (dec_string i), VGroup (detail_attrs fd)) # detail_groups (i + 1) fds"

text \<open>\<^verbatim>\<open>cmp.Compare\<close> on integers, and the comparator that \<^verbatim>\<open>LogAlert\<close> sorts by.\<close>

definition cmp_Compare :: "int \<Rightarrow> int \<Rightarrow> int" where
  "cmp_Compare x y = (if x < y then - 1 else if y < x then 1 else 0)"

definition compareDetails :: "notifyFailureDetail \<Rightarrow> notifyFailureDetail \<Rightarrow> int" where
  "compareDetails a b = cmp_Compare (fd_FailedSessionCount b) (fd_FailedSessionCount a)"

type_synonym sort_details = "(notifyFailureDetail \<Rightarrow> notifyFailureDetail \<Rightarrow> int) \<Rightarrow> notifyFailureDetail list \<Rightarrow> notifyFailureDetail list"

definition alert_record :: "sort_details \<Rightarrow> Alert \<Rightarrow> slogRecord" where
  "alert_record srt a =
     AddAttrs [(runes ''failure_details'', VGroup (detail_groups 0 (take maxFailureDetails (srt compareDetails (alert_FailureDetails a)))))]
     (AddAttrs
        [(runes ''failure_details_total_count'', VInt64 (int (length (alert_FailureDetails a)))),
         (runes ''failure_details_total_sessions'', VInt64 (sum64 0 (map fd_FailedSessionCount (alert_FailureDetails a))))]
     (AddAttrs
        [(runes ''organization_name'', VString (alert_OrganizationName a)),
         (runes ''policy_type'', VString (alert_PolicyType a)),
         (runes ''failure_count'', VInt64 (FailureCount a)),
         (runes ''date_start'', VTime (range_Start (alert_DateRange a))),
         (runes ''date_end'', VTime (range_End (alert_DateRange a))),
         (runes ''report_id'', VString (alert_ReportID a))]
     (newRecord LevelWarn ''tls_failure_alert'')))"

definition LogAlert :: "sort_details \<Rightarrow> SlackHandler \<Rightarrow> Alert \<Rightarrow> SlackHandler" where
  "LogAlert srt h alert = (if \<not> Enabled h LevelWarn then h else Handle h (alert_record srt alert))"

definition syserr_record :: "SystemError \<Rightarrow> slogRecord" where
  "syserr_record e =
     (let r = AddAttrs [(runes ''kind'', VString (syserr_Kind e)), (runes ''component'', VString (syserr_Component e))]
            (newRecord LevelError ''system_error'')
      in if syserr_Mailbox e \<noteq> [] then AddAttrs [(runes ''mailbox'', VString (syserr_Mailbox e))] r else r)"

definition LogSystemError :: "SlackHandler \<Rightarrow> SystemError \<Rightarrow> SlackHandler" where
  "LogSystemError h e = (if \<not> Enabled h LevelError then h else Handle h (syserr_record e))"

definition warning_record :: "Warning \<Rightarrow> slogRecord" where
  "warning_record w =
     AddAttrs
       [(runes ''kind'', VString (warning_Kind w)),
        (runes ''uid'', VUint64 (uint (warning_UID w))),
        (runes ''uidvalidity'', VUint64 (uint (warning_UIDValidity w))),
        (runes ''message_id'', VString (warning_MessageID w))]
     (newRecord LevelWarn ''fetch_warning'')"

definition LogWarning :: "SlackHandler \<Rightarrow> Warning \<Rightarrow> SlackHandler" where
  "LogWarning h w = (if \<not> Enabled h LevelWarn then h else Handle h (warning_record w))"

definition summary_record :: "Summary \<Rightarrow> slogRecord" where
  "summary_record s =
     AddAttrs
       [(runes ''period_start'', VTime (range_Start (Period s))),
        (runes ''period_end'', VTime (range_End (Period s))),
        (runes ''report_count'', VInt64 (ReportCount s)),
        (runes ''organization_stats'',
           VGroup (map (\<lambda>organization. (organization, VInt64 (stats_get organization (OrganizationStats s))))
             (sort (map fst (OrganizationStats s)))))]
     (newRecord LevelInfo ''periodic_summary'')"

definition LogSummary :: "SlackHandler \<Rightarrow> Summary \<Rightarrow> SlackHandler" where
  "LogSummary h s = (if \<not> Enabled h LevelInfo then h else Handle h (summary_record s))"

section \<open>Sending\<close>

fun send_all :: "postConfig \<Rightarrow> slackMessage list \<Rightarrow> net \<Rightarrow> notify_error list \<times> net" where
  "send_all cfg [] n = ([], n)"
| "send_all cfg (msg # msgs) n =
     (let (r, n1) = postWithRetry cfg (truncateMessage msg) n;
          (errs, n2) = send_all cfg msgs n1
      in (case r of None \<Rightarrow> errs | Some e \<Rightarrow> e # errs, n2))"

definition send :: "(slog_value \<Rightarrow> gotext) \<Rightarrow> SlackHandler \<Rightarrow> slogRecord list \<Rightarrow> net \<Rightarrow> (notify_error list \<times> net) option" where
  "send render h records n =
     map_option (\<lambda>msgs. send_all \<lparr>cfg_backoff = opt_BackoffConfig (opts h), cfg_webhookURL = WebhookURL (opts h)\<rparr> msgs n)
       (formatRecords render records (RunID (opts h)))"

text \<open>The result is the joined errors, the network and the handler; \<open>None\<close> is a panic.\<close>

definition Flush :: "(slog_value \<Rightarrow> gotext) \<Rightarrow> SlackHandler \<Rightarrow> net \<Rightarrow> (notify_error list \<times> net \<times> SlackHandler) option" where
  "Flush render h n =
     (let (snapshot, h') = takeSnapshot h in
      if snapshot = [] then Some ([], n, h')
      else if opt_IsDryRun (opts h) then map_option (\<lambda>_. ([], n, h')) (formatRecords render snapshot (RunID (opts h)))
      else map_option (\<lambda>(errs, n'). (errs, n', h')) (send render h' snapshot n))"

section \<open>Webhook validation and construction\<close>

datatype webhook_error =
    SuccessWithoutError
  | EmptyWebhookURL
  | InvalidWebhookURL
  | WebhookNotHTTPS string
  | WebhookWithoutHost
  | AllowedHostMissing
  | HostMismatch string string
  | NegativeBackoff

record parsed_url =
  url_Scheme :: string
  url_Host :: string
  url_Hostname :: string

definition ValidateEnvCombination :: "string \<Rightarrow> string \<Rightarrow> webhook_error option" where
  "ValidateEnvCombination successURL errorURL = (if successURL \<noteq> [] \<and> errorURL = [] then Some SuccessWithoutError else None)"

definition validateWebhookURL :: "(string \<Rightarrow> parsed_url option) \<Rightarrow> string \<Rightarrow> string \<Rightarrow> webhook_error option" where
  "validateWebhookURL urlParse webhookURL allowedHost =
     (if webhookURL = [] then Some EmptyWebhookURL
      else case urlParse webhookURL of
        None \<Rightarrow> Some InvalidWebhookURL
      | Some u \<Rightarrow>
          if url_Scheme u \<noteq> ''https'' then Some (WebhookNotHTTPS (url_Scheme u))
          else if url_Host u = [] then Some WebhookWithoutHost
          else if allowedHost = [] then Some AllowedHostMissing
          else if to_lower (url_Hostname u) \<noteq> to_lower allowedHost then Some (HostMismatch (to_lower (url_Hostname u)) allowedHost)
          else None)"

definition NewSlackHandler :: "(string \<Rightarrow> parsed_url option) \<Rightarrow> SlackHandlerOptions \<Rightarrow> webhook_error + SlackHandler" where
  "NewSlackHandler urlParse ops =
     (case (if \<not> opt_IsDryRun ops \<or> WebhookURL ops \<noteq> [] then validateWebhookURL urlParse (WebhookURL ops) (AllowedHost ops) else None) of
        Some err \<Rightarrow> Inl err
      | None \<Rightarrow>
          if Base (opt_BackoffConfig ops) < 0 \<or> RetryCount (opt_BackoffConfig ops) < 0 then Inl NegativeBackoff
          else Inr \<lparr>opts = (if Base (opt_BackoffConfig ops) = 0 \<and> RetryCount (opt_BackoffConfig ops) = 0
                       then ops\<lparr>opt_BackoffConfig := DefaultBackoffConfig\<rparr> else ops), buf = []\<rparr>)"

text \<open>Running a list of constructors and stopping at the first error, as the sequence of early returns does.\<close>

fun all_or_error :: "(webhook_error + SlackHandler) list \<Rightarrow> webhook_error + SlackHandler list" where
  "all_or_error [] = Inr []"
| "all_or_error (Inl e # rs) = Inl e"
| "all_or_error (Inr h # rs) = (case all_or_error rs of Inl e \<Rightarrow> Inl e | Inr hs \<Rightarrow> Inr (h # hs))"

definition BuildHandlers ::
    "(string \<Rightarrow> parsed_url option) \<Rightarrow> string \<Rightarrow> string \<Rightarrow> string \<Rightarrow> SlackHandlerOptions \<Rightarrow> webhook_error + SlackHandler list" where
  "BuildHandlers urlParse successURL errorURL allowedHost ops =
     (if successURL = [] \<and> errorURL = [] then
        if \<not> opt_IsDryRun ops then Inr []
        else all_or_error [NewSlackHandler urlParse (ops\<lparr>opt_LevelMode := LevelModeExactInfo\<rparr>),
               NewSlackHandler urlParse (ops\<lparr>opt_LevelMode := LevelModeWarnAndAbove\<rparr>)]
      else case ValidateEnvCombination successURL errorURL of
        Some err \<Rightarrow> Inl err
      | None \<Rightarrow> (case (if successURL \<noteq> [] then validateWebhookURL urlParse successURL allowedHost else None) of
          Some err \<Rightarrow> Inl err
        | None \<Rightarrow> (case (if errorURL \<noteq> [] then validateWebhookURL urlParse errorURL allowedHost else None) of
            Some err \<Rightarrow> Inl err
          | None \<Rightarrow> all_or_error
              ((if successURL \<noteq> [] then [NewSlackHandler urlParse (ops\<lparr>WebhookURL := successURL, opt_LevelMode := LevelModeExactInfo\<rparr>)] else []) @
               (if errorURL \<noteq> [] then [NewSlackHandler urlParse (ops\<lparr>WebhookURL := errorURL, opt_LevelMode := LevelModeWarnAndAbove\<rparr>)] else [])))))"

section \<open>The order of failure details\<close>

text \<open>The comparators that \<^verbatim>\<open>slices.SortFunc\<close> accepts, and what it promises for them: a permutation in which no element follows a greater one.\<close>

definition strict_weak_order :: "('a \<Rightarrow> 'a \<Rightarrow> int) \<Rightarrow> bool" where
  "strict_weak_order cmp \<longleftrightarrow> (\<forall>a b. cmp a b < 0 \<longleftrightarrow> 0 < cmp b a) \<and> (\<forall>a b c. cmp a b \<le> 0 \<longrightarrow> cmp b c \<le> 0 \<longrightarrow> cmp a c \<le> 0)"

locale sort_func =
  fixes srt :: "('a \<Rightarrow> 'a \<Rightarrow> int) \<Rightarrow> 'a list \<Rightarrow> 'a list"
  assumes perm: "strict_weak_order cmp \<Longrightarrow> mset (srt cmp xs) = mset xs"
    and ordered: "strict_weak_order cmp \<Longrightarrow> sorted_wrt (\<lambda>a b. cmp a b \<le> 0) (srt cmp xs)"
begin

lemma srt_length: "strict_weak_order cmp \<Longrightarrow> length (srt cmp xs) = length xs"
  using perm [of cmp xs] by (metis size_mset)

text \<open>The first entries come before the others, and nothing is lost but the rest.\<close>

lemma srt_top:
  assumes "strict_weak_order cmp" "x \<in> set (take k (srt cmp xs))" "y \<in> set (drop k (srt cmp xs))"
  shows "cmp x y \<le> 0"
  using ordered [OF assms(1), of xs] assms(2,3) by (subst (asm) append_take_drop_id [of k, symmetric]) (auto simp: sorted_wrt_append simp del: append_take_drop_id)

lemma srt_split: "strict_weak_order cmp \<Longrightarrow> mset (take k (srt cmp xs)) + mset (drop k (srt cmp xs)) = mset xs"
  by (metis append_take_drop_id mset_append perm)

end

text \<open>Insertion sort, which is what \<^verbatim>\<open>slices.SortFunc\<close> performs on at most twelve elements.\<close>

fun insert_cmp :: "('a \<Rightarrow> 'a \<Rightarrow> int) \<Rightarrow> 'a \<Rightarrow> 'a list \<Rightarrow> 'a list" where
  "insert_cmp cmp x [] = [x]"
| "insert_cmp cmp x (y # ys) = (if cmp x y < 0 then x # y # ys else y # insert_cmp cmp x ys)"

definition insertionSort :: "('a \<Rightarrow> 'a \<Rightarrow> int) \<Rightarrow> 'a list \<Rightarrow> 'a list" where
  "insertionSort cmp xs = fold (insert_cmp cmp) xs []"

lemma mset_insert_cmp [simp]: "mset (insert_cmp cmp x xs) = add_mset x (mset xs)"
  by (induction xs) auto

lemma set_insert_cmp [simp]: "set (insert_cmp cmp x xs) = insert x (set xs)"
  by (induction xs) auto

lemma sorted_insert_cmp:
  assumes "strict_weak_order cmp"
  shows "sorted_wrt (\<lambda>a b. cmp a b \<le> 0) xs \<Longrightarrow> sorted_wrt (\<lambda>a b. cmp a b \<le> 0) (insert_cmp cmp x xs)"
proof (induction xs)
  case (Cons y ys)
  have o: "cmp a b < 0 \<longleftrightarrow> 0 < cmp b a" "cmp a b \<le> 0 \<Longrightarrow> cmp b c \<le> 0 \<Longrightarrow> cmp a c \<le> 0" for a b c
    using assms unfolding strict_weak_order_def by blast+
  show ?case
  proof (cases "cmp x y < 0")
    case True
    then have "\<forall>z \<in> set ys. cmp x z \<le> 0" using Cons.prems o(2) [of x y] by auto
    with True Cons.prems show ?thesis by auto
  next
    case False
    then have "cmp y x \<le> 0" using o(1) [of x y] by simp
    with False Cons show ?thesis by auto
  qed
qed simp

interpretation insertion: sort_func insertionSort
proof
  fix cmp :: "'a \<Rightarrow> 'a \<Rightarrow> int" and xs
  have "mset (fold (insert_cmp cmp) xs ys) = mset xs + mset ys" for ys by (induction xs arbitrary: ys) simp_all
  then show "mset (insertionSort cmp xs) = mset xs" by (simp add: insertionSort_def)
  assume "strict_weak_order cmp"
  then have "sorted_wrt (\<lambda>a b. cmp a b \<le> 0) ys \<Longrightarrow> sorted_wrt (\<lambda>a b. cmp a b \<le> 0) (fold (insert_cmp cmp) xs ys)" for ys
    by (induction xs arbitrary: ys) (simp_all add: sorted_insert_cmp)
  then show "sorted_wrt (\<lambda>a b. cmp a b \<le> 0) (insertionSort cmp xs)" by (simp add: insertionSort_def)
qed

text \<open>The program's comparator is one of these, and puts more sessions first.\<close>

lemma compareDetails_le: "compareDetails a b \<le> 0 \<longleftrightarrow> fd_FailedSessionCount b \<le> fd_FailedSessionCount a"
  by (simp add: compareDetails_def cmp_Compare_def)

lemma compareDetails_order: "strict_weak_order compareDetails"
  by (auto simp: strict_weak_order_def compareDetails_def cmp_Compare_def split: if_splits)

section \<open>Reading back what was logged\<close>

lemma AddAttrs_simps [simp]:
  "record_Attrs (AddAttrs as r) = record_Attrs r @ filter (\<lambda>a. snd a \<noteq> VGroup []) as"
  "record_Level (AddAttrs as r) = record_Level r" "record_Message (AddAttrs as r) = record_Message r"
  by (simp_all add: AddAttrs_def)

lemma newRecord_simps [simp]:
  "record_Attrs (newRecord l s) = []" "record_Level (newRecord l s) = l" "record_Message (newRecord l s) = runes s"
  by (simp_all add: newRecord_def)

lemma value_simps [simp]:
  "value_String render (VString s) = s" "value_Int64 (VInt64 i) = Some i" "value_Uint64 (VUint64 i) = Some i"
  by (simp_all add: value_String_def value_Int64_def value_Uint64_def)

lemma each_attr_append: "each_attr f (xs @ ys) a = (case each_attr f xs a of None \<Rightarrow> None | Some a' \<Rightarrow> each_attr f ys a')"
  by (induction xs arbitrary: a) (auto split: option.splits)

lemma each_detail [simp]: "each_attr (detail_field render) (detail_attrs fd) zero_detail = Some fd"
  by (simp add: detail_attrs_def detail_field_def zero_detail_def)

lemma each_group [simp]: "each_attr (detail_child render) (detail_groups i fds) acc = Some (acc @ fds)"
  by (induction fds arbitrary: i acc) (simp_all add: detail_child_def)

lemma detail_groups_Nil [simp]: "detail_groups i fds = [] \<longleftrightarrow> fds = []"
  by (cases fds) simp_all

definition stored_alert :: "sort_details \<Rightarrow> Alert \<Rightarrow> Alert" where
  "stored_alert srt a = a\<lparr>alert_FailureDetails := take 10 (srt compareDetails (alert_FailureDetails a)),
     FailureDetailsTotalCount := int (length (alert_FailureDetails a)),
     FailureDetailsTotalSessions := sum64 0 (map fd_FailedSessionCount (alert_FailureDetails a))\<rparr>"

lemma extractAlert_record: "extractAlert render (alert_record srt a) = Some (stored_alert srt a)"
proof (cases "take 10 (srt compareDetails (alert_FailureDetails a)) = []")
  case True
  then show ?thesis
    unfolding extractAlert_def alert_record_def
    by (simp del: take_eq_Nil add: alert_attr_def zero_alert_def zero_range_def stored_alert_def maxFailureDetails_def)
next
  case False
  then show ?thesis
    unfolding extractAlert_def alert_record_def
    by (simp del: take_eq_Nil add: alert_attr_def zero_alert_def zero_range_def stored_alert_def maxFailureDetails_def)
qed

lemma extractSystemError_record: "extractSystemError render (syserr_record e) = Some e"
  by (cases "syserr_Mailbox e = []") (simp_all add: extractSystemError_def syserr_record_def Let_def syserr_attr_def)

lemma extractWarning_record: "extractWarning render (warning_record w) = Some w"
  by (simp add: extractWarning_def warning_record_def warning_attr_def)

lemma stats_set_new: "k \<notin> set (map fst st) \<Longrightarrow> stats_set k n st = st @ [(k, n)]"
  by (induction st) auto

lemma fold_stat_attr:
  "distinct (map fst st @ ks) \<Longrightarrow> fold stat_attr (map (\<lambda>k. (k, VInt64 (f k))) ks) st = st @ map (\<lambda>k. (k, f k)) ks"
  by (induction ks arbitrary: st) (simp_all add: stat_attr_def stats_set_new)

definition stored_summary :: "Summary \<Rightarrow> Summary" where
  "stored_summary s = s\<lparr>OrganizationStats := map (\<lambda>k. (k, stats_get k (OrganizationStats s))) (sort (map fst (OrganizationStats s)))\<rparr>"

lemma extractSummary_record:
  "distinct (map fst (OrganizationStats s)) \<Longrightarrow> extractSummary (summary_record s) = Some (stored_summary s)"
  using fold_stat_attr [of "[]" "sort (map fst (OrganizationStats s))" "\<lambda>k. stats_get k (OrganizationStats s)"]
  by (cases "OrganizationStats s = []")
    (simp_all add: extractSummary_def summary_record_def summary_attr_def stored_summary_def zero_range_def)

lemma stats_get_stored:
  "stats_get k (map (\<lambda>k. (k, stats_get k st)) (sort (map fst st))) = stats_get k st"
  unfolding stats_get_def
  by (auto simp: map_of_map_restrict restrict_map_def split: option.splits dest: map_of_SomeD) (force dest: map_of_SomeD)

lemma formatSummary_stored: "formatSummary (stored_summary s) runID = formatSummary s runID"
proof -
  have "sort (map (fst \<circ> (\<lambda>k. (k, stats_get k st))) (sort (map fst st))) = sort (map fst st)" for st :: org_stats
    by (simp add: comp_def sorted_sort_id)
  moreover have "summary_attachment runID (OrganizationStats (stored_summary s)) = summary_attachment runID (OrganizationStats s)"
    by (intro ext) (simp add: summary_attachment_def stored_summary_def stats_get_stored)
  ultimately show ?thesis by (simp add: formatSummary_def Let_def stored_summary_def)
qed

section \<open>A run of notifications\<close>

datatype notification = Alerting Alert | Warn Warning | Failing SystemError | Reporting Summary

definition log_one :: "sort_details \<Rightarrow> notification \<Rightarrow> SlackHandler \<Rightarrow> SlackHandler" where
  "log_one srt nt h = (case nt of Alerting a \<Rightarrow> LogAlert srt h a | Warn w \<Rightarrow> LogWarning h w
     | Failing e \<Rightarrow> LogSystemError h e | Reporting s \<Rightarrow> LogSummary h s)"

definition level_of :: "notification \<Rightarrow> int" where
  "level_of nt = (case nt of Alerting _ \<Rightarrow> LevelWarn | Warn _ \<Rightarrow> LevelWarn | Failing _ \<Rightarrow> LevelError | Reporting _ \<Rightarrow> LevelInfo)"

definition well_keyed :: "notification \<Rightarrow> bool" where
  "well_keyed nt = (case nt of Reporting s \<Rightarrow> distinct (map fst (OrganizationStats s)) | _ \<Rightarrow> True)"

definition add_notification :: "sort_details \<Rightarrow> notification \<Rightarrow> batch \<Rightarrow> batch" where
  "add_notification srt nt b = (case nt of
       Alerting a \<Rightarrow> b\<lparr>alerts := alerts b @ [stored_alert srt a]\<rparr>
     | Warn w \<Rightarrow> b\<lparr>warnings := warnings b @ [w]\<rparr>
     | Failing e \<Rightarrow> b\<lparr>sysErrors := sysErrors b @ [e]\<rparr>
     | Reporting s \<Rightarrow> b\<lparr>summaries := summaries b @ [stored_summary s]\<rparr>)"

lemma log_one_opts [simp]: "opts (log_one srt nt h) = opts h"
  by (simp add: log_one_def LogAlert_def LogWarning_def LogSystemError_def LogSummary_def Handle_def split: notification.split)

lemma Enabled_cong: "opts h = opts h' \<Longrightarrow> Enabled h l = Enabled h' l"
  by (simp add: Enabled_def)

lemmas level_defs = LevelInfo_def LevelWarn_def LevelError_def

lemma record_levels [simp]:
  "record_Level (alert_record srt a) = LevelWarn" "record_Level (warning_record w) = LevelWarn"
  "record_Level (syserr_record e) = LevelError" "record_Level (summary_record s) = LevelInfo"
  "record_Message (alert_record srt a) = runes ''tls_failure_alert''" "record_Message (warning_record w) = runes ''fetch_warning''"
  by (simp_all add: alert_record_def warning_record_def syserr_record_def summary_record_def Let_def)

lemma sort_logged:
  assumes "well_keyed nt"
  shows "each_attr (sort_record render) (buf (log_one srt nt h)) b =
    (case each_attr (sort_record render) (buf h) b of
       None \<Rightarrow> None | Some b' \<Rightarrow> Some (if Enabled h (level_of nt) then add_notification srt nt b' else b'))"
proof (cases nt)
  case (Alerting a)
  then show ?thesis
    by (simp add: log_one_def LogAlert_def Handle_def each_attr_append sort_record_def extractAlert_record add_notification_def level_of_def
        level_defs split: option.split)
next
  case (Warn w)
  then show ?thesis
    by (simp add: log_one_def LogWarning_def Handle_def each_attr_append sort_record_def extractWarning_record add_notification_def level_of_def
        level_defs split: option.split)
next
  case (Failing e)
  then show ?thesis
    by (simp add: log_one_def LogSystemError_def Handle_def each_attr_append sort_record_def extractSystemError_record add_notification_def
        level_of_def level_defs split: option.split)
next
  case (Reporting s)
  with assms show ?thesis
    by (simp add: log_one_def LogSummary_def Handle_def each_attr_append sort_record_def extractSummary_record add_notification_def level_of_def
        level_defs well_keyed_def split: option.split)
qed

lemma sort_logged_all:
  assumes "list_all well_keyed nts" "each_attr (sort_record render) (buf h) b0 = Some b"
  shows "each_attr (sort_record render) (buf (fold (log_one srt) nts h)) b0 =
    Some (fold (add_notification srt) (filter (\<lambda>nt. Enabled h (level_of nt)) nts) b)"
  using assms
proof (induction nts arbitrary: h b)
  case (Cons nt nts)
  have "Enabled (log_one srt nt h) = Enabled h" by (intro ext Enabled_cong) simp
  then show ?case using Cons by (simp add: sort_logged)
qed simp

definition notified :: "sort_details \<Rightarrow> notification list \<Rightarrow> gotext \<Rightarrow> slackMessage list" where
  "notified srt nts runID =
     (let as = concat (map (\<lambda>nt. case nt of Alerting a \<Rightarrow> [stored_alert srt a] | _ \<Rightarrow> []) nts) in
      (if as \<noteq> [] then [formatAlerts as runID] else []) @
      concat (map (\<lambda>nt. case nt of Warn w \<Rightarrow> [formatWarning w runID] | _ \<Rightarrow> []) nts) @
      concat (map (\<lambda>nt. case nt of Failing e \<Rightarrow> [formatSystemError e runID] | _ \<Rightarrow> []) nts) @
      concat (map (\<lambda>nt. case nt of Reporting s \<Rightarrow> [formatSummary s runID] | _ \<Rightarrow> []) nts))"

lemma formatBatch_notified:
  "fold (add_notification srt) nts b =
    \<lparr>alerts = alerts b @ concat (map (\<lambda>nt. case nt of Alerting a \<Rightarrow> [stored_alert srt a] | _ \<Rightarrow> []) nts),
     warnings = warnings b @ concat (map (\<lambda>nt. case nt of Warn w \<Rightarrow> [w] | _ \<Rightarrow> []) nts),
     sysErrors = sysErrors b @ concat (map (\<lambda>nt. case nt of Failing e \<Rightarrow> [e] | _ \<Rightarrow> []) nts),
     summaries = summaries b @ concat (map (\<lambda>nt. case nt of Reporting s \<Rightarrow> [stored_summary s] | _ \<Rightarrow> []) nts)\<rparr>"
  by (induction nts arbitrary: b) (simp_all add: add_notification_def split: notification.split)

lemma map_concat_case:
  "map f (concat (map (\<lambda>nt. case nt of Warn w \<Rightarrow> [w] | _ \<Rightarrow> []) nts)) = concat (map (\<lambda>nt. case nt of Warn w \<Rightarrow> [f w] | _ \<Rightarrow> []) nts)"
  "map g (concat (map (\<lambda>nt. case nt of Failing e \<Rightarrow> [e] | _ \<Rightarrow> []) nts)) = concat (map (\<lambda>nt. case nt of Failing e \<Rightarrow> [g e] | _ \<Rightarrow> []) nts)"
  "map k (concat (map (\<lambda>nt. case nt of Reporting s \<Rightarrow> [h s] | _ \<Rightarrow> []) nts)) = concat (map (\<lambda>nt. case nt of Reporting s \<Rightarrow> [k (h s)] | _ \<Rightarrow> []) nts)"
  by (induction nts) (simp_all split: notification.split)

lemma logged_formatted:
  assumes "list_all well_keyed nts" "buf h = []"
  shows "formatRecords render (buf (fold (log_one srt) nts h)) runID = Some (notified srt (filter (\<lambda>nt. Enabled h (level_of nt)) nts) runID)"
  using sort_logged_all [OF assms(1), of render h empty_batch empty_batch srt] assms(2)
  by (simp add: formatRecords_def formatBatch_def formatBatch_notified empty_batch_def notified_def Let_def map_concat_case formatSummary_stored)

text \<open>What a stored alert shows of its failure details.\<close>

definition shows_worst :: "notifyFailureDetail list \<Rightarrow> notifyFailureDetail list \<Rightarrow> bool" where
  "shows_worst shown all \<longleftrightarrow> length shown = min 10 (length all) \<and> sorted_wrt (\<lambda>x y. fd_FailedSessionCount y \<le> fd_FailedSessionCount x) shown
     \<and> (\<exists>rest. mset shown + mset rest = mset all \<and> (\<forall>x \<in> set shown. \<forall>y \<in> set rest. fd_FailedSessionCount y \<le> fd_FailedSessionCount x))"

lemma stored_details:
  assumes "sort_func srt"
  shows "shows_worst (alert_FailureDetails (stored_alert srt a)) (alert_FailureDetails a)"
proof -
  let ?ds = "srt compareDetails (alert_FailureDetails a)"
  note law = sort_func.ordered [OF assms compareDetails_order, of "alert_FailureDetails a"] sort_func.srt_length [OF assms compareDetails_order, of "alert_FailureDetails a"]
    sort_func.srt_split [OF assms compareDetails_order, of 10 "alert_FailureDetails a"] sort_func.srt_top [OF assms compareDetails_order, of _ 10 "alert_FailureDetails a"]
  have "sorted_wrt (\<lambda>x y. fd_FailedSessionCount y \<le> fd_FailedSessionCount x) (take 10 ?ds)"
    using law(1) unfolding compareDetails_le by (rule sorted_wrt_take)
  with law(2-4) show ?thesis
    unfolding shows_worst_def stored_alert_def compareDetails_le
    by (intro conjI exI [where x = "drop 10 ?ds"]) (auto simp: min.commute)
qed

text \<open>
  C28. What a handler sends is exactly what was logged to it: after any sequence of notifications, reading
  the buffered records back never panics and yields one message for all alerts its level admits,
  then one for each warning, each system error and each summary, in the order they were logged. Each
  alert keeps its fields and carries the count and the session total of all its failure details
  together with at most ten of them, in descending order of sessions, none of which has fewer sessions than one left out. All that is
  used of the library's sorting is that it sorts by the comparator it is given.
\<close>

theorem logged_messages:
  assumes "sort_func srt" "list_all well_keyed nts" "buf h = []"
  shows "formatRecords render (buf (fold (log_one srt) nts h)) runID = Some (notified srt (filter (\<lambda>nt. Enabled h (level_of nt)) nts) runID)
    \<and> shows_worst (alert_FailureDetails (stored_alert srt a)) (alert_FailureDetails a)
    \<and> FailureDetailsTotalCount (stored_alert srt a) = int (length (alert_FailureDetails a))
    \<and> FailureDetailsTotalSessions (stored_alert srt a) = sum64 0 (map fd_FailedSessionCount (alert_FailureDetails a))"
  using stored_details [OF assms(1), of a] by (simp add: logged_formatted [OF assms(2,3)] stored_alert_def)

definition sample_handler :: SlackHandler where
  "sample_handler = \<lparr>opts = \<lparr>WebhookURL = ''https://h/x'', AllowedHost = ''h'', RunID = runes ''r1'', opt_LevelMode = LevelModeWarnAndAbove,
     opt_IsDryRun = False, opt_BackoffConfig = DefaultBackoffConfig\<rparr>, buf = []\<rparr>"

definition sample_notifications :: "notification list" where
  "sample_notifications =
     [Failing \<lparr>syserr_Kind = SystemErrorKindLockHeld, syserr_Component = runes ''boot'', syserr_Mailbox = []\<rparr>,
      Reporting \<lparr>Period = zero_range, OrganizationStats = [], ReportCount = 0\<rparr>,
      Warn \<lparr>warning_Kind = WarningKindParseFailure, warning_UID = 7, warning_UIDValidity = 1, warning_MessageID = []\<rparr>]"

definition sample_alert :: Alert where
  "sample_alert = zero_alert\<lparr>alert_FailureDetails := map (\<lambda>k. zero_detail\<lparr>fd_FailedSessionCount := k\<rparr>) [3, 1, 4, 15, 9, 2, 6, 5, 35, 8, 97]\<rparr>"

theorem logged_messages_witness:
  "map fd_FailedSessionCount (alert_FailureDetails (stored_alert insertionSort sample_alert)) = [97, 35, 15, 9, 8, 6, 5, 4, 3, 2]
   \<and> shows_worst (alert_FailureDetails (stored_alert insertionSort sample_alert)) (alert_FailureDetails sample_alert)
   \<and> map_option (map Text) (formatRecords (\<lambda>_. []) (buf (fold (log_one insertionSort) sample_notifications sample_handler)) (runes ''r1''))
   = Some [emojiAlert @ runes '' Fetch Warning: '' @ runes ''parse_failure'', emojiError @ runes '' System Error: '' @ runes ''lock_held'']"
proof -
  have "list_all well_keyed sample_notifications" "buf sample_handler = []"
    by (simp_all add: sample_notifications_def sample_handler_def well_keyed_def)
  note all = logged_messages [OF insertion.sort_func_axioms this, of "\<lambda>_. []" "runes ''r1''" sample_alert]
  have "shows_worst (alert_FailureDetails (stored_alert insertionSort sample_alert)) (alert_FailureDetails sample_alert)" using all by blast
  moreover have "map_option (map Text) (formatRecords (\<lambda>_. []) (buf (fold (log_one insertionSort) sample_notifications sample_handler)) (runes ''r1''))
      = Some (map Text (notified insertionSort (filter (\<lambda>nt. Enabled sample_handler (level_of nt)) sample_notifications) (runes ''r1'')))"
    unfolding conjunct1 [OF all] by simp
  moreover have "map Text (notified insertionSort (filter (\<lambda>nt. Enabled sample_handler (level_of nt)) sample_notifications) (runes ''r1''))
      = [emojiAlert @ runes '' Fetch Warning: '' @ runes ''parse_failure'', emojiError @ runes '' System Error: '' @ runes ''lock_held'']"
    by (simp add: sample_notifications_def sample_handler_def Enabled_def level_of_def level_defs notified_def formatWarning_def
        formatSystemError_def WarningKindParseFailure_def SystemErrorKindLockHeld_def)
  moreover have "map fd_FailedSessionCount (alert_FailureDetails (stored_alert insertionSort sample_alert)) = [97, 35, 15, 9, 8, 6, 5, 4, 3, 2]" by code_simp
  ultimately show ?thesis by simp
qed

section \<open>Delivery\<close>

definition safe_backoff :: "BackoffConfig \<Rightarrow> bool" where
  "safe_backoff b \<longleftrightarrow> 0 \<le> Base b \<and> Base b < 2 ^ 33 \<and> 0 \<le> RetryCount b"

lemma send_all_spec:
  assumes "safe_backoff (cfg_backoff cfg)" "send_all cfg msgs n = (errs, n')"
  shows "\<exists>ps ws. posts n' = posts n @ ps \<and> set ps \<subseteq> (\<lambda>m. (cfg_webhookURL cfg, truncateMessage m)) ` set msgs
    \<and> sleeps n' = sleeps n @ ws \<and> sum_list ws \<le> int (length msgs) * maxCumulativeWait
    \<and> (errs = [] \<longrightarrow> (\<lambda>m. (cfg_webhookURL cfg, truncateMessage m)) ` set msgs \<subseteq> set ps)"
  using assms(2)
proof (induction msgs arbitrary: n errs n')
  case (Cons m msgs)
  obtain r n1 where p: "postWithRetry cfg (truncateMessage m) n = (r, n1)" by fastforce
  obtain errs2 where q: "send_all cfg msgs n1 = (errs2, n')" "errs = (case r of None \<Rightarrow> errs2 | Some e \<Rightarrow> e # errs2)"
    using Cons.prems p by (auto split: prod.splits)
  from postWithRetry_run [OF _ _ _ p] assms(1) obtain j ws where
    1: "posts n1 = posts n @ replicate j (cfg_webhookURL cfg, truncateMessage m)" "sleeps n1 = sleeps n @ ws"
      "sum_list ws \<le> maxCumulativeWait" "r = None \<longrightarrow> 0 < j"
    unfolding safe_backoff_def bounded_run_def waited_def by auto
  from Cons.IH [OF q(1)] obtain ps vs where
    2: "posts n' = posts n1 @ ps" "set ps \<subseteq> (\<lambda>m. (cfg_webhookURL cfg, truncateMessage m)) ` set msgs"
      "sleeps n' = sleeps n1 @ vs" "sum_list vs \<le> int (length msgs) * maxCumulativeWait"
      "errs2 = [] \<longrightarrow> (\<lambda>m. (cfg_webhookURL cfg, truncateMessage m)) ` set msgs \<subseteq> set ps" by blast
  show ?case
    by (intro exI [where x = "replicate j (cfg_webhookURL cfg, truncateMessage m) @ ps"] exI [where x = "ws @ vs"])
      (use 1 2 q(2) in \<open>auto simp: algebra_simps split: option.splits\<close>)
qed simp

definition due :: "sort_details \<Rightarrow> SlackHandler \<Rightarrow> notification list \<Rightarrow> slackMessage list" where
  "due srt h nts = notified srt (filter (\<lambda>nt. Enabled h (level_of nt)) nts) (RunID (opts h))"

lemma flush_logged:
  assumes "list_all well_keyed nts" "buf h = []" "safe_backoff (opt_BackoffConfig (opts h))"
  shows "\<exists>errs n'. Flush render (fold (log_one srt) nts h) n = Some (errs, n', h)
    \<and> (\<exists>ps ws. posts n' = posts n @ ps \<and> set ps \<subseteq> (\<lambda>m. (WebhookURL (opts h), truncateMessage m)) ` set (due srt h nts)
         \<and> sleeps n' = sleeps n @ ws \<and> sum_list ws \<le> int (length (due srt h nts)) * (14 * nanos_per_second)
         \<and> (errs = [] \<and> \<not> opt_IsDryRun (opts h) \<longrightarrow> (\<lambda>m. (WebhookURL (opts h), truncateMessage m)) ` set (due srt h nts) \<subseteq> set ps))
    \<and> (opt_IsDryRun (opts h) \<longrightarrow> errs = [] \<and> n' = n)"
proof -
  let ?msgs = "due srt h nts" and ?h = "fold (log_one srt) nts h" and ?c = "\<lparr>cfg_backoff = opt_BackoffConfig (opts h), cfg_webhookURL = WebhookURL (opts h)\<rparr>"
  have o: "opts ?h = opts h" by (induction nts arbitrary: h) simp_all
  have h: "?h\<lparr>buf := []\<rparr> = h" using o assms(2) by simp
  have f: "formatRecords render (buf ?h) (RunID (opts h)) = Some ?msgs"
    unfolding due_def by (rule logged_formatted [OF assms(1,2)])
  obtain errs n' where s: "send_all ?c ?msgs n = (errs, n')" by fastforce
  have wait: "maxCumulativeWait = 14 * nanos_per_second" by (simp add: maxCumulativeWait_def)
  consider "buf ?h = []" | "buf ?h \<noteq> []" "opt_IsDryRun (opts h)" | "buf ?h \<noteq> []" "\<not> opt_IsDryRun (opts h)" by blast
  then show ?thesis
  proof cases
    case 1
    then have "?msgs = []" using f by (simp add: formatRecords_def formatBatch_def empty_batch_def)
    with 1 h show ?thesis by (auto simp: Flush_def takeSnapshot_def)
  next
    case 2
    then show ?thesis using f h o by (auto simp: Flush_def takeSnapshot_def)
  next
    case 3
    then have "Flush render ?h n = Some (errs, n', h)" using f h o s by (simp add: Flush_def takeSnapshot_def send_def)
    with send_all_spec [OF _ s] assms(3) 3(2) show ?thesis by (auto simp: wait)
  qed
qed

text \<open>
  C29. Flushing sends everything that was logged: it never panics, empties the buffer, posts nothing but
  the truncated messages of the logged notifications and only to the handler's URL, has posted
  every one of them if it reports no error, and sleeps at most 14 seconds per message. A dry run posts
  nothing and reports no error. A post is recorded when the request is made, whatever the answer.
\<close>

theorem Flush_delivers:
  assumes "list_all well_keyed nts" "buf h = []" "safe_backoff (opt_BackoffConfig (opts h))"
  shows "\<exists>errs n'. Flush render (fold (log_one srt) nts h) n = Some (errs, n', h)
    \<and> (\<exists>ps ws. posts n' = posts n @ ps \<and> set ps \<subseteq> (\<lambda>m. (WebhookURL (opts h), truncateMessage m)) ` set (due srt h nts)
         \<and> sleeps n' = sleeps n @ ws \<and> sum_list ws \<le> int (length (due srt h nts)) * (14 * nanos_per_second)
         \<and> (errs = [] \<and> \<not> opt_IsDryRun (opts h) \<longrightarrow> (\<lambda>m. (WebhookURL (opts h), truncateMessage m)) ` set (due srt h nts) \<subseteq> set ps))
    \<and> (opt_IsDryRun (opts h) \<longrightarrow> errs = [] \<and> n' = n)"
  using flush_logged [OF assms] .

theorem Flush_delivers_witness:
  "\<exists>errs n'. Flush (\<lambda>_. []) (fold (log_one insertionSort) sample_notifications sample_handler)
       \<lparr>script = [RequestError, Reply 200 [], Reply 404 []], posts = [], sleeps = []\<rparr> = Some (errs, n', sample_handler)
     \<and> fst ` set (posts n') \<subseteq> {''https://h/x''}"
proof -
  have "list_all well_keyed sample_notifications" "buf sample_handler = []" "safe_backoff (opt_BackoffConfig (opts sample_handler))"
    by (simp_all add: sample_notifications_def sample_handler_def well_keyed_def safe_backoff_def DefaultBackoffConfig_def nanos_per_second_def)
  from Flush_delivers [OF this, of "\<lambda>_. []" insertionSort "\<lparr>script = [RequestError, Reply 200 [], Reply 404 []], posts = [], sleeps = []\<rparr>"]
  show ?thesis by (fastforce simp: sample_handler_def)
qed

section \<open>Which handlers there are\<close>

lemma all_or_error_Inr: "all_or_error rs = Inr hs \<longleftrightarrow> rs = map Inr hs"
proof
  show "all_or_error rs = Inr hs \<Longrightarrow> rs = map Inr hs"
    by (induction rs arbitrary: hs rule: all_or_error.induct) (auto split: sum.splits)
  have "all_or_error (map Inr hs) = Inr hs" by (induction hs) simp_all
  then show "rs = map Inr hs \<Longrightarrow> all_or_error rs = Inr hs" by simp
qed

lemma NewSlackHandler_Inr:
  assumes "NewSlackHandler urlParse ops = Inr h"
  shows "buf h = [] \<and> WebhookURL (opts h) = WebhookURL ops \<and> opt_LevelMode (opts h) = opt_LevelMode ops
    \<and> opt_IsDryRun (opts h) = opt_IsDryRun ops \<and> RunID (opts h) = RunID ops
    \<and> (WebhookURL ops \<noteq> [] \<or> \<not> opt_IsDryRun ops \<longrightarrow> validateWebhookURL urlParse (WebhookURL ops) (AllowedHost ops) = None)
    \<and> (opt_BackoffConfig ops = DefaultBackoffConfig \<longrightarrow> opt_BackoffConfig (opts h) = DefaultBackoffConfig)"
  using assms by (auto simp: NewSlackHandler_def split: option.splits if_splits)

lemma validateWebhookURL_None:
  "validateWebhookURL urlParse u host = None \<longleftrightarrow>
     u \<noteq> [] \<and> host \<noteq> [] \<and> (\<exists>p. urlParse u = Some p \<and> url_Scheme p = ''https'' \<and> url_Host p \<noteq> [] \<and> to_lower (url_Hostname p) = to_lower host)"
  by (auto simp: validateWebhookURL_def split: option.splits if_splits)

lemma Enabled_modes:
  "opt_LevelMode (opts h) = LevelModeExactInfo \<Longrightarrow> Enabled h l \<longleftrightarrow> l = LevelInfo"
  "opt_LevelMode (opts h) = LevelModeWarnAndAbove \<Longrightarrow> Enabled h l \<longleftrightarrow> LevelWarn \<le> l"
  by (simp_all add: Enabled_def)

text \<open>The handlers that construction can return: none, the error handler, or the success handler and the error handler.\<close>

lemma BuildHandlers_shape:
  assumes "BuildHandlers urlParse s e host ops = Inr hs"
  shows "hs = [] \<and> s = [] \<and> e = [] \<and> \<not> opt_IsDryRun ops
    \<or> (\<exists>he. NewSlackHandler urlParse (ops\<lparr>WebhookURL := (if e = [] then WebhookURL ops else e), opt_LevelMode := LevelModeWarnAndAbove\<rparr>) = Inr he
        \<and> (e = [] \<longrightarrow> s = [] \<and> opt_IsDryRun ops)
        \<and> (hs = [he] \<or> (\<exists>hi. hs = [hi, he] \<and>
              NewSlackHandler urlParse (ops\<lparr>WebhookURL := (if s = [] then WebhookURL ops else s), opt_LevelMode := LevelModeExactInfo\<rparr>) = Inr hi
              \<and> (s = [] \<longrightarrow> opt_IsDryRun ops))))"
  using assms
  by (auto simp: BuildHandlers_def ValidateEnvCombination_def all_or_error_Inr map_eq_Cons_conv Cons_eq_map_conv split: if_splits option.splits)

text \<open>
  C30. Handlers exist exactly if a webhook is configured or the run is dry; whenever there are any, each
  warning, alert and system error reaches exactly one of them and each summary at most one. A handler that
  can send has an HTTPS URL whose host is the allowed host up to letter case, so notifications go nowhere else.
\<close>

theorem BuildHandlers_safe:
  assumes "BuildHandlers urlParse s e host ops = Inr hs" "WebhookURL ops = []" "AllowedHost ops = host"
  shows "(hs = [] \<longleftrightarrow> s = [] \<and> e = [] \<and> \<not> opt_IsDryRun ops)
    \<and> (hs \<noteq> [] \<longrightarrow> length (filter (\<lambda>h. Enabled h LevelWarn) hs) = 1 \<and> length (filter (\<lambda>h. Enabled h LevelError) hs) = 1)
    \<and> length (filter (\<lambda>h. Enabled h LevelInfo) hs) \<le> 1
    \<and> list_all (\<lambda>h. buf h = [] \<and> (opt_IsDryRun (opts h) \<and> WebhookURL (opts h) = [] \<or>
         (\<exists>p. urlParse (WebhookURL (opts h)) = Some p \<and> url_Scheme p = ''https'' \<and> to_lower (url_Hostname p) = to_lower host))) hs"
proof -
  have ok: "buf h = [] \<and> opt_LevelMode (opts h) = m \<and> (opt_IsDryRun (opts h) \<and> WebhookURL (opts h) = [] \<or>
         (\<exists>p. urlParse (WebhookURL (opts h)) = Some p \<and> url_Scheme p = ''https'' \<and> to_lower (url_Hostname p) = to_lower host))"
    if "NewSlackHandler urlParse (ops\<lparr>WebhookURL := u, opt_LevelMode := m\<rparr>) = Inr h" for u m h
    using NewSlackHandler_Inr [OF that] assms(3) by (cases "u = [] \<and> opt_IsDryRun ops") (auto simp: validateWebhookURL_None)
  from BuildHandlers_shape [OF assms(1)] show ?thesis
  proof (elim disjE exE conjE, goal_cases)
    case 1
    then show ?case by simp
  next
    case (2 he)
    then show ?case using ok [OF 2(1)] by (auto simp: Enabled_modes level_defs)
  next
    case (3 he hi)
    then show ?case using ok [OF 3(1)] ok [OF 3(4)] by (auto simp: Enabled_modes level_defs)
  qed
qed

definition sample_parser :: "string \<Rightarrow> parsed_url option" where
  "sample_parser u = (if u = ''https://Hooks.example/x'' then Some \<lparr>url_Scheme = ''https'', url_Host = ''Hooks.example'', url_Hostname = ''Hooks.example''\<rparr> else None)"

theorem BuildHandlers_safe_witness:
  "\<exists>hs. BuildHandlers sample_parser [] ''https://Hooks.example/x'' ''hooks.example''
      ((opts sample_handler)\<lparr>WebhookURL := [], AllowedHost := ''hooks.example''\<rparr>) = Inr hs
    \<and> length (filter (\<lambda>h. Enabled h LevelError) hs) = 1"
proof -
  let ?o = "(opts sample_handler)\<lparr>WebhookURL := [], AllowedHost := ''hooks.example''\<rparr>"
  have "case BuildHandlers sample_parser [] ''https://Hooks.example/x'' ''hooks.example'' ?o of Inr hs \<Rightarrow> hs \<noteq> [] | Inl _ \<Rightarrow> False"
    by code_simp
  then obtain hs where hs: "BuildHandlers sample_parser [] ''https://Hooks.example/x'' ''hooks.example'' ?o = Inr hs" "hs \<noteq> []"
    by (auto split: sum.splits)
  from BuildHandlers_safe [OF hs(1)] hs show ?thesis by simp
qed

end
