(* ===== verification/Config.thy ===== *)
theory Config
  imports Go_Prelude
begin

text \<open>
  \<^verbatim>\<open>internal/config\<close>: decoding, defaults and validation of the configuration. Arguments of the definitions: the
  strict TOML decoder, the contents of readable files, whether a text holds a PEM certificate, and
  \<^verbatim>\<open>filepath.Abs\<close>. A nil pointer is \<open>None\<close>. The log entries of \<^verbatim>\<open>LoadFile\<close> are not modelled.
\<close>

section \<open>Types\<close>

record IMAPConfig =
  imap_Host :: string
  imap_Port :: int
  imap_Mailbox :: string
  imap_FetchDays :: int
  imap_TLSCACert :: string
  imap_MaxMessageBytes :: int
  imap_RetentionDays :: int

record NotifySlackConfig =
  slack_AllowedHost :: string

record NotifyConfig =
  notify_Slack :: NotifySlackConfig

record StoreConfig =
  store_RootDir :: string
  store_RetentionDays :: int
  store_MaxEmailAgeDays :: int

record SummaryConfig =
  summary_WindowDays :: int

record Config =
  cfg_IMAP :: IMAPConfig
  cfg_Notify :: NotifyConfig
  cfg_Store :: StoreConfig
  cfg_Summary :: SummaryConfig

record rawIMAPConfig =
  raw_Host :: "string option"
  raw_Port :: "int option"
  raw_Mailbox :: "string option"
  raw_FetchDays :: "int option"
  raw_TLSCACert :: "string option"
  raw_MaxMessageBytes :: "int option"
  raw_IMAPRetentionDays :: "int option"

record rawNotifySlackConfig =
  raw_AllowedHost :: "string option"

record rawNotifyConfig =
  raw_Slack :: rawNotifySlackConfig

record rawStoreConfig =
  raw_RootDir :: "string option"
  raw_RetentionDays :: "int option"
  raw_MaxEmailAgeDays :: "int option"

record rawSummaryConfig =
  raw_WindowDays :: "int option"

record rawConfig =
  raw_IMAP :: rawIMAPConfig
  raw_Notify :: rawNotifyConfig
  raw_Store :: rawStoreConfig
  raw_Summary :: rawSummaryConfig

datatype config_error =
    ErrConfigPathEmpty | ErrConfigFileRead | ErrConfigDecode | ErrStoreRootDirResolve
  | ErrInvalidIMAPHost | ErrInvalidIMAPPort int | ErrInvalidFetchDays int | ErrInvalidWindowDays int | ErrInvalidRetentionDays int
  | ErrInvalidMaxEmailAgeDays int | ErrInvalidAllowedHost | ErrTLSCACertNotReadable string | ErrTLSCACertNotPEM string
  | ErrInvalidMaxMessageBytes int | ErrInvalidIMAPRetentionDays int | ErrIMAPRetentionTooShort int

section \<open>Secrets\<close>

datatype Secret = Secret (secret_Value: string)

definition redactedSecret :: string where
  "redactedSecret = ''[REDACTED]''"

definition secret_String :: "Secret \<Rightarrow> string" where
  "secret_String s = redactedSecret"

definition secret_LogValue :: "Secret \<Rightarrow> string" where
  "secret_LogValue s = redactedSecret"

section \<open>Defaults\<close>

definition defaultIMAPMailbox :: string where
  "defaultIMAPMailbox = ''INBOX''"

definition defaultIMAPFetchDays :: int where
  "defaultIMAPFetchDays = 14"

definition defaultMaxMessageBytes :: int where
  "defaultMaxMessageBytes = 2 ^ 20"

definition defaultStoreRootDir :: string where
  "defaultStoreRootDir = ''./store''"

definition defaultSummaryWindowDays :: int where
  "defaultSummaryWindowDays = 7"

definition defaultStoreRetention :: int where
  "defaultStoreRetention = 30"

definition defaultMaxEmailAge :: int where
  "defaultMaxEmailAge = 30"

definition stringValue :: "string option \<Rightarrow> string" where
  "stringValue value = (case value of None \<Rightarrow> [] | Some s \<Rightarrow> s)"

definition stringDefault :: "string option \<Rightarrow> string \<Rightarrow> string" where
  "stringDefault value fallback = (case value of None \<Rightarrow> fallback | Some s \<Rightarrow> if s = [] then fallback else s)"

definition intValue :: "int option \<Rightarrow> int" where
  "intValue value = (case value of None \<Rightarrow> 0 | Some n \<Rightarrow> n)"

definition intDefault :: "int option \<Rightarrow> int \<Rightarrow> int" where
  "intDefault value fallback = (case value of None \<Rightarrow> fallback | Some n \<Rightarrow> n)"

definition int64Default :: "int option \<Rightarrow> int \<Rightarrow> int" where
  "int64Default value fallback = (case value of None \<Rightarrow> fallback | Some n \<Rightarrow> n)"

definition applyDefaults :: "rawConfig \<Rightarrow> Config" where
  "applyDefaults raw =
     \<lparr>cfg_IMAP = \<lparr>
        imap_Host = stringValue (raw_Host (raw_IMAP raw)),
        imap_Port = intValue (raw_Port (raw_IMAP raw)),
        imap_Mailbox = stringDefault (raw_Mailbox (raw_IMAP raw)) defaultIMAPMailbox,
        imap_FetchDays = intDefault (raw_FetchDays (raw_IMAP raw)) defaultIMAPFetchDays,
        imap_TLSCACert = stringValue (raw_TLSCACert (raw_IMAP raw)),
        imap_MaxMessageBytes = int64Default (raw_MaxMessageBytes (raw_IMAP raw)) defaultMaxMessageBytes,
        imap_RetentionDays = intDefault (raw_IMAPRetentionDays (raw_IMAP raw)) 0\<rparr>,
      cfg_Notify = \<lparr>notify_Slack = \<lparr>slack_AllowedHost = stringValue (raw_AllowedHost (raw_Slack (raw_Notify raw)))\<rparr>\<rparr>,
      cfg_Store = \<lparr>
        store_RootDir = stringDefault (raw_RootDir (raw_Store raw)) defaultStoreRootDir,
        store_RetentionDays = intDefault (raw_RetentionDays (raw_Store raw)) defaultStoreRetention,
        store_MaxEmailAgeDays = intDefault (raw_MaxEmailAgeDays (raw_Store raw)) defaultMaxEmailAge\<rparr>,
      cfg_Summary = \<lparr>summary_WindowDays = intDefault (raw_WindowDays (raw_Summary raw)) defaultSummaryWindowDays\<rparr>\<rparr>"

section \<open>Validation\<close>

text \<open>
  The hostname pattern: labels \<^verbatim>\<open>[a-zA-Z0-9]([a-zA-Z0-9\-]{0,61}[a-zA-Z0-9])?\<close> separated by dots. No character of
  a label is a dot, so the text matches if and only if each of its parts between dots does.
\<close>

definition alnum :: "char \<Rightarrow> bool" where
  "alnum c \<longleftrightarrow> is_digit c \<or> CHR ''A'' \<le> c \<and> c \<le> CHR ''Z'' \<or> CHR ''a'' \<le> c \<and> c \<le> CHR ''z''"

definition re_label :: "string \<Rightarrow> bool" where
  "re_label l = (case l of
       [] \<Rightarrow> False
     | c # rest \<Rightarrow> alnum c \<and> (rest = [] \<or>
         length (butlast rest) \<le> 61 \<and> list_all (\<lambda>d. alnum d \<or> d = CHR ''-'') (butlast rest) \<and> alnum (last rest)))"

fun split_dots :: "string \<Rightarrow> string list" where
  "split_dots [] = [[]]"
| "split_dots (c # s) = (if c = CHR ''.'' then [] # split_dots s else (c # hd (split_dots s)) # tl (split_dots s))"

definition reValidHostname :: "string \<Rightarrow> bool" where
  "reValidHostname s = list_all re_label (split_dots s)"

definition validateTLSCACert :: "(string \<Rightarrow> string option) \<Rightarrow> (string \<Rightarrow> bool) \<Rightarrow> string \<Rightarrow> config_error option" where
  "validateTLSCACert readFile appendCertsFromPEM path =
     (if path = [] then None
      else case readFile path of
        None \<Rightarrow> Some (ErrTLSCACertNotReadable path)
      | Some data \<Rightarrow> if \<not> appendCertsFromPEM data then Some (ErrTLSCACertNotPEM path) else None)"

definition validateAllowedHost :: "string \<Rightarrow> config_error option" where
  "validateAllowedHost host = (if host = [] then None else if \<not> reValidHostname host then Some ErrInvalidAllowedHost else None)"

definition validate :: "(string \<Rightarrow> string option) \<Rightarrow> (string \<Rightarrow> bool) \<Rightarrow> Config \<Rightarrow> config_error option" where
  "validate readFile appendCertsFromPEM cfg =
     (let im = cfg_IMAP cfg; st = cfg_Store cfg; wd = summary_WindowDays (cfg_Summary cfg) in
      if imap_Host im = [] then Some ErrInvalidIMAPHost
      else if imap_Port im < 1 \<or> imap_Port im > 65535 then Some (ErrInvalidIMAPPort (imap_Port im))
      else if imap_FetchDays im < 1 then Some (ErrInvalidFetchDays (imap_FetchDays im))
      else if wd < 1 then Some (ErrInvalidWindowDays wd)
      else if store_RetentionDays st < 1 then Some (ErrInvalidRetentionDays (store_RetentionDays st))
      else if store_MaxEmailAgeDays st < 1 then Some (ErrInvalidMaxEmailAgeDays (store_MaxEmailAgeDays st))
      else if imap_MaxMessageBytes im < 0 then Some (ErrInvalidMaxMessageBytes (imap_MaxMessageBytes im))
      else if imap_RetentionDays im < 0 then Some (ErrInvalidIMAPRetentionDays (imap_RetentionDays im))
      else if imap_RetentionDays im > 0 \<and> imap_RetentionDays im < max (imap_FetchDays im) wd
        then Some (ErrIMAPRetentionTooShort (imap_RetentionDays im))
      else case validateTLSCACert readFile appendCertsFromPEM (imap_TLSCACert im) of
        Some err \<Rightarrow> Some err
      | None \<Rightarrow> validateAllowedHost (slack_AllowedHost (notify_Slack (cfg_Notify cfg))))"

definition Load :: "(string \<Rightarrow> rawConfig option) \<Rightarrow> (string \<Rightarrow> string option) \<Rightarrow> (string \<Rightarrow> bool) \<Rightarrow> string \<Rightarrow> config_error + Config" where
  "Load decode readFile appendCertsFromPEM data =
     (case decode data of
        None \<Rightarrow> Inl ErrConfigDecode
      | Some raw \<Rightarrow>
          let cfg = applyDefaults raw in
          case validate readFile appendCertsFromPEM cfg of Some err \<Rightarrow> Inl err | None \<Rightarrow> Inr cfg)"

definition LoadFile ::
    "(string \<Rightarrow> rawConfig option) \<Rightarrow> (string \<Rightarrow> string option) \<Rightarrow> (string \<Rightarrow> bool) \<Rightarrow> (string \<Rightarrow> string option) \<Rightarrow> string
      \<Rightarrow> config_error + Config" where
  "LoadFile decode readFile appendCertsFromPEM absPath path =
     (if path = [] then Inl ErrConfigPathEmpty
      else case readFile path of
        None \<Rightarrow> Inl ErrConfigFileRead
      | Some data \<Rightarrow> (case Load decode readFile appendCertsFromPEM data of
            Inl err \<Rightarrow> Inl err
          | Inr cfg \<Rightarrow> (case absPath (store_RootDir (cfg_Store cfg)) of
                None \<Rightarrow> Inl ErrStoreRootDirResolve
              | Some abs' \<Rightarrow> Inr (cfg\<lparr>cfg_Store := (cfg_Store cfg)\<lparr>store_RootDir := abs'\<rparr>\<rparr>))))"

section \<open>Hostnames\<close>

text \<open>Labels of RFC 1123: 1 to 63 letters, digits and hyphens, no hyphen at either end.\<close>

definition rfc1123_label :: "string \<Rightarrow> bool" where
  "rfc1123_label l \<longleftrightarrow> 1 \<le> length l \<and> length l \<le> 63 \<and> list_all (\<lambda>c. alnum c \<or> c = CHR ''-'') l
     \<and> hd l \<noteq> CHR ''-'' \<and> last l \<noteq> CHR ''-''"

fun join_dots :: "string list \<Rightarrow> string" where
  "join_dots [] = []"
| "join_dots [l] = l"
| "join_dots (l # ls) = l @ ''.'' @ join_dots ls"

lemma re_label_rfc1123: "re_label l \<longleftrightarrow> rfc1123_label l"
proof (cases l)
  case (Cons c rest)
  have "\<not> alnum CHR ''-''" by (simp add: alnum_def is_digit_def less_eq_char_def)
  then show ?thesis
    unfolding Cons by (cases rest rule: rev_cases) (auto simp: re_label_def rfc1123_label_def)
qed (simp add: re_label_def rfc1123_label_def)

lemma split_dots_nonempty [simp]: "split_dots s \<noteq> []"
  by (cases s) auto

lemma join_split: "join_dots (split_dots s) = s"
proof (induction s)
  case (Cons c s)
  then show ?case by (cases "split_dots s"; cases "tl (split_dots s)") auto
qed simp

lemma split_label: "CHR ''.'' \<notin> set l \<Longrightarrow> split_dots l = [l]"
  by (induction l) auto

lemma split_append: "CHR ''.'' \<notin> set l \<Longrightarrow> split_dots (l @ CHR ''.'' # s) = l # split_dots s"
  by (induction l) auto

lemma split_join: "ls \<noteq> [] \<Longrightarrow> list_all (\<lambda>l. CHR ''.'' \<notin> set l) ls \<Longrightarrow> split_dots (join_dots ls) = ls"
  by (induction ls rule: join_dots.induct) (auto simp: split_label split_append)

lemma label_no_dot: "rfc1123_label l \<Longrightarrow> CHR ''.'' \<notin> set l"
  by (auto simp: rfc1123_label_def list_all_iff alnum_def is_digit_def less_eq_char_def)

text \<open>
  C36. The hostname pattern accepts exactly the RFC 1123 hostnames: one or more labels joined by dots, each of 1 to 63
  letters, digits and hyphens that neither starts nor ends with a hyphen. In particular no scheme, port, path or
  white space passes, and an accepted allowed host is empty or such a name.
\<close>

theorem reValidHostname_rfc1123:
  "(reValidHostname s \<longleftrightarrow> (\<exists>ls. ls \<noteq> [] \<and> list_all rfc1123_label ls \<and> s = join_dots ls))
   \<and> (validateAllowedHost s = None \<longleftrightarrow> s = [] \<or> reValidHostname s)"
proof
  have "split_dots (join_dots ls) = ls" if "ls \<noteq> []" "list_all rfc1123_label ls" for ls
    using that label_no_dot by (intro split_join) (auto simp: list_all_iff)
  then show "reValidHostname s \<longleftrightarrow> (\<exists>ls. ls \<noteq> [] \<and> list_all rfc1123_label ls \<and> s = join_dots ls)"
    unfolding reValidHostname_def ext [of re_label rfc1123_label, OF re_label_rfc1123]
    by (metis split_dots_nonempty join_split)
qed (simp add: validateAllowedHost_def)

section \<open>Accepted configurations\<close>

definition valid_config :: "(string \<Rightarrow> string option) \<Rightarrow> (string \<Rightarrow> bool) \<Rightarrow> Config \<Rightarrow> bool" where
  "valid_config readFile isPEM cfg \<longleftrightarrow>
     imap_Host (cfg_IMAP cfg) \<noteq> [] \<and> imap_Port (cfg_IMAP cfg) \<in> {1..65535}
     \<and> 1 \<le> imap_FetchDays (cfg_IMAP cfg) \<and> 1 \<le> summary_WindowDays (cfg_Summary cfg)
     \<and> 1 \<le> store_RetentionDays (cfg_Store cfg) \<and> 1 \<le> store_MaxEmailAgeDays (cfg_Store cfg)
     \<and> 0 \<le> imap_MaxMessageBytes (cfg_IMAP cfg)
     \<and> (imap_RetentionDays (cfg_IMAP cfg) = 0 \<or>
        imap_FetchDays (cfg_IMAP cfg) \<le> imap_RetentionDays (cfg_IMAP cfg) \<and> summary_WindowDays (cfg_Summary cfg) \<le> imap_RetentionDays (cfg_IMAP cfg))
     \<and> (imap_TLSCACert (cfg_IMAP cfg) = [] \<or> (\<exists>pem. readFile (imap_TLSCACert (cfg_IMAP cfg)) = Some pem \<and> isPEM pem))
     \<and> (slack_AllowedHost (notify_Slack (cfg_Notify cfg)) = [] \<or> reValidHostname (slack_AllowedHost (notify_Slack (cfg_Notify cfg))))"

lemma validate_None: "validate readFile isPEM cfg = None \<longleftrightarrow> valid_config readFile isPEM cfg"
  unfolding validate_def valid_config_def Let_def validateTLSCACert_def validateAllowedHost_def
  by (auto split: option.splits if_splits)

definition minimal_raw :: "string \<Rightarrow> int \<Rightarrow> rawConfig" where
  "minimal_raw host port =
     \<lparr>raw_IMAP = \<lparr>raw_Host = Some host, raw_Port = Some port, raw_Mailbox = None, raw_FetchDays = None, raw_TLSCACert = None,
        raw_MaxMessageBytes = None, raw_IMAPRetentionDays = None\<rparr>,
      raw_Notify = \<lparr>raw_Slack = \<lparr>raw_AllowedHost = None\<rparr>\<rparr>,
      raw_Store = \<lparr>raw_RootDir = None, raw_RetentionDays = None, raw_MaxEmailAgeDays = None\<rparr>,
      raw_Summary = \<lparr>raw_WindowDays = None\<rparr>\<rparr>"

text \<open>
  C35. A configuration is accepted if and only if it decodes and, with the defaults filled in, satisfies every documented
  constraint: host present, port from 1 to 65535, all periods at least a day, no negative size limit, mail kept on the
  server either for ever or at least as long as both the fetch and the summary window, a readable PEM file where
  one is named, and a hostname where an allowed host is. A host and a valid port alone suffice.
\<close>

theorem Load_accepts:
  "(Load decode readFile isPEM data = Inr cfg \<longleftrightarrow>
      (\<exists>raw. decode data = Some raw \<and> cfg = applyDefaults raw \<and> valid_config readFile isPEM (applyDefaults raw)))
   \<and> (valid_config readFile isPEM (applyDefaults (minimal_raw host port)) \<longleftrightarrow> host \<noteq> [] \<and> 1 \<le> port \<and> port \<le> 65535)"
proof
  show "Load decode readFile isPEM data = Inr cfg \<longleftrightarrow>
      (\<exists>raw. decode data = Some raw \<and> cfg = applyDefaults raw \<and> valid_config readFile isPEM (applyDefaults raw))"
    by (auto simp: Load_def Let_def simp flip: validate_None split: option.splits)
  show "valid_config readFile isPEM (applyDefaults (minimal_raw host port)) \<longleftrightarrow> host \<noteq> [] \<and> 1 \<le> port \<and> port \<le> 65535"
    by (simp add: valid_config_def applyDefaults_def minimal_raw_def stringValue_def intValue_def intDefault_def int64Default_def
        defaultIMAPFetchDays_def defaultMaxMessageBytes_def defaultSummaryWindowDays_def defaultStoreRetention_def defaultMaxEmailAge_def)
qed

end
