(* ===== verification/Cmd_Duration.thy ===== *)
theory Cmd_Duration
  imports Go_Time
begin

text \<open>
  \<^verbatim>\<open>cmd/tlsrpt-digest/duration.go\<close>: durations of whole days on the command line and the cutoff they give.
  \<^verbatim>\<open>time.Date\<close> computes the seconds of a time in 64 bits, which wrap around.
\<close>

datatype duration_error =
    errDurationEmpty
  | errDurationUnsupportedUnit char
  | errDurationParse string
  | errDurationNonPositive string
  | errDurationOverflow string

record Duration =
  Days :: int

definition maxInt :: int where
  "maxInt = 2 ^ 63 - 1"

definition ParseDuration :: "string \<Rightarrow> duration_error + Duration" where
  "ParseDuration s =
     (if s = [] then Inl errDurationEmpty
      else let unit' = last s in
        if unit' \<noteq> CHR ''d'' \<and> unit' \<noteq> CHR ''w'' then Inl (errDurationUnsupportedUnit unit')
        else case atoi (butlast s) of
          None \<Rightarrow> Inl (errDurationParse s)
        | Some value \<Rightarrow>
            if value \<le> 0 then Inl (errDurationNonPositive s)
            else if unit' = CHR ''w'' then
              if maxInt div 7 < value then Inl (errDurationOverflow s) else Inr \<lparr>Days = wrap64 (value * 7)\<rparr>
            else Inr \<lparr>Days = value\<rparr>)"

text \<open>\<^verbatim>\<open>time.Date\<close> at midnight UTC, and \<^verbatim>\<open>Time.AddDate(0, 0, n)\<close> in UTC.\<close>

definition date_UTC :: "int \<Rightarrow> nat \<Rightarrow> int \<Rightarrow> gotime" where
  "date_UTC y m d = wrap64 (86400 * (days_before_year y + days_before_month y m + (d - 1))) * nanos_per_second"

definition addDays :: "gotime \<Rightarrow> int \<Rightarrow> gotime" where
  "addDays t n = (let (y, m, d) = civil_of_day (day_number t) in date_UTC y m (d + n) + t mod nanos_per_day)"

definition UTCDayStart :: "gotime \<Rightarrow> gotime" where
  "UTCDayStart now = (let (y, m, d) = civil_of_day (day_number now) in date_UTC y m d)"

definition Cutoff :: "Duration \<Rightarrow> gotime \<Rightarrow> gotime" where
  "Cutoff d now = addDays (UTCDayStart now) (- Days d)"

text \<open>The flag: a nil pointer is \<open>None\<close>.\<close>

definition durationFlag_String :: "Duration option \<Rightarrow> string" where
  "durationFlag_String ptr = (case ptr of None \<Rightarrow> [] | Some d \<Rightarrow> dec_int (Days d) @ ''d'')"

definition durationFlag_Set :: "string \<Rightarrow> Duration option \<Rightarrow> duration_error option \<times> Duration option" where
  "durationFlag_Set s ptr = (case ParseDuration s of Inl err \<Rightarrow> (Some err, ptr) | Inr d \<Rightarrow> (None, Some d))"

section \<open>Parsing\<close>

lemma maxInt_week: "0 < v \<Longrightarrow> v \<le> maxInt div 7 \<Longrightarrow> wrap64 (v * 7) = v * 7 \<and> v * 7 \<le> maxInt"
  by (simp add: maxInt_def wrap64_def)

lemma atoi_range: "atoi s = Some v \<Longrightarrow> v \<le> maxInt"
  by (auto simp: atoi_def Let_def int64_range_def maxInt_def split: prod.splits if_splits)

lemma ParseDuration_Inr:
  "ParseDuration s = Inr d \<longleftrightarrow> (\<exists>ds v. 0 < v \<and> atoi ds = Some v \<and>
      (s = ds @ ''d'' \<and> Days d = v \<or> s = ds @ ''w'' \<and> Days d = 7 * v \<and> 7 * v \<le> maxInt))"
proof (cases s rule: rev_cases)
  case Nil
  then show ?thesis by (simp add: ParseDuration_def)
next
  case (snoc ds u)
  have "maxInt div 7 < v \<longleftrightarrow> maxInt < 7 * v" for v by (simp add: maxInt_def)
  then show ?thesis
    unfolding snoc ParseDuration_def Let_def using maxInt_week
    by (cases d) (auto split: option.splits simp: not_less)
qed

lemma ParseDuration_range: "ParseDuration s = Inr d \<Longrightarrow> 1 \<le> Days d \<and> Days d \<le> maxInt"
  using atoi_range by (fastforce simp: ParseDuration_Inr)

lemma durationFlag_reread:
  assumes "1 \<le> Days d" "Days d \<le> maxInt"
  shows "durationFlag_Set (durationFlag_String (Some d)) ptr = (None, Some d)"
proof -
  have "atoi (dec_int (Days d)) = Some (Days d)"
    using assms atoi_dec_string [of "nat (Days d)"] by (simp add: dec_int_def maxInt_def)
  with assms show ?thesis
    by (simp add: durationFlag_Set_def durationFlag_String_def ParseDuration_def Let_def)
qed

text \<open>
  C37. A duration that is accepted is a number of days or weeks: the argument is an integer followed by the unit,
  the result is that many days, or seven times as many, without overflow, and it is at least one day.
  What a flag prints is read back as the same duration, so every duration of 1 to \<open>2\<^sup>6\<^sup>3 - 1\<close> days can be written.
\<close>

theorem ParseDuration_correct:
  "(ParseDuration s = Inr d \<longleftrightarrow> (\<exists>ds v. 0 < v \<and> atoi ds = Some v \<and>
      (s = ds @ ''d'' \<and> Days d = v \<or> s = ds @ ''w'' \<and> Days d = 7 * v \<and> 7 * v \<le> maxInt)))
   \<and> (1 \<le> Days d \<and> Days d \<le> maxInt \<longrightarrow> durationFlag_Set (durationFlag_String (Some d)) ptr = (None, Some d))"
  using ParseDuration_Inr durationFlag_reread by blast

theorem ParseDuration_correct_witness:
  "ParseDuration ''2w'' = Inr \<lparr>Days = 14\<rparr> \<and> durationFlag_Set (durationFlag_String (Some \<lparr>Days = 14\<rparr>)) None = (None, Some \<lparr>Days = 14\<rparr>)"
proof -
  have "atoi ''2'' = Some 2" by code_simp
  then show ?thesis
    using ParseDuration_correct [of "''2w''" "\<lparr>Days = 14\<rparr>" None] by (auto simp: maxInt_def)
qed

section \<open>Cutoffs\<close>

lemma date_of_civil:
  assumes "civil_of_day n = (y, m, d)"
  shows "date_UTC y m (d + k) = wrap64 (86400 * (n + k)) * nanos_per_second"
proof -
  have "days_before_year y + days_before_month y m + (d + k - 1) = n + k" using civil_of_day_spec [OF assms] by linarith
  then show ?thesis by (simp only: date_UTC_def)
qed

lemma UTCDayStart_eq: "int64_range (86400 * day_number now) \<Longrightarrow> UTCDayStart now = day_number now * nanos_per_day"
  using date_of_civil [of "day_number now" _ _ _ 0]
  by (simp add: UTCDayStart_def nanos_per_day_def split: prod.split)

lemma Cutoff_eq:
  assumes "int64_range (86400 * day_number now)"
  shows "Cutoff d now = wrap64 (86400 * (day_number now - Days d)) * nanos_per_second"
  using date_of_civil [of "day_number now" _ _ _ "- Days d"] UTCDayStart_eq [OF assms]
  by (auto simp: Cutoff_def addDays_def split: prod.split)

text \<open>
  C38. As long as the day of the cutoff can be represented, the cutoff of a duration is midnight UTC exactly
  that many days before the day of the current time; it is not after the current time, and one more day
  moves it back by exactly one day.
\<close>

theorem Cutoff_correct:
  assumes "int64_range (86400 * day_number now)" "0 \<le> Days d" "int64_range (86400 * (day_number now - Days d))"
  shows "Cutoff d now = (day_number now - Days d) * nanos_per_day
    \<and> day_number (Cutoff d now) = day_number now - Days d \<and> Cutoff d now \<le> now
    \<and> (int64_range (86400 * (day_number now - (Days d + 1))) \<longrightarrow> Cutoff \<lparr>Days = Days d + 1\<rparr> now = Cutoff d now - nanos_per_day)"
proof -
  have c: "Cutoff d now = (day_number now - Days d) * nanos_per_day"
    using assms by (simp add: Cutoff_eq nanos_per_day_def)
  have "(day_number now - Days d) * nanos_per_day \<le> day_number now * nanos_per_day"
    using assms(2) by (intro mult_right_mono) (simp_all add: less_imp_le)
  with day_start_bounds(1) [of now] have "Cutoff d now \<le> now" unfolding c by linarith
  moreover have "Cutoff \<lparr>Days = Days d + 1\<rparr> now = Cutoff d now - nanos_per_day" if "int64_range (86400 * (day_number now - (Days d + 1)))"
    using that assms(1) by (simp add: Cutoff_eq c nanos_per_day_def algebra_simps)
  ultimately show ?thesis using c by simp
qed

definition sample_now :: gotime where
  "sample_now = 739053 * nanos_per_day + 5"

theorem Cutoff_correct_witness: "Cutoff \<lparr>Days = 14\<rparr> sample_now = 739039 * nanos_per_day"
proof -
  have "day_number sample_now = 739053" by (simp add: sample_now_def day_number_def nanos_per_day_def nanos_per_second_def)
  then show ?thesis using Cutoff_correct [of sample_now "\<lparr>Days = 14\<rparr>"] by (simp add: int64_range_def)
qed

text \<open>
  A duration that is accepted can overflow the cutoff: \<^verbatim>\<open>213503982334602d\<close>, some 584 billion years, gives a
  cutoff less than a day before the current day, where the true date lies far in the past.
\<close>

theorem Cutoff_overflow:
  "ParseDuration ''213503982334602d'' = Inr \<lparr>Days = 213503982334602\<rparr>
   \<and> Cutoff \<lparr>Days = 213503982334602\<rparr> sample_now = 739053 * nanos_per_day - 61184 * nanos_per_second"
proof
  have "atoi ''213503982334602'' = Some 213503982334602"
    by (simp add: atoi_def digits_val_def is_digit_def digit_val_def int64_range_def)
  then show "ParseDuration ''213503982334602d'' = Inr \<lparr>Days = 213503982334602\<rparr>" by (simp add: ParseDuration_def)
  have "day_number sample_now = 739053" by (simp add: sample_now_def day_number_def nanos_per_day_def nanos_per_second_def)
  then show "Cutoff \<lparr>Days = 213503982334602\<rparr> sample_now = 739053 * nanos_per_day - 61184 * nanos_per_second"
    by (simp add: Cutoff_eq int64_range_def wrap64_def nanos_per_day_def nanos_per_second_def)
qed

end
