(* ===== verification/Imap_Client.thy ===== *)
theory Imap_Client
  imports Go_Error Cmd_Duration
begin

text \<open>
  \<^verbatim>\<open>internal/imap/imap.go\<close> and \<^verbatim>\<open>client.go\<close>: the mail client over a session of the go-imap library. The library
  and the server behind it are an argument, a record that answers each command from the whole
  history of commands, so that a theorem about every server covers every sequence of answers. The commands
  sent are recorded in the client's state. Dates are truncated in UTC. The goroutine that feeds the channel
  of fetched messages is its list of messages with the error that ends it.
\<close>

section \<open>Sessions\<close>

datatype imap_cmd =
    Login string string | Logout | CloseMailbox | Select string bool
  | UidSearch "gotime option" "gotime option" | UidFetch "u32 list" bool | UidStore "u32 list" string
  | Capability | UidExpunge "u32 list"

record MailboxStatus =
  UidValidity :: u32
  ReadOnly :: bool

text \<open>A body is its bytes and whether reading them ends in an error; a nil message or literal is \<open>None\<close>.\<close>

type_synonym literal = "string \<times> bool"

record imap_message =
  msg_Uid :: u32
  msg_Size :: u32
  msg_InternalDate :: gotime
  msg_Envelope :: "gotext option"
  msg_Flags :: "string list"
  msg_GetBody :: "literal option"
  msg_Body :: "literal option list"

record imap_server =
  on_Login :: "imap_cmd list \<Rightarrow> string option"
  on_Logout :: "imap_cmd list \<Rightarrow> string option"
  on_Close :: "imap_cmd list \<Rightarrow> string option"
  on_Select :: "imap_cmd list \<Rightarrow> string + MailboxStatus"
  on_Search :: "imap_cmd list \<Rightarrow> string + u32 list"
  on_Fetch :: "imap_cmd list \<Rightarrow> imap_message option list \<times> string option"
  on_Store :: "imap_cmd list \<Rightarrow> string option"
  on_Support :: "imap_cmd list \<Rightarrow> string + bool"
  on_Expunge :: "imap_cmd list \<Rightarrow> string option"

record imapConfig =
  conf_Host :: string
  conf_Port :: int
  conf_Username :: string
  conf_Password :: string
  conf_Mailbox :: string
  conf_TLSCACert :: string
  conf_MaxMessageBytes :: int
  conf_InsecureSkipVerify :: bool

record imapClient =
  conf :: imapConfig
  lastSelectReadOnly :: bool
  trace :: "imap_cmd list"

type_synonym 'a imap_op = "imapClient \<Rightarrow> (go_error + 'a) \<times> imapClient"

definition retI :: "'a \<Rightarrow> 'a imap_op" where
  "retI a c = (Inr a, c)"

definition failI :: "go_error \<Rightarrow> 'a imap_op" where
  "failI e c = (Inl e, c)"

definition bindI :: "'a imap_op \<Rightarrow> ('a \<Rightarrow> 'b imap_op) \<Rightarrow> 'b imap_op" where
  "bindI m f c = (case m c of (Inl e, c') \<Rightarrow> (Inl e, c') | (Inr a, c') \<Rightarrow> f a c')"

definition wrapI :: "string \<Rightarrow> 'a imap_op \<Rightarrow> 'a imap_op" where
  "wrapI s m c = (case m c of (Inl e, c') \<Rightarrow> (Inl (Wrap s e), c') | (Inr a, c') \<Rightarrow> (Inr a, c'))"

text \<open>Sending a command and reading the answer.\<close>

definition ask :: "imap_cmd \<Rightarrow> (imap_cmd list \<Rightarrow> string + 'a) \<Rightarrow> 'a imap_op" where
  "ask cmd answer c = (let h = trace c @ [cmd] in
     (case answer h of Inl t \<Rightarrow> Inl (ErrIMAP t) | Inr a \<Rightarrow> Inr a, c\<lparr>trace := h\<rparr>))"

definition tell :: "imap_cmd \<Rightarrow> (imap_cmd list \<Rightarrow> string option) \<Rightarrow> unit imap_op" where
  "tell cmd answer = ask cmd (\<lambda>h. case answer h of None \<Rightarrow> Inr () | Some t \<Rightarrow> Inl t)"

section \<open>Connecting\<close>

record MessageMeta =
  mm_UID :: u32
  mm_Size :: u32
  mm_Date :: gotime
  mm_Seen :: bool
  mm_MessageID :: gotext

record FetchMetaResult =
  Messages :: "MessageMeta list"
  res_UIDValidity :: u32

record tlsConfig =
  tls_MinVersion :: nat
  tls_InsecureSkipVerify :: bool
  tls_RootCAs :: "string option"

text \<open>
  The text of an error of the client, and the verb \<^verbatim>\<open>%q\<close> on printable text. \<^verbatim>\<open>os.ReadFile\<close>, the certificate pool
  and \<^verbatim>\<open>dialTLS\<close> are arguments; they report errors by their text.
\<close>

fun error_text :: "go_error \<Rightarrow> string" where
  "error_text (Wrap s e) = s @ '': '' @ error_text e"
| "error_text (ErrIMAP t) = t"
| "error_text _ = []"

definition go_quote :: "string \<Rightarrow> string" where
  "go_quote s = [CHR 0x22] @ concat (map (\<lambda>c. if c = CHR 0x22 \<or> c = CHR 0x5C then [CHR 0x5C, c] else [c]) s) @ [CHR 0x22]"

definition buildTLSConfig :: "(string \<Rightarrow> string + string) \<Rightarrow> (string \<Rightarrow> bool) \<Rightarrow> imapConfig \<Rightarrow> go_error + tlsConfig" where
  "buildTLSConfig osReadFile appendCertsFromPEM cfg =
     (let tlsConfig = \<lparr>tls_MinVersion = 0x0303, tls_InsecureSkipVerify = conf_InsecureSkipVerify cfg, tls_RootCAs = None\<rparr> in
      if conf_TLSCACert cfg = [] then Inr tlsConfig
      else case osReadFile (conf_TLSCACert cfg) of
        Inl err \<Rightarrow> Inl (Wrap (''imap: read tls ca cert '' @ go_quote (conf_TLSCACert cfg)) (ErrIMAP err))
      | Inr pemBytes \<Rightarrow>
          if \<not> appendCertsFromPEM pemBytes then Inl (ErrIMAP (''imap: invalid tls ca pem: '' @ go_quote (conf_TLSCACert cfg)))
          else Inr (tlsConfig\<lparr>tls_RootCAs := Some pemBytes\<rparr>))"

definition JoinHostPort :: "string \<Rightarrow> string \<Rightarrow> string" where
  "JoinHostPort host port = (if CHR '':'' \<in> set host then ''['' @ host @ '']:'' @ port else host @ '':'' @ port)"

definition NewIMAPClient ::
    "(string \<Rightarrow> string + string) \<Rightarrow> (string \<Rightarrow> bool) \<Rightarrow> (string \<Rightarrow> tlsConfig \<Rightarrow> string option) \<Rightarrow> imap_server \<Rightarrow> imapConfig
      \<Rightarrow> imap_cmd list \<Rightarrow> (go_error + imapClient) \<times> imap_cmd list" where
  "NewIMAPClient osReadFile appendCertsFromPEM dialTLS S cfg h =
     (case buildTLSConfig osReadFile appendCertsFromPEM cfg of
        Inl err \<Rightarrow> (Inl err, h)
      | Inr tlsConfig \<Rightarrow>
          let cfg' = (if conf_Mailbox cfg = [] then cfg\<lparr>conf_Mailbox := ''INBOX''\<rparr> else cfg);
              address = JoinHostPort (conf_Host cfg) (dec_int (conf_Port cfg))
          in case dialTLS address tlsConfig of
               Some err \<Rightarrow> (Inl (Wrap (''imap: connect to '' @ address) (ErrIMAP err)), h)
             | None \<Rightarrow>
                 let h1 = h @ [Login (conf_Username cfg') (conf_Password cfg')] in
                 (case on_Login S h1 of
                    Some err \<Rightarrow> (Inl (Wrap ''imap: login'' (ErrIMAP err)), h1 @ [Logout])
                  | None \<Rightarrow> (Inr \<lparr>conf = cfg', lastSelectReadOnly = False, trace = h1\<rparr>, h1)))"

definition Close :: "imap_server \<Rightarrow> unit imap_op" where
  "Close S c =
     (let c1 = (if lastSelectReadOnly c then snd (tell CloseMailbox (on_Close S) c) else c)
      in wrapI ''imap: logout'' (tell Logout (on_Logout S)) c1)"

section \<open>Reading\<close>

definition truncateToDate :: "gotime \<Rightarrow> gotime" where
  "truncateToDate v = (let (y, m, d) = civil_of_day (day_number v) in date_UTC y m d)"

definition isTooLarge :: "u32 \<Rightarrow> int \<Rightarrow> bool" where
  "isTooLarge size' maxBytes = (if maxBytes \<le> 0 then False else maxBytes < uint size')"

definition SeenFlag :: string where
  "SeenFlag = CHR 0x5C # ''Seen''"

definition DeletedFlag :: string where
  "DeletedFlag = CHR 0x5C # ''Deleted''"

fun meta_loop :: "int \<Rightarrow> imap_message option list \<Rightarrow> MessageMeta list \<Rightarrow> MessageMeta list" where
  "meta_loop maxBytes [] metas = metas"
| "meta_loop maxBytes (None # msgs) metas = meta_loop maxBytes msgs metas"
| "meta_loop maxBytes (Some msg # msgs) metas =
     (if IsZero (msg_InternalDate msg) then meta_loop maxBytes msgs metas
      else case msg_Envelope msg of
        None \<Rightarrow> meta_loop maxBytes msgs metas
      | Some messageId \<Rightarrow>
          let meta = \<lparr>mm_UID = msg_Uid msg, mm_Size = msg_Size msg, mm_Date = msg_InternalDate msg,
                mm_Seen = SeenFlag \<in> set (msg_Flags msg), mm_MessageID = messageId\<rparr>
          in if isTooLarge (mm_Size meta) maxBytes then meta_loop maxBytes msgs metas
             else meta_loop maxBytes msgs (metas @ [meta]))"

text \<open>The read-only selection that \<^verbatim>\<open>FetchMeta\<close> and \<^verbatim>\<open>Download\<close> start with.\<close>

definition examine :: "imap_server \<Rightarrow> string \<Rightarrow> MailboxStatus imap_op" where
  "examine S mailbox =
     bindI (wrapI (''imap: select mailbox '' @ mailbox) (ask (Select mailbox True) (on_Select S)))
       (\<lambda>status c. (Inr status, c\<lparr>lastSelectReadOnly := True\<rparr>))"

definition FetchMeta :: "imap_server \<Rightarrow> bool \<Rightarrow> gotime \<Rightarrow> FetchMetaResult imap_op" where
  "FetchMeta S ctxErr since =
     (\<lambda>c. (if ctxErr then failI (Wrap ''imap: fetch meta'' ErrContextDone)
      else bindI (examine S (conf_Mailbox (conf c))) (\<lambda>mailboxStatus.
        bindI (wrapI ''imap: fetch meta'' (ask (UidSearch (Some (truncateToDate since)) None) (on_Search S))) (\<lambda>uids.
        if uids = [] then retI \<lparr>Messages = [], res_UIDValidity = UidValidity mailboxStatus\<rparr>
        else bindI (ask (UidFetch uids False) (\<lambda>h. Inr (on_Fetch S h))) (\<lambda>(msgs, fetchErr).
          case fetchErr of
            Some err \<Rightarrow> failI (Wrap ''imap: fetch meta'' (ErrIMAP err))
          | None \<Rightarrow> retI \<lparr>Messages = meta_loop (conf_MaxMessageBytes (conf c)) msgs [], res_UIDValidity = UidValidity mailboxStatus\<rparr>)))) c)"

text \<open>
  Reading a body: without a limit everything; with one, the limited reader hands out at most one byte
  more, computed in 64 bits, and does not reach an error behind it.
\<close>

definition readBody :: "int \<Rightarrow> literal \<Rightarrow> string option" where
  "readBody maxBytes body =
     (let (bytes, fails) = body in
      if 0 < maxBytes then
        let n = nat (wrap64 (maxBytes + 1)) in
        if fails \<and> length bytes < n then None else Some (take n bytes)
      else if fails then None else Some bytes)"

definition pickBody :: "imap_message \<Rightarrow> literal option" where
  "pickBody msg = (case msg_GetBody msg of Some b \<Rightarrow> Some b | None \<Rightarrow> (case msg_Body msg of [] \<Rightarrow> None | b # _ \<Rightarrow> b))"

fun download_loop :: "int \<Rightarrow> imap_message option list \<Rightarrow> (u32 \<rightharpoonup> string) \<Rightarrow> go_error + (u32 \<rightharpoonup> string)" where
  "download_loop maxBytes [] out = Inr out"
| "download_loop maxBytes (None # msgs) out = download_loop maxBytes msgs out"
| "download_loop maxBytes (Some msg # msgs) out =
     (case pickBody msg of
        None \<Rightarrow> download_loop maxBytes msgs out
      | Some body \<Rightarrow>
          (case readBody maxBytes body of
             None \<Rightarrow> Inl (Wrap ''imap: download: read'' (ErrIMAP []))
           | Some raw \<Rightarrow>
               if 0 < maxBytes \<and> maxBytes < int (length raw) then Inl (Wrap ''imap: download'' (ErrBodyTooLarge (msg_Uid msg)))
               else download_loop maxBytes msgs (out(msg_Uid msg \<mapsto> raw))))"

definition firstMissingUID :: "u32 list \<Rightarrow> (u32 \<rightharpoonup> string) \<Rightarrow> u32 option" where
  "firstMissingUID requested got = find (\<lambda>uid. got uid = None) requested"

definition Download :: "imap_server \<Rightarrow> bool \<Rightarrow> u32 list \<Rightarrow> (u32 \<rightharpoonup> string) imap_op" where
  "Download S ctxErr uids =
     (\<lambda>c. (if ctxErr then failI (Wrap ''imap: download'' ErrContextDone)
      else if uids = [] then retI Map.empty
      else bindI (examine S (conf_Mailbox (conf c))) (\<lambda>_.
        bindI (ask (UidFetch uids True) (\<lambda>h. Inr (on_Fetch S h))) (\<lambda>(msgs, fetchErr).
          case download_loop (conf_MaxMessageBytes (conf c)) msgs Map.empty of
            Inl err \<Rightarrow> failI err
          | Inr out \<Rightarrow>
              (case fetchErr of
                 Some err \<Rightarrow> failI (Wrap ''imap: download'' (ErrIMAP err))
               | None \<Rightarrow>
                   (case firstMissingUID uids out of
                      Some uid \<Rightarrow> failI (Wrap ''imap: download'' (ErrUIDNotFound uid))
                    | None \<Rightarrow> retI out))))) c)"

section \<open>Flags and deletion\<close>

definition selectMailbox :: "imap_server \<Rightarrow> bool \<Rightarrow> MailboxStatus imap_op" where
  "selectMailbox S ro =
     (\<lambda>c. bindI (wrapI (''imap: select mailbox '' @ conf_Mailbox (conf c)) (ask (Select (conf_Mailbox (conf c)) ro) (on_Select S)))
       (\<lambda>status c. (Inr status, c\<lparr>lastSelectReadOnly := ReadOnly status\<rparr>)) c)"

definition MarkSeen :: "imap_server \<Rightarrow> bool \<Rightarrow> u32 list \<Rightarrow> unit imap_op" where
  "MarkSeen S ctxErr uids =
     (if ctxErr then failI (Wrap ''imap: mark seen'' ErrContextDone)
      else if uids = [] then retI ()
      else bindI (wrapI ''imap: mark seen'' (selectMailbox S False)) (\<lambda>status.
        if ReadOnly status then failI ErrMailboxReadOnly
        else wrapI ''imap: mark seen'' (tell (UidStore uids SeenFlag) (on_Store S))))"

definition uidSearchBefore :: "imap_server \<Rightarrow> gotime \<Rightarrow> u32 list imap_op" where
  "uidSearchBefore S cutoff = wrapI ''imap: uid search before'' (ask (UidSearch None (Some (truncateToDate cutoff))) (on_Search S))"

definition DeleteOlderThan :: "imap_server \<Rightarrow> bool \<Rightarrow> gotime \<Rightarrow> int imap_op" where
  "DeleteOlderThan S ctxErr cutoff =
     (if ctxErr then failI (Wrap ''imap: delete older than'' ErrContextDone)
      else if IsZero cutoff then retI 0
      else bindI (wrapI ''imap: delete older than: check support'' (ask Capability (on_Support S))) (\<lambda>supported.
        if \<not> supported then retI 0
        else bindI (wrapI ''imap: delete older than'' (selectMailbox S False)) (\<lambda>status.
          if ReadOnly status then failI ErrMailboxReadOnly
          else bindI (wrapI ''imap: delete older than'' (uidSearchBefore S cutoff)) (\<lambda>uids.
            if uids = [] then retI 0
            else bindI (wrapI ''imap: delete older than: mark deleted'' (tell (UidStore uids DeletedFlag) (on_Store S))) (\<lambda>_.
              bindI (wrapI ''imap: delete older than: uid expunge'' (tell (UidExpunge uids) (on_Expunge S))) (\<lambda>_.
              retI (int (length uids))))))))"

definition SearchOlderThan :: "imap_server \<Rightarrow> bool \<Rightarrow> gotime \<Rightarrow> u32 list imap_op" where
  "SearchOlderThan S ctxErr cutoff =
     (if ctxErr then failI (Wrap ''imap: search older than'' ErrContextDone)
      else if IsZero cutoff then retI []
      else bindI (wrapI ''imap: search older than'' (selectMailbox S True)) (\<lambda>_.
        wrapI ''imap: search older than'' (uidSearchBefore S cutoff)))"

section \<open>What is sent\<close>

text \<open>An operation that sends only commands with the property \<open>P\<close> and keeps the configuration.\<close>

definition sends :: "(imap_cmd \<Rightarrow> bool) \<Rightarrow> 'a imap_op \<Rightarrow> bool" where
  "sends P m \<longleftrightarrow> (\<forall>c. \<exists>cs. trace (snd (m c)) = trace c @ cs \<and> list_all P cs \<and> conf (snd (m c)) = conf c)"

named_theorems sending \<open>rules for the commands an operation sends\<close>

lemma sends_pure [sending]: "sends P (retI a)" "sends P (failI e)"
  by (simp_all add: sends_def retI_def failI_def)

lemma sends_ask [sending]: "P cmd \<Longrightarrow> sends P (ask cmd answer)"
  by (simp add: sends_def ask_def Let_def)

lemma sends_tell [sending]: "P cmd \<Longrightarrow> sends P (tell cmd answer)"
  by (simp add: tell_def sending)

lemma sends_wrap [sending]: "sends P m \<Longrightarrow> sends P (wrapI s m)"
proof -
  have "snd (wrapI s m c) = snd (m c)" for c by (simp add: wrapI_def split: prod.split sum.split)
  then show "sends P m \<Longrightarrow> sends P (wrapI s m)" by (simp add: sends_def)
qed

lemma sends_bind [sending]:
  assumes "sends P m" "\<And>a. sends P (f a)"
  shows "sends P (bindI m f)"
  unfolding sends_def
proof
  fix c
  obtain r c1 where r: "m c = (r, c1)" by fastforce
  obtain cs where cs: "trace c1 = trace c @ cs" "list_all P cs" "conf c1 = conf c"
    using assms(1) r unfolding sends_def by (metis snd_conv)
  show "\<exists>cs. trace (snd (bindI m f c)) = trace c @ cs \<and> list_all P cs \<and> conf (snd (bindI m f c)) = conf c"
  proof (cases r)
    case (Inl e)
    with r cs show ?thesis by (auto simp: bindI_def)
  next
    case (Inr a)
    obtain ds where "trace (snd (f a c1)) = trace c1 @ ds" "list_all P ds" "conf (snd (f a c1)) = conf c1"
      using assms(2) unfolding sends_def by metis
    with r Inr cs show ?thesis by (intro exI [of _ "cs @ ds"]) (simp add: bindI_def)
  qed
qed

lemma sends_set [sending]: "sends P (\<lambda>c. (r, c\<lparr>lastSelectReadOnly := b\<rparr>))"
  by (simp add: sends_def)

lemma sends_conf: "(\<And>cfg. sends P (F cfg)) \<Longrightarrow> sends P (\<lambda>c. F (conf c) c)"
  by (simp add: sends_def)

lemma sends_if [sending]: "(b \<Longrightarrow> sends P m) \<Longrightarrow> (\<not> b \<Longrightarrow> sends P n) \<Longrightarrow> sends P (if b then m else n)"
  by simp

lemma sends_cases [sending]:
  "sends P m \<Longrightarrow> (\<And>y. sends P (f y)) \<Longrightarrow> sends P (case o' of None \<Rightarrow> m | Some y \<Rightarrow> f y)"
  "(\<And>e. sends P (g e)) \<Longrightarrow> (\<And>y. sends P (f' y)) \<Longrightarrow> sends P (case r of Inl e \<Rightarrow> g e | Inr y \<Rightarrow> f' y)"
  "(\<And>x y. sends P (h x y)) \<Longrightarrow> sends P (case p of (x, y) \<Rightarrow> h x y)"
  by (simp_all split: option.split sum.split prod.split)

text \<open>The commands that cannot change a mailbox.\<close>

definition reading :: "imap_cmd \<Rightarrow> bool" where
  "reading cmd = (case cmd of Select m ro \<Rightarrow> ro | UidSearch s b \<Rightarrow> True | UidFetch us body \<Rightarrow> True | _ \<Rightarrow> False)"

lemma sends_examine [sending]: "sends reading (examine S mailbox)"
  unfolding examine_def by (intro sending) (simp add: reading_def)

lemma sends_selectMailbox [sending]: "(\<And>m. P (Select m ro)) \<Longrightarrow> sends P (selectMailbox S ro)"
  unfolding selectMailbox_def by (rule sends_conf, intro sending)

lemma reading_ops [sending]:
  "sends reading (FetchMeta S ctxErr since)" "sends reading (Download S ctxErr uids)" "sends reading (SearchOlderThan S ctxErr cutoff)"
proof -
  show "sends reading (FetchMeta S ctxErr since)"
    unfolding FetchMeta_def by (rule sends_conf, intro sending) (simp_all add: reading_def)
  show "sends reading (Download S ctxErr uids)"
    unfolding Download_def by (rule sends_conf, intro sending) (simp_all add: reading_def)
  show "sends reading (SearchOlderThan S ctxErr cutoff)"
    unfolding SearchOlderThan_def uidSearchBefore_def by (intro sending) (simp_all add: reading_def)
qed

section \<open>Expunging\<close>

text \<open>
  Which mailbox selection is in force after a history: none, a read-only one (\<open>Some False\<close>) or a
  read-write one (\<open>Some True\<close>), by the commands sent and what the server answered. A failed selection is taken to keep the
  previous one, which is the worse case for what a later \<^verbatim>\<open>CLOSE\<close> may expunge.
\<close>

definition select_step :: "imap_server \<Rightarrow> imap_cmd list \<Rightarrow> imap_cmd \<Rightarrow> bool option \<Rightarrow> bool option" where
  "select_step S h cmd st = (case cmd of
       Select m ro \<Rightarrow> (case on_Select S (h @ [cmd]) of Inr status \<Rightarrow> Some (\<not> ro \<and> \<not> ReadOnly status) | Inl _ \<Rightarrow> st)
     | _ \<Rightarrow> st)"

definition selected :: "imap_server \<Rightarrow> imap_cmd list \<Rightarrow> bool option" where
  "selected S h = fold (\<lambda>i. select_step S (take i h) (h ! i)) [0..<length h] None"

lemma selected_snoc: "selected S (h @ [cmd]) = select_step S h cmd (selected S h)"
proof -
  have "fold (\<lambda>i. select_step S (take i (h @ [cmd])) ((h @ [cmd]) ! i)) [0..<length h] None = selected S h"
    unfolding selected_def by (rule fold_cong) (simp_all add: nth_append)
  then show ?thesis by (simp add: selected_def)
qed

lemma selected_Nil [simp]: "selected S [] = None"
  by (simp add: selected_def)

definition guarded :: "imap_server \<Rightarrow> imapClient \<Rightarrow> bool" where
  "guarded S c \<longleftrightarrow> (lastSelectReadOnly c \<longrightarrow> selected S (trace c) = Some False)"

definition keeps :: "imap_server \<Rightarrow> 'a imap_op \<Rightarrow> bool" where
  "keeps S m \<longleftrightarrow> (\<forall>c. guarded S c \<longrightarrow> guarded S (snd (m c)))"

named_theorems keeping \<open>rules for operations that keep the client's flag right\<close>

lemma keeps_pure [keeping]: "keeps S (retI a)" "keeps S (failI e)"
  by (simp_all add: keeps_def retI_def failI_def)

lemma keeps_ask [keeping]: "\<not> (\<exists>m ro. cmd = Select m ro) \<Longrightarrow> keeps S (ask cmd answer)"
  by (cases cmd) (simp_all add: keeps_def ask_def Let_def guarded_def selected_snoc select_step_def)

lemma keeps_tell [keeping]: "\<not> (\<exists>m ro. cmd = Select m ro) \<Longrightarrow> keeps S (tell cmd answer)"
  by (simp add: tell_def keeping)

lemma keeps_wrap [keeping]: "keeps S m \<Longrightarrow> keeps S (wrapI s m)"
proof -
  have "snd (wrapI s m c) = snd (m c)" for c by (simp add: wrapI_def split: prod.split sum.split)
  then show "keeps S m \<Longrightarrow> keeps S (wrapI s m)" by (simp add: keeps_def)
qed

lemma keeps_bind [keeping]:
  assumes "keeps S m" "\<And>a. keeps S (f a)"
  shows "keeps S (bindI m f)"
  unfolding keeps_def
proof (intro allI impI)
  fix c assume "guarded S c"
  moreover obtain r c1 where "m c = (r, c1)" by fastforce
  ultimately show "guarded S (snd (bindI m f c))"
    using assms unfolding keeps_def by (cases r) (auto simp: bindI_def dest: spec [of _ c])
qed

lemma keeps_conf: "(\<And>cfg. keeps S (F cfg)) \<Longrightarrow> keeps S (\<lambda>c. F (conf c) c)"
  by (simp add: keeps_def)

lemma keeps_if [keeping]: "(b \<Longrightarrow> keeps S m) \<Longrightarrow> (\<not> b \<Longrightarrow> keeps S n) \<Longrightarrow> keeps S (if b then m else n)"
  by simp

lemma keeps_cases [keeping]:
  "keeps S m \<Longrightarrow> (\<And>y. keeps S (f y)) \<Longrightarrow> keeps S (case o' of None \<Rightarrow> m | Some y \<Rightarrow> f y)"
  "(\<And>e. keeps S (g e)) \<Longrightarrow> (\<And>y. keeps S (f' y)) \<Longrightarrow> keeps S (case r of Inl e \<Rightarrow> g e | Inr y \<Rightarrow> f' y)"
  "(\<And>x y. keeps S (h x y)) \<Longrightarrow> keeps S (case p of (x, y) \<Rightarrow> h x y)"
  by (simp_all split: option.split sum.split prod.split)

lemma keeps_examine [keeping]: "keeps S (examine S mailbox)"
  by (auto simp: keeps_def examine_def bindI_def wrapI_def ask_def Let_def guarded_def selected_snoc select_step_def
      split: sum.splits prod.splits)

lemma keeps_selectMailbox [keeping]: "keeps S (selectMailbox S ro)"
  by (auto simp: keeps_def selectMailbox_def bindI_def wrapI_def ask_def Let_def guarded_def selected_snoc select_step_def
      split: sum.splits prod.splits)

lemma keeps_ops [keeping]:
  "keeps S (FetchMeta S ctxErr since)" "keeps S (Download S ctxErr uids)" "keeps S (MarkSeen S ctxErr uids)"
  "keeps S (DeleteOlderThan S ctxErr cutoff)" "keeps S (SearchOlderThan S ctxErr cutoff)"
proof -
  show "keeps S (FetchMeta S ctxErr since)" unfolding FetchMeta_def by (rule keeps_conf, intro keeping) simp_all
  show "keeps S (Download S ctxErr uids)" unfolding Download_def by (rule keeps_conf, intro keeping) simp_all
qed (unfold MarkSeen_def DeleteOlderThan_def SearchOlderThan_def uidSearchBefore_def, (intro keeping; simp)+)

text \<open>The states of a client: connected, then any operations with any arguments, in any order.\<close>

inductive client_state :: "imap_server \<Rightarrow> imapClient \<Rightarrow> bool" for S where
  connected: "NewIMAPClient osReadFile pem dial S cfg [] = (Inr c, h) \<Longrightarrow> client_state S c"
| fetched: "client_state S c \<Longrightarrow> client_state S (snd (FetchMeta S ctxErr since c))"
| downloaded: "client_state S c \<Longrightarrow> client_state S (snd (Download S ctxErr uids c))"
| marked: "client_state S c \<Longrightarrow> client_state S (snd (MarkSeen S ctxErr uids c))"
| deleted: "client_state S c \<Longrightarrow> client_state S (snd (DeleteOlderThan S ctxErr cutoff c))"
| searched: "client_state S c \<Longrightarrow> client_state S (snd (SearchOlderThan S ctxErr cutoff c))"

lemma client_state_guarded: "client_state S c \<Longrightarrow> guarded S c"
proof (induction rule: client_state.induct)
  case (connected osReadFile pem dial cfg c h)
  then have "\<not> lastSelectReadOnly c" by (auto simp: NewIMAPClient_def Let_def split: sum.splits option.splits)
  then show ?case by (simp add: guarded_def)
qed (use keeps_ops in \<open>auto simp: keeps_def\<close>)

text \<open>
  C16. Closing never expunges messages of other clients: whatever was done on the connection before and
  whatever the server answered, \<^verbatim>\<open>Close\<close> sends at most \<^verbatim>\<open>CLOSE\<close> and \<^verbatim>\<open>LOGOUT\<close>, and \<^verbatim>\<open>CLOSE\<close>, which would remove every
  message flagged as deleted from a mailbox selected read-write, only while the selection in force is read-only.
\<close>

theorem Close_expunges_nothing:
  assumes "client_state S c"
  shows "\<exists>cs. trace (snd (Close S c)) = trace c @ cs \<and> set cs \<subseteq> {CloseMailbox, Logout}
    \<and> (CloseMailbox \<in> set cs \<longrightarrow> selected S (trace c) = Some False)"
  using client_state_guarded [OF assms]
  by (auto simp: Close_def Let_def tell_def ask_def wrapI_def guarded_def split: option.split sum.split prod.split)

definition toy_server :: imap_server where
  "toy_server = \<lparr>on_Login = (\<lambda>_. None), on_Logout = (\<lambda>_. None), on_Close = (\<lambda>_. None),
     on_Select = (\<lambda>_. Inr \<lparr>UidValidity = 7, ReadOnly = False\<rparr>), on_Search = (\<lambda>_. Inr [1, 2]),
     on_Fetch = (\<lambda>_. (map (\<lambda>u. Some \<lparr>msg_Uid = u, msg_Size = 3, msg_InternalDate = 5, msg_Envelope = Some [], msg_Flags = [],
        msg_GetBody = Some (''abc'', False), msg_Body = []\<rparr>) [1, 2], None)),
     on_Store = (\<lambda>_. None), on_Support = (\<lambda>_. Inr True), on_Expunge = (\<lambda>_. None)\<rparr>"

definition toy_client :: "string \<Rightarrow> int \<Rightarrow> imapClient" where
  "toy_client host limit = \<lparr>conf = \<lparr>conf_Host = host, conf_Port = 993, conf_Username = ''u'', conf_Password = ''p'', conf_Mailbox = ''INBOX'',
     conf_TLSCACert = [], conf_MaxMessageBytes = limit, conf_InsecureSkipVerify = False\<rparr>, lastSelectReadOnly = False, trace = [Login ''u'' ''p'']\<rparr>"

lemma toy_connected: "client_state toy_server (toy_client host limit)"
  by (rule client_state.connected [where osReadFile = Inr and pem = "\<lambda>_. True" and dial = "\<lambda>_ _. None" and cfg = "conf (toy_client host limit)"])
    (simp add: NewIMAPClient_def buildTLSConfig_def toy_client_def toy_server_def Let_def)

theorem Close_expunges_nothing_witness:
  "\<exists>c cs. c = snd (MarkSeen toy_server False [1] (snd (FetchMeta toy_server False 0 (toy_client ''h'' 0))))
    \<and> trace (snd (Close toy_server c)) = trace c @ cs \<and> set cs \<subseteq> {CloseMailbox, Logout}
    \<and> (CloseMailbox \<in> set cs \<longrightarrow> selected toy_server (trace c) = Some False)"
  using Close_expunges_nothing [OF client_state.marked [OF client_state.fetched [OF toy_connected, of False 0 "''h''" 0], of False "[1]"]]
  by blast

text \<open>
  C15. What \<^verbatim>\<open>DeleteOlderThan\<close> removes: the commands it sends are a prefix of one fixed sequence, whose
  flag and \<^verbatim>\<open>UID EXPUNGE\<close> name exactly the messages the server found to be from before the date of the cutoff. It
  flags nothing unless the server supports \<^verbatim>\<open>UIDPLUS\<close> and selected the mailbox read-write, so an expunge cannot reach other
  messages; the number it reports is the number of messages expunged; and a zero cutoff sends nothing.
\<close>

theorem DeleteOlderThan_exact:
  assumes "DeleteOlderThan S ctxErr cutoff c = (r, c')"
  shows "\<exists>uids status cs. trace c' = trace c @ cs
    \<and> prefix cs [Capability, Select (conf_Mailbox (conf c)) False, UidSearch None (Some (truncateToDate cutoff)),
        UidStore uids DeletedFlag, UidExpunge uids]
    \<and> (3 < length cs \<longrightarrow> on_Support S (take (length (trace c) + 1) (trace c')) = Inr True
        \<and> on_Select S (take (length (trace c) + 2) (trace c')) = Inr status \<and> \<not> ReadOnly status
        \<and> on_Search S (take (length (trace c) + 3) (trace c')) = Inr uids \<and> uids \<noteq> [])
    \<and> (\<forall>n. r = Inr n \<longrightarrow> n = (if length cs = 5 then int (length uids) else 0) \<and> length cs \<noteq> 4)
    \<and> (IsZero cutoff \<longrightarrow> cs = [])"
proof -
  define ev where "ev = (\<lambda>n. take n [Capability, Select (conf_Mailbox (conf c)) False, UidSearch None (Some (truncateToDate cutoff))])"
  note d = DeleteOlderThan_def bindI_def wrapI_def selectMailbox_def uidSearchBefore_def ask_def tell_def retI_def failI_def Let_def
  show ?thesis
  proof (cases "ctxErr \<or> IsZero cutoff \<or> on_Support S (trace c @ [Capability]) \<noteq> Inr True")
    case True
    with assms show ?thesis
      by (intro exI [of _ "[]"] exI [of _ "undefined"] exI [of _ "drop (length (trace c)) (trace c')"])
        (auto simp: d split: if_splits sum.splits)
  next
    case ok: False
    show ?thesis
    proof (cases "on_Select S (trace c @ [Capability, Select (conf_Mailbox (conf c)) False])")
      case (Inl e)
      with ok assms show ?thesis
        by (intro exI [of _ "[]"] exI [of _ "undefined"] exI [of _ "drop (length (trace c)) (trace c')"])
          (auto simp: d split: if_splits)
    next
      case sel: (Inr status)
      show ?thesis
      proof (cases "on_Search S (trace c @ ev 3)")
        case (Inl e)
        with ok sel assms show ?thesis
          by (intro exI [of _ "[]"] exI [of _ status] exI [of _ "drop (length (trace c)) (trace c')"])
            (auto simp: d ev_def split: if_splits)
      next
        case (Inr uids)
        with ok sel assms show ?thesis
          by (intro exI [of _ uids] exI [of _ status] exI [of _ "drop (length (trace c)) (trace c')"])
            (auto simp: d ev_def split: if_splits option.splits)
      qed
    qed
  qed
qed

theorem DeleteOlderThan_exact_witness:
  "\<exists>r c'. DeleteOlderThan toy_server False 1 (toy_client ''h'' 0) = (r, c') \<and> r = Inr 2
    \<and> trace c' = [Login ''u'' ''p'', Capability, Select ''INBOX'' False, UidSearch None (Some 0), UidStore [1, 2] DeletedFlag, UidExpunge [1, 2]]
    \<and> (\<exists>uids status cs. trace c' = [Login ''u'' ''p''] @ cs \<and> (3 < length cs \<longrightarrow> on_Search toy_server (take 4 (trace c')) = Inr uids)
       \<and> (\<forall>n. r = Inr n \<longrightarrow> n = (if length cs = 5 then int (length uids) else 0) \<and> length cs \<noteq> 4))"
proof -
  obtain r c' where run: "DeleteOlderThan toy_server False 1 (toy_client ''h'' 0) = (r, c')" by fastforce
  have "truncateToDate 1 = 0" by code_simp
  with run have v: "r = Inr 2 \<and> trace c' = [Login ''u'' ''p'', Capability, Select ''INBOX'' False, UidSearch None (Some 0),
      UidStore [1, 2] DeletedFlag, UidExpunge [1, 2]]"
    by (auto simp: DeleteOlderThan_def bindI_def wrapI_def selectMailbox_def uidSearchBefore_def ask_def tell_def retI_def failI_def
        toy_server_def toy_client_def IsZero_def)
  have t: "trace (toy_client ''h'' 0) = [Login ''u'' ''p'']" by (simp add: toy_client_def)
  from DeleteOlderThan_exact [OF run] obtain uids status cs where
    "trace c' = [Login ''u'' ''p''] @ cs" "3 < length cs \<longrightarrow> on_Search toy_server (take 4 (trace c')) = Inr uids"
    "\<forall>n. r = Inr n \<longrightarrow> n = (if length cs = 5 then int (length uids) else 0) \<and> length cs \<noteq> 4"
    unfolding t by (elim exE conjE) (rule that, auto)
  with run v show ?thesis by blast
qed

section \<open>Downloads\<close>

definition complete_body :: "imap_message option list \<Rightarrow> u32 \<Rightarrow> string \<Rightarrow> bool" where
  "complete_body msgs uid raw \<longleftrightarrow> (\<exists>msg. Some msg \<in> set msgs \<and> msg_Uid msg = uid \<and> pickBody msg = Some (raw, False))"

lemma readBody_complete:
  assumes "readBody maxBytes (bytes, fails) = Some raw" "maxBytes < 2 ^ 63 - 1" "\<not> (0 < maxBytes \<and> maxBytes < int (length raw))"
  shows "raw = bytes" "\<not> fails"
proof -
  have "0 < maxBytes \<Longrightarrow> wrap64 (maxBytes + 1) = maxBytes + 1" using assms(2) by (intro wrap64_id) (simp add: int64_range_def)
  then show "raw = bytes" "\<not> fails" using assms by (auto simp: readBody_def Let_def min_def split: if_splits)
qed

lemma download_loop_complete:
  assumes "download_loop maxBytes msgs out = Inr out'" "maxBytes < 2 ^ 63 - 1" "out' uid = Some raw" "out uid \<noteq> Some raw"
  shows "complete_body msgs uid raw \<and> (0 < maxBytes \<longrightarrow> int (length raw) \<le> maxBytes)"
  using assms
proof (induction maxBytes msgs out rule: download_loop.induct)
  case (2 maxBytes msgs out)
  then show ?case by (auto simp: complete_body_def)
next
  case (3 maxBytes msg msgs out)
  show ?case
  proof (cases "pickBody msg")
    case None
    with 3 show ?thesis by (auto simp: complete_body_def)
  next
    case (Some body)
    obtain bytes fails where body: "body = (bytes, fails)" by fastforce
    obtain raw' where raw': "readBody maxBytes (bytes, fails) = Some raw'" "\<not> (0 < maxBytes \<and> maxBytes < int (length raw'))"
      using 3(3) Some body by (auto split: option.splits if_splits)
    have next': "download_loop maxBytes msgs (out(msg_Uid msg \<mapsto> raw')) = Inr out'"
      using 3(3) Some body raw' by (simp split: if_splits)
    show ?thesis
    proof (cases "uid = msg_Uid msg \<and> raw = raw'")
      case True
      with Some body readBody_complete [OF raw'(1) 3(4) raw'(2)] raw'(2) show ?thesis by (auto simp: complete_body_def)
    next
      case False
      with 3(6) have "(out(msg_Uid msg \<mapsto> raw')) uid \<noteq> Some raw" by auto
      from 3(2) [OF Some raw'(1) [folded body] raw'(2) next' 3(4,5) this] show ?thesis
        by (auto simp: complete_body_def)
    qed
  qed
qed simp

text \<open>
  C17. A download is complete or fails: on success every requested message has an entry, which is the
  whole body the server sent for it, read to the end without an error and within the size limit. The limit is below
  the largest 64-bit integer.
\<close>

theorem Download_complete:
  assumes "Download S ctxErr uids c = (Inr out, c')" "conf_MaxMessageBytes (conf c) < 2 ^ 63 - 1" "uid \<in> set uids"
  shows "\<exists>raw. out uid = Some raw \<and> complete_body (fst (on_Fetch S (trace c'))) uid raw
    \<and> (0 < conf_MaxMessageBytes (conf c) \<longrightarrow> int (length raw) \<le> conf_MaxMessageBytes (conf c))"
proof -
  have ne: "uids \<noteq> []" using assms(3) by auto
  have l: "download_loop (conf_MaxMessageBytes (conf c)) (fst (on_Fetch S (trace c'))) Map.empty = Inr out" and m: "firstMissingUID uids out = None"
    using assms(1) ne by (auto simp: Download_def examine_def bindI_def wrapI_def ask_def retI_def failI_def Let_def
        split: if_splits sum.splits option.splits prod.splits)
  from m assms(3) obtain raw where "out uid = Some raw" by (auto simp: firstMissingUID_def find_None_iff)
  with download_loop_complete [OF l assms(2)] show ?thesis by auto
qed

lemmas download_eval = Download_def examine_def bindI_def wrapI_def ask_def retI_def failI_def Let_def toy_server_def toy_client_def
  readBody_def pickBody_def firstMissingUID_def

theorem Download_complete_witness:
  "\<exists>out c'. Download toy_server False [2] (toy_client ''h'' 10) = (Inr out, c')
    \<and> (\<exists>raw. out 2 = Some raw \<and> complete_body (fst (on_Fetch toy_server (trace c'))) 2 raw \<and> int (length raw) \<le> 10)"
proof -
  obtain out c' where run: "Download toy_server False [2] (toy_client ''h'' 10) = (Inr out, c')"
    by (simp add: download_eval wrap64_def numeral_eq_Suc)
  have "conf_MaxMessageBytes (conf (toy_client ''h'' 10)) = 10" by (simp add: toy_client_def)
  with Download_complete [OF run, of 2] run show ?thesis by simp
qed

text \<open>
  At the largest limit, the largest 64-bit integer, which the configuration accepts, the limit of the reader
  overflows: every message is downloaded as empty, and the download reports success.
\<close>

theorem Download_limit_overflow:
  "fst (Download toy_server False [2] (toy_client ''h'' (2 ^ 63 - 1))) = Inr (Map.empty(1 \<mapsto> [], 2 \<mapsto> []))
   \<and> (\<forall>bytes. readBody (2 ^ 63 - 1) (bytes, False) = Some [])"
  by (simp add: download_eval wrap64_def)

end
