(* ===== verification/Mailparse.thy ===== *)
theory Mailparse
  imports Go_Prelude
begin

text \<open>
  \<^verbatim>\<open>internal/mailparse/mailparse.go\<close>: the attachments of a mail. What the standard library does with the raw
  bytes is a record of functions: \<^verbatim>\<open>mime.ParseMediaType\<close> (media type, parameters, whether it failed), the raw parts
  of a multipart body and whether they end in an error, the successive reads of a body, plain or through
  the base64 decoder, with whether they end in an error, and the decoder of encoded words. Header
  values are looked up by name; a body is of an abstract type.
\<close>

section \<open>Types\<close>

type_synonym params = "(string \<times> string) list"

record 'b part =
  part_Header :: "string \<Rightarrow> string"
  part_Body :: 'b

record 'b mime_lib =
  ParseMediaType :: "string \<Rightarrow> string \<times> params \<times> bool"
  RawParts :: "'b \<Rightarrow> string \<Rightarrow> 'b part list \<times> bool"
  PlainReads :: "'b \<Rightarrow> string list \<times> bool"
  Base64Reads :: "'b \<Rightarrow> string list \<times> bool"
  DecodeHeader :: "string \<Rightarrow> string option"

record Attachment =
  Filename :: string
  ContentType :: string
  Content :: string

datatype mailparse_error =
    ErrSizeLimitExceeded int int
  | ErrMIMETooDeep nat nat
  | ErrParseContentType
  | ErrParseMultipart
  | ErrSkip
  | ErrRead

definition maxMultipartDepth :: nat where
  "maxMultipartDepth = 10"

section \<open>One part\<close>

definition isAttachment :: "string \<Rightarrow> params \<Rightarrow> bool" where
  "isAttachment disp contentTypeParams =
     (if disp = ''attachment'' then True else if disp = ''inline'' then False
      else map_of contentTypeParams ''name'' \<noteq> None)"

definition resolveFilename :: "'b mime_lib \<Rightarrow> params \<Rightarrow> params \<Rightarrow> string" where
  "resolveFilename L dispParams contentTypeParams =
     (let raw = (case map_of dispParams ''filename'' of Some fn \<Rightarrow> fn
                 | None \<Rightarrow> (case map_of contentTypeParams ''name'' of Some name \<Rightarrow> name | None \<Rightarrow> []))
      in if raw = [] then [] else case DecodeHeader L raw of None \<Rightarrow> raw | Some decoded \<Rightarrow> decoded)"

text \<open>
  \<^verbatim>\<open>strings.TrimSpace\<close> on the bytes of a header value: the white space of ASCII and the UTF-8 forms of the other
  Unicode spaces. Going backwards over the text, the bytes of such a form come in the opposite order.
\<close>

definition utf8_space :: "nat list \<Rightarrow> bool" where
  "utf8_space bs \<longleftrightarrow> bs \<in> {[0xC2, 0x85], [0xC2, 0xA0], [0xE1, 0x9A, 0x80], [0xE2, 0x80, 0xA8], [0xE2, 0x80, 0xA9], [0xE2, 0x80, 0xAF],
       [0xE2, 0x81, 0x9F], [0xE3, 0x80, 0x80]}
     \<or> length bs = 3 \<and> take 2 bs = [0xE2, 0x80] \<and> 0x80 \<le> bs ! 2 \<and> bs ! 2 \<le> 0x8A"

definition space_bytes :: "bool \<Rightarrow> string \<Rightarrow> nat" where
  "space_bytes backward s =
     (let is_form = (\<lambda>n. n \<le> length s \<and> utf8_space ((if backward then rev else id) (map of_char (take n s))))
      in if s \<noteq> [] \<and> hd s \<in> {CHR '' '', CHR 0x09, CHR 0x0A, CHR 0x0B, CHR 0x0C, CHR 0x0D} then 1
         else if is_form 2 then 2 else if is_form 3 then 3 else 0)"

function skip_space :: "bool \<Rightarrow> string \<Rightarrow> string" where
  "skip_space backward s = (if s = [] \<or> space_bytes backward s = 0 then s else skip_space backward (drop (space_bytes backward s) s))"
  by pat_completeness auto

termination
  by (relation "measure (\<lambda>(_, s). length s)") auto

declare skip_space.simps [simp del]

definition trim :: "string \<Rightarrow> string" where
  "trim s = rev (skip_space True (rev (skip_space False s)))"

text \<open>The read loop; the second component of the result is the bytes decoded so far in the whole mail.\<close>

fun decode_loop :: "int \<Rightarrow> bool \<Rightarrow> string list \<Rightarrow> string \<Rightarrow> int \<Rightarrow> (mailparse_error + string) \<times> int" where
  "decode_loop maxBytes failed [] content accumulated = (if failed then Inl ErrRead else Inr content, accumulated)"
| "decode_loop maxBytes failed (buf # bufs) content accumulated =
     (let accumulated' = wrap64 (accumulated + int (length buf)) in
      if buf \<noteq> [] \<and> 0 < maxBytes \<and> maxBytes < accumulated' then (Inl (ErrSizeLimitExceeded maxBytes accumulated'), accumulated')
      else decode_loop maxBytes failed bufs (content @ buf) accumulated')"

definition decodeContent :: "'b mime_lib \<Rightarrow> 'b \<Rightarrow> string \<Rightarrow> int \<Rightarrow> int \<Rightarrow> (mailparse_error + string) \<times> int" where
  "decodeContent L r enc maxBytes accumulated =
     (let encLower = to_lower (trim enc) in
      if encLower \<noteq> ''base64'' \<and> encLower \<noteq> [] then (Inl ErrSkip, accumulated)
      else let (bufs, failed) = (if encLower = ''base64'' then Base64Reads L r else PlainReads L r)
           in decode_loop maxBytes failed bufs [] accumulated)"

text \<open>The leaf case that \<^verbatim>\<open>processPart\<close> and the top level share, given the media type and its parameters.\<close>

definition leafAttachment ::
    "'b mime_lib \<Rightarrow> (string \<Rightarrow> string) \<Rightarrow> 'b \<Rightarrow> string \<Rightarrow> params \<Rightarrow> int \<Rightarrow> int \<Rightarrow> (mailparse_error + Attachment list) \<times> int" where
  "leafAttachment L header body mediaType params' maxBytes accumulated =
     (let (disp, dispParams, _) = ParseMediaType L (header ''Content-Disposition'') in
      if \<not> isAttachment disp params' then (Inr [], accumulated)
      else case decodeContent L body (header ''Content-Transfer-Encoding'') maxBytes accumulated of
        (Inl (ErrSizeLimitExceeded l a), acc') \<Rightarrow> (Inl (ErrSizeLimitExceeded l a), acc')
      | (Inl _, acc') \<Rightarrow> (Inr [], acc')
      | (Inr content, acc') \<Rightarrow>
          (Inr [\<lparr>Filename = resolveFilename L dispParams params', ContentType = mediaType, Content = content\<rparr>], acc'))"

definition param :: "params \<Rightarrow> string \<Rightarrow> string" where
  "param ps k = (case map_of ps k of None \<Rightarrow> [] | Some v \<Rightarrow> v)"

definition processPart ::
    "'b mime_lib \<Rightarrow> ('b \<Rightarrow> string \<Rightarrow> int \<Rightarrow> (mailparse_error + Attachment list) \<times> int) \<Rightarrow> 'b part \<Rightarrow> int \<Rightarrow> int
      \<Rightarrow> (mailparse_error + Attachment list) \<times> int" where
  "processPart L nested part maxBytes accumulated =
     (let contentType = part_Header part ''Content-Type'' in
      if contentType = [] then (Inr [], accumulated)
      else let (mediaType, params', bad) = ParseMediaType L contentType in
        if bad then (Inr [], accumulated)
        else if has_prefix mediaType ''multipart/'' then nested (part_Body part) (param params' ''boundary'') accumulated
        else leafAttachment L (part_Header part) (part_Body part) mediaType params' maxBytes accumulated)"

section \<open>Multipart bodies\<close>

fun part_loop ::
    "('p \<Rightarrow> int \<Rightarrow> (mailparse_error + Attachment list) \<times> int) \<Rightarrow> bool \<Rightarrow> 'p list \<Rightarrow> Attachment list \<Rightarrow> int
      \<Rightarrow> (mailparse_error + Attachment list) \<times> int" where
  "part_loop process bad [] results accumulated = (if bad then Inl ErrParseMultipart else Inr results, accumulated)"
| "part_loop process bad (p # ps) results accumulated =
     (case process p accumulated of
        (Inl err, acc') \<Rightarrow> (Inl err, acc')
      | (Inr atts, acc') \<Rightarrow> part_loop process bad ps (results @ atts) acc')"

text \<open>
  The first number is how many levels of nesting are still allowed, \<^verbatim>\<open>maxMultipartDepth + 1 - depth\<close>: the depth
  exceeds the limit exactly when it is 0.
\<close>

fun extractParts ::
    "'b mime_lib \<Rightarrow> nat \<Rightarrow> int \<Rightarrow> 'b \<Rightarrow> string \<Rightarrow> int \<Rightarrow> (mailparse_error + Attachment list) \<times> int" where
  "extractParts L 0 maxBytes r boundary accumulated = (Inl (ErrMIMETooDeep (maxMultipartDepth + 1) maxMultipartDepth), accumulated)"
| "extractParts L (Suc levels) maxBytes r boundary accumulated =
     (let (parts, bad) = RawParts L r boundary
      in part_loop (\<lambda>p acc. processPart L (extractParts L levels maxBytes) p maxBytes acc) bad parts [] accumulated)"

definition ExtractAttachments :: "'b mime_lib \<Rightarrow> 'b part \<Rightarrow> int \<Rightarrow> mailparse_error + Attachment list" where
  "ExtractAttachments L msg maxBytes =
     (let contentType = part_Header msg ''Content-Type'' in
      if contentType = [] then Inr []
      else let (mediaType, params', bad) = ParseMediaType L contentType in
        if bad then Inl ErrParseContentType
        else if has_prefix mediaType ''multipart/''
        then fst (extractParts L (maxMultipartDepth + 1) maxBytes (part_Body msg) (param params' ''boundary'') 0)
        else fst (leafAttachment L (part_Header msg) (part_Body msg) mediaType params' maxBytes 0))"

section \<open>The size limit\<close>

text \<open>What the documentation of \<^verbatim>\<open>io.Reader\<close> promises of the reads: never more than the 32 KiB buffer.\<close>

definition reads_fit :: "'b mime_lib \<Rightarrow> bool" where
  "reads_fit L \<longleftrightarrow> (\<forall>b. list_all (\<lambda>s. length s \<le> 32768) (fst (PlainReads L b)) \<and> list_all (\<lambda>s. length s \<le> 32768) (fst (Base64Reads L b)))"

definition total_size :: "Attachment list \<Rightarrow> int" where
  "total_size atts = sum_list (map (\<lambda>a. int (length (Content a))) atts)"

text \<open>A step that spends at least what it returns, and stays within the limit unless it fails.\<close>

definition within :: "int \<Rightarrow> int \<Rightarrow> (mailparse_error + 'a) \<times> int \<Rightarrow> ('a \<Rightarrow> int) \<Rightarrow> bool" where
  "within maxBytes acc r size' \<longleftrightarrow> (case r of
       (Inr x, acc') \<Rightarrow> acc + size' x \<le> acc' \<and> acc \<le> acc' \<and> acc' \<le> maxBytes
     | (Inl (ErrSizeLimitExceeded l a), acc') \<Rightarrow> l = maxBytes \<and> maxBytes < a
     | (Inl _, acc') \<Rightarrow> acc \<le> acc' \<and> acc' \<le> maxBytes)"

lemma within_none: "acc \<le> maxBytes \<Longrightarrow> within maxBytes acc (Inr [], acc) total_size"
  by (simp add: within_def total_size_def)

lemma decode_loop_within:
  assumes "list_all (\<lambda>s. length s \<le> 32768) bufs" "0 < maxBytes" "maxBytes \<le> 2 ^ 62" "0 \<le> acc" "acc \<le> maxBytes"
  shows "within maxBytes acc (decode_loop maxBytes failed bufs content acc) (\<lambda>c. int (length c) - int (length content))"
  using assms
proof (induction bufs arbitrary: content acc)
  case (Cons buf bufs)
  then have w: "wrap64 (acc + int (length buf)) = acc + int (length buf)"
    by (intro wrap64_id) (simp add: int64_range_def)
  show ?case
  proof (cases "maxBytes < acc + int (length buf)")
    case True
    then have "buf \<noteq> []" using Cons.prems by auto
    with True Cons.prems show ?thesis by (simp add: w within_def Let_def)
  next
    case False
    then show ?thesis
      using Cons.IH [of "acc + int (length buf)" "content @ buf"] Cons.prems
      by (auto simp: w within_def Let_def split: prod.splits sum.splits mailparse_error.splits)
  qed
qed (simp add: within_def)

lemma decodeContent_within:
  assumes "reads_fit L" "0 < maxBytes" "maxBytes \<le> 2 ^ 62" "0 \<le> acc" "acc \<le> maxBytes"
  shows "within maxBytes acc (decodeContent L body enc maxBytes acc) (\<lambda>c. int (length c))"
proof -
  obtain bs f where b: "Base64Reads L body = (bs, f)" by fastforce
  obtain ps g where p: "PlainReads L body = (ps, g)" by fastforce
  from assms(1) have fit: "list_all (\<lambda>s. length s \<le> 32768) bs" "list_all (\<lambda>s. length s \<le> 32768) ps"
    unfolding reads_fit_def by (metis b p fst_conv)+
  show ?thesis
    using decode_loop_within [OF fit(1) assms(2-), of f "[]"] decode_loop_within [OF fit(2) assms(2-), of g "[]"] assms(4,5)
    by (simp add: decodeContent_def b p Let_def) (simp add: within_def)
qed

lemma leaf_within:
  assumes "reads_fit L" "0 < maxBytes" "maxBytes \<le> 2 ^ 62" "0 \<le> acc" "acc \<le> maxBytes"
  shows "within maxBytes acc (leafAttachment L header body mt ps maxBytes acc) total_size"
  using decodeContent_within [OF assms, of body "header ''Content-Transfer-Encoding''"] assms(4,5)
  by (auto simp: leafAttachment_def within_def Let_def total_size_def split: prod.splits sum.splits mailparse_error.splits)

lemma part_loop_within:
  assumes "\<And>p acc. 0 \<le> acc \<Longrightarrow> acc \<le> maxBytes \<Longrightarrow> within maxBytes acc (process p acc) total_size" "0 \<le> acc" "acc \<le> maxBytes"
  shows "within maxBytes acc (part_loop process bad ps results acc) (\<lambda>atts. total_size atts - total_size results)"
  using assms(2,3)
proof (induction ps arbitrary: results acc)
  case (Cons p ps)
  obtain r acc' where r: "process p acc = (r, acc')" by fastforce
  note step = assms(1) [OF Cons.prems, of p, unfolded r]
  show ?case
  proof (cases r)
    case (Inl e)
    with r step show ?thesis by (simp add: within_def split: mailparse_error.splits)
  next
    case (Inr atts)
    with step Cons.prems have acc': "0 \<le> acc'" "acc' \<le> maxBytes" "acc + total_size atts \<le> acc'" "acc \<le> acc'"
      by (auto simp: within_def)
    from Cons.IH [OF acc'(1,2), of "results @ atts"] acc'(3,4) r Inr show ?thesis
      by (auto simp: within_def total_size_def split: prod.splits sum.splits mailparse_error.splits)
  qed
qed (simp add: within_def)

lemma extractParts_within:
  assumes "reads_fit L" "0 < maxBytes" "maxBytes \<le> 2 ^ 62"
  shows "0 \<le> acc \<Longrightarrow> acc \<le> maxBytes \<Longrightarrow> within maxBytes acc (extractParts L levels maxBytes r boundary acc) total_size"
proof (induction levels arbitrary: r boundary acc)
  case (Suc levels)
  have "within maxBytes acc' (processPart L (extractParts L levels maxBytes) p maxBytes acc') total_size"
    if "0 \<le> acc'" "acc' \<le> maxBytes" for p acc'
    using Suc.IH [OF that] leaf_within [OF assms that] that
    by (auto simp: processPart_def Let_def within_none split: prod.split)
  from part_loop_within [of maxBytes, OF this Suc.prems, where results = "[]"] show ?case
    by (auto simp: Let_def total_size_def split: prod.split)
qed (simp add: within_def)

text \<open>Without a limit, nothing is ever too big.\<close>

definition not_too_big :: "(mailparse_error + 'a) \<times> int \<Rightarrow> bool" where
  "not_too_big r \<longleftrightarrow> (case fst r of Inl (ErrSizeLimitExceeded l a) \<Rightarrow> False | _ \<Rightarrow> True)"

lemma decode_loop_unlimited: "maxBytes \<le> 0 \<Longrightarrow> not_too_big (decode_loop maxBytes failed bufs content acc)"
  by (induction bufs arbitrary: content acc) (auto simp: not_too_big_def Let_def)

lemma leaf_unlimited:
  assumes "maxBytes \<le> 0"
  shows "not_too_big (leafAttachment L header body mt ps maxBytes acc)"
proof -
  have "not_too_big (decodeContent L body enc maxBytes acc)" for enc
    using decode_loop_unlimited [OF assms]
    by (auto simp: decodeContent_def Let_def not_too_big_def split: prod.split)
  from this [of "header ''Content-Transfer-Encoding''"] show ?thesis
    by (auto simp: leafAttachment_def not_too_big_def Let_def split: prod.splits sum.splits mailparse_error.splits)
qed

lemma part_loop_unlimited:
  assumes "\<And>p acc. not_too_big (process p acc)"
  shows "not_too_big (part_loop process bad ps results acc)"
proof (induction ps arbitrary: results acc)
  case (Cons p ps)
  obtain r acc' where r: "process p acc = (r, acc')" by fastforce
  from assms [of p acc] Cons.IH show ?case
    by (cases r) (simp_all add: r not_too_big_def [of "(Inl _, _)"])
qed (simp add: not_too_big_def)

lemma extractParts_unlimited: "maxBytes \<le> 0 \<Longrightarrow> not_too_big (extractParts L levels maxBytes r boundary acc)"
proof (induction levels arbitrary: r boundary acc)
  case (Suc levels)
  then have "not_too_big (processPart L (extractParts L levels maxBytes) p maxBytes acc')" for p acc'
    using leaf_unlimited [OF Suc.prems]
    by (auto simp: processPart_def Let_def not_too_big_def [of "(Inr [], _)"] split: prod.split)
  then show ?case
    by (auto simp: Let_def intro: part_loop_unlimited split: prod.split)
qed (simp add: not_too_big_def)

text \<open>
  C34. The size limit of a mail: with a limit, an extraction that succeeds returns attachments of together
  at most that many bytes, however deep they are nested and however many there are, and an extraction that
  fails for the size reports the limit and an amount above it; with a limit of 0 or below none fails for
  its size. The limit is at most \<^term>\<open>2 ^ 62 :: int\<close>, so that the count cannot wrap around.
\<close>

theorem ExtractAttachments_size:
  assumes "reads_fit L" "maxBytes \<le> 2 ^ 62"
  shows "case ExtractAttachments L msg maxBytes of
      Inr atts \<Rightarrow> 0 < maxBytes \<longrightarrow> total_size atts \<le> maxBytes
    | Inl (ErrSizeLimitExceeded l a) \<Rightarrow> 0 < maxBytes \<and> l = maxBytes \<and> maxBytes < a
    | Inl _ \<Rightarrow> True"
proof -
  obtain mt ps bad where ct: "ParseMediaType L (part_Header msg ''Content-Type'') = (mt, ps, bad)" by (metis prod_cases3)
  let ?multi = "extractParts L (maxMultipartDepth + 1) maxBytes (part_Body msg) (param ps ''boundary'') 0"
  let ?leaf = "leafAttachment L (part_Header msg) (part_Body msg) mt ps maxBytes 0"
  define r where "r = (if has_prefix mt ''multipart/'' then ?multi else ?leaf)"
  have ext: "ExtractAttachments L msg maxBytes =
      (if part_Header msg ''Content-Type'' = [] then Inr [] else if bad then Inl ErrParseContentType else fst r)"
    by (simp add: ExtractAttachments_def r_def ct Let_def)
  show ?thesis
  proof (cases "0 < maxBytes")
    case True
    then have "within maxBytes 0 r total_size"
      using extractParts_within [OF assms(1) True assms(2)] leaf_within [OF assms(1) True assms(2)]
      by (simp add: r_def del: extractParts.simps)
    with True show ?thesis
      unfolding ext within_def by (auto simp: total_size_def split: prod.splits sum.splits mailparse_error.splits)
  next
    case False
    then have "not_too_big ?multi" "not_too_big ?leaf"
      by (simp_all only: not_less extractParts_unlimited leaf_unlimited)
    then have "not_too_big r" unfolding r_def by simp
    with False show ?thesis
      unfolding ext not_too_big_def by (auto split: sum.splits mailparse_error.splits)
  qed
qed

text \<open>A multipart mail with two attachments of three bytes each: both are extracted within a limit of six bytes, and five are too few.\<close>

definition toy_lib :: "string mime_lib" where
  "toy_lib = \<lparr>ParseMediaType = (\<lambda>s. (s, [(''boundary'', ''x'')], s = [])),
     RawParts = (\<lambda>body _. (replicate 2 \<lparr>part_Header = (\<lambda>k. if k = ''Content-Type'' then ''application/gzip'' else if k = ''Content-Disposition'' then ''attachment'' else []),
       part_Body = body\<rparr>, False)),
     PlainReads = (\<lambda>_. ([''abc''], False)), Base64Reads = (\<lambda>_. ([], False)), DecodeHeader = Some\<rparr>"

definition toy_mail :: "string part" where
  "toy_mail = \<lparr>part_Header = (\<lambda>_. ''multipart/mixed''), part_Body = []\<rparr>"

theorem ExtractAttachments_size_witness:
  "(\<exists>atts. ExtractAttachments toy_lib toy_mail 6 = Inr atts \<and> map Content atts = [''abc'', ''abc''] \<and> total_size atts \<le> 6)
   \<and> (\<exists>a. ExtractAttachments toy_lib toy_mail 5 = Inl (ErrSizeLimitExceeded 5 a) \<and> 5 < a)"
proof -
  have "reads_fit toy_lib" by (simp add: reads_fit_def toy_lib_def)
  note size = ExtractAttachments_size [OF this, of _ toy_mail]
  have 6: "case ExtractAttachments toy_lib toy_mail 6 of Inr atts \<Rightarrow> map Content atts = [''abc'', ''abc''] | _ \<Rightarrow> False" by code_simp
  have 5: "case ExtractAttachments toy_lib toy_mail 5 of Inl (ErrSizeLimitExceeded l a) \<Rightarrow> True | _ \<Rightarrow> False" by code_simp
  from 6 5 size [of 6] size [of 5] show ?thesis by (auto split: sum.splits mailparse_error.splits)
qed

end
