(* ===== verification/Cmd_Runner.thy ===== *)
theory Cmd_Runner
  imports Cmd_Recover Store_Emails Notify_Handler Config Imap_Client Mailparse
begin

text \<open>
  What the runners of the subcommands share (\<^verbatim>\<open>cmd/tlsrpt-digest/boot.go\<close>, \<^verbatim>\<open>main.go\<close>, \<^verbatim>\<open>notify_helpers.go\<close>): a state of
  files, network, notifier and mail client, the operations on it, and the notifications they
  log. The libraries below the program are fields of an environment: the mail server, the message, media-type,
  gzip and JSON decoders, sorting and printing. Names of servers and mailboxes are ASCII in notifications.
\<close>

section \<open>State\<close>

record notificationSink =
  handlers :: "SlackHandler list"
  sink_dryRun :: bool

record cmd_state =
  cs_world :: "content world"
  cs_net :: net
  cs_sink :: notificationSink
  cs_client :: imapClient

type_synonym 'a cmd = "(cmd_state, 'a) prog"

record 'b env =
  env_server :: imap_server
  env_osReadFile :: "string \<Rightarrow> string + string"
  env_pem :: "string \<Rightarrow> bool"
  env_dial :: "string \<Rightarrow> tlsConfig \<Rightarrow> string option"
  env_username :: string
  env_password :: string
  env_readMessage :: "string \<Rightarrow> 'b part option"
  env_mime :: "'b mime_lib"
  env_gunzip :: "string \<Rightarrow> gzip_stream option"
  env_unmarshal :: "string \<Rightarrow> Report option"
  env_sort :: sort_details
  env_render :: "slog_value \<Rightarrow> gotext"
  env_json :: "content \<Rightarrow> string"

text \<open>The bytes of a file: raw ones, or a document as the JSON encoder writes it.\<close>

definition content_bytes :: "'b env \<Rightarrow> content \<Rightarrow> string" where
  "content_bytes env c = (case c of CRaw s \<Rightarrow> s | _ \<Rightarrow> env_json env c)"

definition onStore :: "'a store_io \<Rightarrow> 'a cmd" where
  "onStore m s = (let (r, w) = m (cs_world s) in (r, s\<lparr>cs_world := w\<rparr>))"

definition onImap :: "'a imap_op \<Rightarrow> 'a cmd" where
  "onImap m s = (let (r, c) = m (cs_client s) in (case r of Inl e \<Rightarrow> Err e | Inr a \<Rightarrow> Ok a, s\<lparr>cs_client := c\<rparr>))"

text \<open>Connecting continues the history of commands and replaces the client.\<close>

definition connect :: "'b env \<Rightarrow> imapConfig \<Rightarrow> unit cmd" where
  "connect env cfg s =
     (case NewIMAPClient (env_osReadFile env) (env_pem env) (env_dial env) (env_server env) cfg (trace (cs_client s)) of
        (Inl err, h) \<Rightarrow> (Err err, s\<lparr>cs_client := (cs_client s)\<lparr>trace := h\<rparr>\<rparr>)
      | (Inr c, h) \<Rightarrow> (Ok (), s\<lparr>cs_client := c\<rparr>))"

section \<open>Options\<close>

record cliOptions = recoverOptions +
  ConfigPath :: string
  DryRun :: bool
  Since :: "Duration option"
  Window :: "Duration option"
  Before :: "Duration option"
  MaxEmailAge :: "Duration option"
  ReprocessNotify :: bool

record BootContext =
  boot_Config :: Config
  boot_Options :: cliOptions
  boot_Store :: fileStore

definition storeIdentity :: "Config \<Rightarrow> IMAPIdentity" where
  "storeIdentity cfg = \<lparr>identity_Host = imap_Host (cfg_IMAP cfg), identity_Port = imap_Port (cfg_IMAP cfg), identity_Mailbox = imap_Mailbox (cfg_IMAP cfg)\<rparr>"

definition mailboxID :: "Config \<Rightarrow> string" where
  "mailboxID cfg = imap_Host (cfg_IMAP cfg) @ '':'' @ dec_int (imap_Port (cfg_IMAP cfg)) @ ''/'' @ imap_Mailbox (cfg_IMAP cfg)"

definition buildIMAPConfig :: "Config \<Rightarrow> string \<Rightarrow> string \<Rightarrow> imapConfig" where
  "buildIMAPConfig cfg username password =
     \<lparr>conf_Host = imap_Host (cfg_IMAP cfg), conf_Port = imap_Port (cfg_IMAP cfg), conf_Username = username, conf_Password = password,
      conf_Mailbox = imap_Mailbox (cfg_IMAP cfg), conf_TLSCACert = imap_TLSCACert (cfg_IMAP cfg),
      conf_MaxMessageBytes = imap_MaxMessageBytes (cfg_IMAP cfg), conf_InsecureSkipVerify = False\<rparr>"

section \<open>The notification sink\<close>

text \<open>Logging to every handler cannot fail; flushing goes on after an error and reports it. A panic ends the process.\<close>

definition sink_each :: "(SlackHandler \<Rightarrow> SlackHandler) \<Rightarrow> unit cmd" where
  "sink_each f s = (Ok (), s\<lparr>cs_sink := (cs_sink s)\<lparr>handlers := map f (handlers (cs_sink s))\<rparr>\<rparr>)"

definition sink_LogAlert :: "'b env \<Rightarrow> Alert \<Rightarrow> unit cmd" where
  "sink_LogAlert env a = sink_each (\<lambda>h. LogAlert (env_sort env) h a)"

definition sink_LogWarning :: "Warning \<Rightarrow> unit cmd" where
  "sink_LogWarning w = sink_each (\<lambda>h. LogWarning h w)"

definition sink_LogSystemError :: "SystemError \<Rightarrow> unit cmd" where
  "sink_LogSystemError e = sink_each (\<lambda>h. LogSystemError h e)"

definition sink_LogSummary :: "Summary \<Rightarrow> unit cmd" where
  "sink_LogSummary sm = sink_each (\<lambda>h. LogSummary h sm)"

fun flush_all :: "(slog_value \<Rightarrow> gotext) \<Rightarrow> SlackHandler list \<Rightarrow> net \<Rightarrow> (notify_error list \<times> net \<times> SlackHandler list) option" where
  "flush_all render [] n = Some ([], n, [])"
| "flush_all render (h # hs) n =
     (case Flush render h n of
        None \<Rightarrow> None
      | Some (errs, n1, h') \<Rightarrow>
          (case flush_all render hs n1 of
             None \<Rightarrow> None
           | Some (errs', n2, hs') \<Rightarrow> Some (errs @ errs', n2, h' # hs')))"

definition sink_Flush :: "'b env \<Rightarrow> unit cmd" where
  "sink_Flush env s =
     (case flush_all (env_render env) (handlers (cs_sink s)) (cs_net s) of
        None \<Rightarrow> (Crashed, s)
      | Some (errs, n, hs) \<Rightarrow>
          (if errs = [] then Ok () else Err ErrNotify, s\<lparr>cs_net := n, cs_sink := (cs_sink s)\<lparr>handlers := hs\<rparr>\<rparr>))"

datatype setup_error = errSlackWebhookURLRequired | WebhookError webhook_error

definition setupNotifyHandlers ::
    "(string \<Rightarrow> parsed_url option) \<Rightarrow> string \<Rightarrow> string \<Rightarrow> Config \<Rightarrow> gotext \<Rightarrow> bool \<Rightarrow> setup_error + notificationSink" where
  "setupNotifyHandlers urlParse successURL errorURL cfg runID dryRun =
     (if \<not> dryRun \<and> successURL = [] \<and> errorURL = [] then Inl errSlackWebhookURLRequired
      else case BuildHandlers urlParse successURL errorURL (slack_AllowedHost (notify_Slack (cfg_Notify cfg)))
          \<lparr>WebhookURL = [], AllowedHost = slack_AllowedHost (notify_Slack (cfg_Notify cfg)), RunID = runID,
           opt_LevelMode = LevelModeOther [], opt_IsDryRun = dryRun, opt_BackoffConfig = DefaultBackoffConfig\<rparr> of
        Inl err \<Rightarrow> Inl (WebhookError err)
      | Inr hs \<Rightarrow> Inr \<lparr>handlers = hs, sink_dryRun = dryRun\<rparr>)"

section \<open>Notifications of the runners\<close>

text \<open>The shape of the four \<^verbatim>\<open>notify<Runner>SystemError\<close> functions; every caller logs their error and goes on.\<close>

definition notifyComponent :: "'b env \<Rightarrow> string \<Rightarrow> SystemErrorKind \<Rightarrow> string \<Rightarrow> unit cmd" where
  "notifyComponent env component kind mailbox =
     bestEffort (bindIO (sink_LogSystemError \<lparr>syserr_Kind = kind, syserr_Component = runes component, syserr_Mailbox = runes mailbox\<rparr>) (\<lambda>_.
       sink_Flush env))"

definition logWarn :: "WarningKind \<Rightarrow> u32 \<Rightarrow> u32 \<Rightarrow> gotext \<Rightarrow> unit cmd" where
  "logWarn kind uid uidValidity messageID =
     sink_LogWarning \<lparr>warning_Kind = kind, warning_UID = uid, warning_UIDValidity = uidValidity, warning_MessageID = messageID\<rparr>"

definition alert_detail :: "FailureDetail \<Rightarrow> notifyFailureDetail" where
  "alert_detail fd = \<lparr>fd_ResultType = ResultType fd, fd_FailedSessionCount = FailedSessionCount fd,
     fd_ReceivingMXHostname = ReceivingMXHostname fd, fd_FailureReasonCode = FailureReasonCode fd\<rparr>"

definition policy_alert :: "Report \<Rightarrow> PolicyRecord \<Rightarrow> Alert" where
  "policy_alert report p =
     \<lparr>alert_OrganizationName = OrganizationName report, alert_PolicyType = PolicyType (policy p),
      FailureCount = TotalFailureSessionCount (policy_summary p),
      alert_DateRange = \<lparr>range_Start = StartDatetime (dateRange report), range_End = EndDatetime (dateRange report)\<rparr>,
      alert_ReportID = ReportID report, alert_FailureDetails = map alert_detail (FailureDetails p),
      FailureDetailsTotalCount = 0, FailureDetailsTotalSessions = 0\<rparr>"

fun alert_loop :: "'b env \<Rightarrow> Report \<Rightarrow> PolicyRecord list \<Rightarrow> unit cmd" where
  "alert_loop env report [] = ret ()"
| "alert_loop env report (p # ps) =
     (if TotalFailureSessionCount (policy_summary p) \<le> 0 then alert_loop env report ps
      else bindIO (sink_LogAlert env (policy_alert report p)) (\<lambda>_. alert_loop env report ps))"

definition logAlerts :: "'b env \<Rightarrow> Report \<Rightarrow> unit cmd" where
  "logAlerts env report = alert_loop env report (policy_records report)"

section \<open>Attachments\<close>

text \<open>\<open>None\<close> is an attachment that is no TLSRPT report.\<close>

definition parseTLSRPTAttachment :: "'b env \<Rightarrow> Attachment \<Rightarrow> (tlsrpt_error + Report) option" where
  "parseTLSRPTAttachment env att =
     (let ct = to_lower (ContentType att); fn = to_lower (Filename att) in
      if ct = ''application/tlsrpt+gzip'' then Some (ParseGzip (env_gunzip env) (env_unmarshal env) (Content att))
      else if ct = ''application/tlsrpt+json'' then Some (ParseJSON (env_unmarshal env) (Content att))
      else if has_suffix fn ''.json.gz'' then Some (ParseGzip (env_gunzip env) (env_unmarshal env) (Content att))
      else if has_suffix fn ''.json'' then Some (ParseJSON (env_unmarshal env) (Content att))
      else None)"

end
