(* ===== verification/Cmd_Fetch.thy ===== *)
theory Cmd_Fetch
  imports Cmd_Runner
begin

text \<open>
  \<^verbatim>\<open>cmd/tlsrpt-digest/fetch.go\<close>: the runner of the \<^verbatim>\<open>fetch\<close> subcommand, in the order of its steps. A run ends in
  an exit code or in an error, which is exit code 1. The context is that of \<^verbatim>\<open>main\<close>, which is never
  cancelled. Log output is not modelled; the dry-run summary consists of nothing else. The directory that the code takes
  from the configuration is the one the store is opened on.
\<close>

section \<open>Messages\<close>

record fetchMsgState =
  st_meta :: MessageMeta
  emlExistedBefore :: bool
  rawEML :: "string option"

definition fetchEmailPath :: "path \<Rightarrow> u32 \<Rightarrow> u32 \<Rightarrow> gotime \<Rightarrow> path" where
  "fetchEmailPath root uid uidValidity internalDate =
     root @ [''emails'', dec_string (unat uidValidity), format_200601 internalDate, zero_pad 10 (dec_string (unat uid)) @ ''.eml'']"

text \<open>The size of the local mail, if there is one.\<close>

definition localEmailSize :: "'b env \<Rightarrow> path \<Rightarrow> u32 \<Rightarrow> u32 \<Rightarrow> gotime \<Rightarrow> int option store_io" where
  "localEmailSize env root uid uidValidity internalDate =
     bindIO (attempt (stat (fetchEmailPath root uid uidValidity internalDate))) (\<lambda>r. case r of
       Inl err \<Rightarrow> if is_not_exist err then ret None else fail err
     | Inr info \<Rightarrow> (case info of Dir m \<Rightarrow> ret None | Reg m c \<Rightarrow> ret (Some (int (length (content_bytes env c))))))"

definition loadLocalEML :: "'b env \<Rightarrow> path \<Rightarrow> u32 \<Rightarrow> u32 \<Rightarrow> gotime \<Rightarrow> string store_io" where
  "loadLocalEML env root uid uidValidity internalDate =
     bindIO (readFile (fetchEmailPath root uid uidValidity internalDate)) (\<lambda>c. ret (content_bytes env c))"

definition fetchSince :: "cliOptions \<Rightarrow> Config \<Rightarrow> gotime \<Rightarrow> gotime" where
  "fetchSince opt cfg now = (case Since opt of Some d \<Rightarrow> Cutoff d now | None \<Rightarrow> Cutoff \<lparr>Days = imap_FetchDays (cfg_IMAP cfg)\<rparr> now)"

definition classifyIMAPClientError :: "string \<Rightarrow> SystemErrorKind" where
  "classifyIMAPClientError text =
     (if sublist ''login'' text then SystemErrorKindIMAPAuthFailed else SystemErrorKindIMAPConnectFailed)"

definition notifyFetchSystemError :: "'b env \<Rightarrow> SystemErrorKind \<Rightarrow> string \<Rightarrow> unit cmd" where
  "notifyFetchSystemError env kind mailbox = notifyComponent env ''fetch'' kind mailbox"

fun buildEmailMetas :: "fetchMsgState list \<Rightarrow> u32 \<Rightarrow> EmailMeta list" where
  "buildEmailMetas [] currentUID = []"
| "buildEmailMetas (s # ss) currentUID =
     (if emlExistedBefore s \<or> rawEML s \<noteq> None
      then \<lparr>meta_UID = mm_UID (st_meta s), meta_UIDValidity = currentUID, meta_InternalDate = mm_Date (st_meta s)\<rparr> # buildEmailMetas ss currentUID
      else buildEmailMetas ss currentUID)"

definition collectUnseenUIDs :: "fetchMsgState list \<Rightarrow> u32 list" where
  "collectUnseenUIDs states = map (\<lambda>s. mm_UID (st_meta s)) (filter (\<lambda>s. \<not> mm_Seen (st_meta s)) states)"

section \<open>Steps\<close>

text \<open>\<open>None\<close> is \<^verbatim>\<open>fetchContinue\<close>.\<close>

definition fetchValidateUID :: "'b env \<Rightarrow> BootContext \<Rightarrow> gotime \<Rightarrow> u32 \<Rightarrow> string \<Rightarrow> int option cmd" where
  "fetchValidateUID env boot now currentUID mailbox =
     bindIO (attempt (onStore (LoadUIDValidity (boot_Store boot)))) (\<lambda>r. case r of
       Inl err \<Rightarrow>
         bindIO (notifyFetchSystemError env SystemErrorKindStoreCorruption mailbox) (\<lambda>_. fail (Wrap ''fetch: load uidvalidity'' err))
     | Inr None \<Rightarrow>
         if DryRun (boot_Options boot) then ret None
         else bindIO (attempt (onStore (SaveUIDValidity (boot_Store boot) currentUID))) (\<lambda>r. case r of
           Inl err \<Rightarrow>
             bindIO (notifyFetchSystemError env SystemErrorKindStoreCorruption mailbox) (\<lambda>_. fail (Wrap ''fetch: save uidvalidity'' err))
         | Inr _ \<Rightarrow> ret None)
     | Inr (Some storedUID) \<Rightarrow>
         if storedUID \<noteq> currentUID then
           bindIO (if DryRun (boot_Options boot) then ret (Inr ())
                   else attempt (onStore (SaveRecoveryRequired (boot_Store boot) storedUID currentUID now))) (\<lambda>r. case r of
             Inl saveErr \<Rightarrow>
               bindIO (notifyFetchSystemError env SystemErrorKindStoreCorruption mailbox) (\<lambda>_. fail (Wrap ''fetch: save recovery-required'' saveErr))
           | Inr _ \<Rightarrow>
               bindIO (notifyFetchSystemError env SystemErrorKindUIDValidityChanged mailbox) (\<lambda>_. ret (Some exitError)))
         else ret None)"

fun buildFetchStates :: "'b env \<Rightarrow> MessageMeta list \<Rightarrow> u32 \<Rightarrow> path \<Rightarrow> fetchMsgState list cmd" where
  "buildFetchStates env [] currentUID root = ret []"
| "buildFetchStates env (meta # msgs) currentUID root =
     bindIO (wrapErr ''fetch: check local email size'' (onStore (localEmailSize env root (mm_UID meta) currentUID (mm_Date meta)))) (\<lambda>localSize.
     bindIO (case localSize of
         Some n \<Rightarrow> if n \<noteq> uint (mm_Size meta) then logWarn WarningKindSizeMismatch (mm_UID meta) currentUID (mm_MessageID meta) else ret ()
       | None \<Rightarrow> ret ()) (\<lambda>_.
     bindIO (buildFetchStates env msgs currentUID root) (\<lambda>states.
     ret (\<lparr>st_meta = meta, emlExistedBefore = localSize \<noteq> None, rawEML = None\<rparr> # states))))"

fun save_loop ::
    "'b env \<Rightarrow> BootContext \<Rightarrow> (u32 \<rightharpoonup> string) \<Rightarrow> u32 \<Rightarrow> string \<Rightarrow> fetchMsgState list \<Rightarrow> fetchMsgState list cmd" where
  "save_loop env boot downloaded currentUID mailbox [] = ret []"
| "save_loop env boot downloaded currentUID mailbox (s # ss) =
     (if emlExistedBefore s
      then bindIO (save_loop env boot downloaded currentUID mailbox ss) (\<lambda>ss'. ret (s # ss'))
      else case downloaded (mm_UID (st_meta s)) of
        None \<Rightarrow>
          bindIO (notifyFetchSystemError env SystemErrorKindIMAPOperationFailed mailbox) (\<lambda>_.
          fail (Wrap ''fetch'' (ErrFetchDownloadMissingUID (mm_UID (st_meta s)))))
      | Some raw \<Rightarrow>
          bindIO (if int (length raw) \<noteq> uint (mm_Size (st_meta s))
                  then logWarn WarningKindSizeMismatch (mm_UID (st_meta s)) currentUID (mm_MessageID (st_meta s)) else ret ()) (\<lambda>_.
          bindIO (wrapErr ''fetch: save email'' (onStore (SaveEmail (boot_Store boot) (mm_UID (st_meta s)) currentUID (mm_Date (st_meta s)) raw))) (\<lambda>_.
          bindIO (save_loop env boot downloaded currentUID mailbox ss) (\<lambda>ss'. ret (s\<lparr>rawEML := Some raw\<rparr> # ss')))))"

definition fetchDownloadAndSave :: "'b env \<Rightarrow> BootContext \<Rightarrow> fetchMsgState list \<Rightarrow> u32 \<Rightarrow> string \<Rightarrow> fetchMsgState list cmd" where
  "fetchDownloadAndSave env boot states currentUID mailbox =
     (let downloadUIDs = map (\<lambda>s. mm_UID (st_meta s)) (filter (\<lambda>s. \<not> emlExistedBefore s) states) in
      if downloadUIDs = [] then ret states
      else bindIO (attempt (onImap (Download (env_server env) False downloadUIDs))) (\<lambda>r. case r of
        Inl err \<Rightarrow>
          bindIO (notifyFetchSystemError env SystemErrorKindIMAPOperationFailed mailbox) (\<lambda>_. fail (Wrap ''fetch: download'' err))
      | Inr downloaded \<Rightarrow> save_loop env boot downloaded currentUID mailbox states))"

fun attachment_loop :: "'b env \<Rightarrow> MessageMeta \<Rightarrow> u32 \<Rightarrow> Attachment list \<Rightarrow> ReportInput list cmd" where
  "attachment_loop env meta currentUID [] = ret []"
| "attachment_loop env meta currentUID (att # atts) =
     (case parseTLSRPTAttachment env att of
        None \<Rightarrow> attachment_loop env meta currentUID atts
      | Some (Inl err) \<Rightarrow>
          bindIO (logWarn WarningKindParseFailure (mm_UID meta) currentUID (mm_MessageID meta)) (\<lambda>_. attachment_loop env meta currentUID atts)
      | Some (Inr report) \<Rightarrow>
          bindIO (if \<not> mm_Seen meta \<and> HasFailure report then logAlerts env report else ret ()) (\<lambda>_.
          bindIO (attachment_loop env meta currentUID atts) (\<lambda>reports.
          ret (\<lparr>input_Report = report, input_UID = mm_UID meta, input_UIDValidity = currentUID\<rparr> # reports))))"

definition processAttachments :: "'b env \<Rightarrow> Attachment list \<Rightarrow> fetchMsgState \<Rightarrow> u32 \<Rightarrow> ReportInput list cmd" where
  "processAttachments env attachments s currentUID = attachment_loop env (st_meta s) currentUID attachments"

text \<open>The parsing of one message whose bytes are at hand.\<close>

definition collectMessage :: "'b env \<Rightarrow> BootContext \<Rightarrow> fetchMsgState \<Rightarrow> u32 \<Rightarrow> string \<Rightarrow> ReportInput list cmd" where
  "collectMessage env boot s currentUID raw =
     (case env_readMessage env raw of
        None \<Rightarrow> bindIO (logWarn WarningKindParseFailure (mm_UID (st_meta s)) currentUID (mm_MessageID (st_meta s))) (\<lambda>_. ret [])
      | Some parsedMsg \<Rightarrow>
          (case ExtractAttachments (env_mime env) parsedMsg (imap_MaxMessageBytes (cfg_IMAP (boot_Config boot))) of
             Inl err \<Rightarrow> bindIO (logWarn WarningKindParseFailure (mm_UID (st_meta s)) currentUID (mm_MessageID (st_meta s))) (\<lambda>_. ret [])
           | Inr attachments \<Rightarrow> processAttachments env attachments s currentUID))"

fun fetchCollectReports :: "'b env \<Rightarrow> BootContext \<Rightarrow> fetchMsgState list \<Rightarrow> u32 \<Rightarrow> path \<Rightarrow> ReportInput list cmd" where
  "fetchCollectReports env boot [] currentUID root = ret []"
| "fetchCollectReports env boot (s # ss) currentUID root =
     (if mm_Seen (st_meta s) \<and> emlExistedBefore s then fetchCollectReports env boot ss currentUID root
      else if rawEML s = None \<and> (\<not> emlExistedBefore s \<or> mm_Seen (st_meta s)) then fetchCollectReports env boot ss currentUID root
      else
        bindIO (case rawEML s of
            Some raw \<Rightarrow> ret raw
          | None \<Rightarrow> wrapErr ''fetch: load local eml'' (onStore (loadLocalEML env root (mm_UID (st_meta s)) currentUID (mm_Date (st_meta s))))) (\<lambda>raw.
        bindIO (collectMessage env boot s currentUID raw) (\<lambda>reports.
        bindIO (fetchCollectReports env boot ss currentUID root) (\<lambda>reports'. ret (reports @ reports')))))"

definition fetchMarkSeen :: "'b env \<Rightarrow> fetchMsgState list \<Rightarrow> unit cmd" where
  "fetchMarkSeen env states =
     (let unseenUIDs = collectUnseenUIDs states in
      if unseenUIDs = [] then ret ()
      else bindIO (attempt (onImap (MarkSeen (env_server env) False unseenUIDs))) (\<lambda>r. case r of
        Inr _ \<Rightarrow> ret ()
      | Inl err \<Rightarrow>
          if errors_Is err ErrMailboxReadOnly
          then bindIO (logWarn WarningKindMailboxReadOnly 0 0 []) (\<lambda>_. bestEffort (sink_Flush env))
          else fail (Wrap ''fetch: mark seen'' err)))"

definition fetchDryRunExit :: "'b env \<Rightarrow> int cmd" where
  "fetchDryRunExit env = bindIO (bestEffort (sink_Flush env)) (\<lambda>_. ret exitOK)"

section \<open>The run\<close>

text \<open>Steps 8 to 14, on the messages that now have a local mail.\<close>

definition fetchCommit :: "'b env \<Rightarrow> BootContext \<Rightarrow> fetchMsgState list \<Rightarrow> u32 \<Rightarrow> int cmd" where
  "fetchCommit env boot states currentUID =
     bindIO (wrapErr ''fetch: save email metas'' (onStore (SaveEmailMetas (boot_Store boot) (buildEmailMetas states currentUID)))) (\<lambda>_.
     bindIO (fetchCollectReports env boot states currentUID (rootDir (boot_Store boot))) (\<lambda>reports.
     bindIO (wrapErr ''fetch: save reports'' (onStore (SaveReports (boot_Store boot) reports))) (\<lambda>_.
     bindIO (wrapErr ''fetch: flush'' (sink_Flush env)) (\<lambda>_.
     bindIO (fetchMarkSeen env states) (\<lambda>_.
     bindIO (wrapErr ''fetch: save uidvalidity'' (onStore (SaveUIDValidity (boot_Store boot) currentUID))) (\<lambda>_.
     ret exitOK))))))"

text \<open>Steps 4 to 14, on an open connection.\<close>

definition fetchSession :: "'b env \<Rightarrow> BootContext \<Rightarrow> gotime \<Rightarrow> string \<Rightarrow> int cmd" where
  "fetchSession env boot now mailbox =
     bindIO (attempt (onImap (FetchMeta (env_server env) False (fetchSince (boot_Options boot) (boot_Config boot) now)))) (\<lambda>r. case r of
       Inl err \<Rightarrow>
         bindIO (notifyFetchSystemError env SystemErrorKindIMAPOperationFailed mailbox) (\<lambda>_. fail (Wrap ''fetch: fetch meta'' err))
     | Inr fetchResult \<Rightarrow>
         let currentUID = res_UIDValidity fetchResult in
         bindIO (fetchValidateUID env boot now currentUID mailbox) (\<lambda>code. case code of
           Some c \<Rightarrow> ret c
         | None \<Rightarrow>
             bindIO (buildFetchStates env (Messages fetchResult) currentUID (rootDir (boot_Store boot))) (\<lambda>states.
             if DryRun (boot_Options boot) then fetchDryRunExit env
             else bindIO (fetchDownloadAndSave env boot states currentUID mailbox) (\<lambda>states'.
               fetchCommit env boot states' currentUID))))"

definition fetchRun :: "'b env \<Rightarrow> BootContext \<Rightarrow> int cmd" where
  "fetchRun env boot =
     bindIO (onStore getNow) (\<lambda>now.
     let mailbox = mailboxID (boot_Config boot) in
     bindIO (attempt (onStore (LoadRecoveryRequired (boot_Store boot)))) (\<lambda>r. case r of
       Inl err \<Rightarrow>
         bindIO (notifyFetchSystemError env SystemErrorKindStoreCorruption mailbox) (\<lambda>_. fail (Wrap ''fetch: load recovery-required'' err))
     | Inr (Some _) \<Rightarrow>
         bindIO (notifyFetchSystemError env SystemErrorKindRecoveryRequired mailbox) (\<lambda>_. ret exitError)
     | Inr None \<Rightarrow>
         if env_username env = [] \<or> env_password env = []
         then bindIO (notifyFetchSystemError env SystemErrorKindIMAPCredentialsMissing mailbox) (\<lambda>_. ret exitError)
         else bindIO (attempt (connect env (buildIMAPConfig (boot_Config boot) (env_username env) (env_password env)))) (\<lambda>r. case r of
           Inl err \<Rightarrow>
             bindIO (notifyFetchSystemError env (classifyIMAPClientError (error_text err)) mailbox) (\<lambda>_. fail (Wrap ''fetch: create imap client'' err))
         | Inr _ \<Rightarrow> deferIO (onImap (Close (env_server env))) (fetchSession env boot now mailbox))))"

end
