(* ===== verification/Notify_Summary.thy ===== *)
theory Notify_Summary
  imports Notify_Format Store_Reports
begin

text \<open>
  \<^verbatim>\<open>internal/notify/aggregate.go\<close>: the totals of a period from the stored reports. The argument \<open>ctxErr\<close> says
  whether the context is done when it is looked at for the \<open>i\<close>th time. The partial summary that comes
  with an error is not kept: no caller uses it.
\<close>

definition inSummaryPeriod :: "Report \<Rightarrow> gotime \<Rightarrow> gotime \<Rightarrow> bool" where
  "inSummaryPeriod report start end' \<longleftrightarrow> \<not> EndDatetime (dateRange report) < start \<and> EndDatetime (dateRange report) < end'"

definition successfulSessionCount :: "Report \<Rightarrow> int" where
  "successfulSessionCount report = sum64 0 (map (\<lambda>p. TotalSuccessfulSessionCount (policy_summary p)) (policy_records report))"

definition add_stat :: "gotext \<Rightarrow> int \<Rightarrow> org_stats \<Rightarrow> org_stats" where
  "add_stat k n st = stats_set k (wrap64 (stats_get k st + n)) st"

fun summary_loop :: "(nat \<Rightarrow> bool) \<Rightarrow> nat \<Rightarrow> gotime \<Rightarrow> gotime \<Rightarrow> Report list \<Rightarrow> Summary \<Rightarrow> Summary option" where
  "summary_loop ctxErr i start end' [] s = Some s"
| "summary_loop ctxErr i start end' (report # reports) s =
     (if ctxErr i then None
      else if \<not> inSummaryPeriod report start end' then summary_loop ctxErr (i + 1) start end' reports s
      else if HasFailure report then summary_loop ctxErr (i + 1) start end' reports s
      else summary_loop ctxErr (i + 1) start end' reports
        (s\<lparr>ReportCount := wrap64 (ReportCount s + 1),
           OrganizationStats := add_stat (OrganizationName report) (successfulSessionCount report) (OrganizationStats s)\<rparr>))"

definition GenerateSummary :: "(nat \<Rightarrow> bool) \<Rightarrow> fileStore \<Rightarrow> gotime \<Rightarrow> gotime \<Rightarrow> Summary store_io" where
  "GenerateSummary ctxErr st start end' =
     (if ctxErr 0 then fail (Wrap ''GenerateSummary'' ErrContextDone)
      else bindIO (wrapErr ''GenerateSummary'' (GetAllReports st)) (\<lambda>reports.
        case summary_loop ctxErr 1 start end' reports
            \<lparr>Period = \<lparr>range_Start = start, range_End = end'\<rparr>, OrganizationStats = [], ReportCount = 0\<rparr> of
          None \<Rightarrow> fail (Wrap ''GenerateSummary'' ErrContextDone)
        | Some s \<Rightarrow> ret s))"

section \<open>The totals\<close>

lemma stats_set_facts:
  "set (map fst (stats_set k n st)) = insert k (set (map fst st))"
  "distinct (map fst st) \<Longrightarrow> distinct (map fst (stats_set k n st))"
  "stats_get j (stats_set k n st) = (if j = k then n else stats_get j st)"
proof (induction st)
  case (Cons x st)
  { case 1 show ?case using Cons.IH(1) by auto }
  { case 2 then show ?case using Cons.IH(1,2) by auto }
  { case 3 then show ?case using Cons.IH(3) by (cases x) (auto simp: stats_get_def) }
qed (simp_all add: stats_get_def)

definition counted :: "gotime \<Rightarrow> gotime \<Rightarrow> Report \<Rightarrow> bool" where
  "counted start end' r \<longleftrightarrow> start \<le> EndDatetime (dateRange r) \<and> EndDatetime (dateRange r) < end' \<and> \<not> HasFailure r"

definition sessions :: "Report \<Rightarrow> int" where
  "sessions r = sum_list (map (\<lambda>p. TotalSuccessfulSessionCount (policy_summary p)) (policy_records r))"

lemma zero_in_range [simp]: "int64_range 0"
  by (simp add: int64_range_def)

lemma successfulSessionCount_wrap: "successfulSessionCount r = wrap64 (sessions r)"
  by (simp add: successfulSessionCount_def sessions_def sum64_wrap)

lemma summary_loop_spec:
  assumes "\<And>j. \<not> ctxErr j" "int64_range (ReportCount s)" "\<And>k. int64_range (stats_get k (OrganizationStats s))" "distinct (map fst (OrganizationStats s))"
  shows "\<exists>s'. summary_loop ctxErr i start end' rs s = Some s' \<and> Period s' = Period s
    \<and> ReportCount s' = wrap64 (ReportCount s + int (length (filter (counted start end') rs)))
    \<and> distinct (map fst (OrganizationStats s'))
    \<and> set (map fst (OrganizationStats s')) = set (map fst (OrganizationStats s)) \<union> OrganizationName ` set (filter (counted start end') rs)
    \<and> (\<forall>k. stats_get k (OrganizationStats s') =
         wrap64 (stats_get k (OrganizationStats s) + sum_list (map sessions (filter (\<lambda>r. counted start end' r \<and> OrganizationName r = k) rs))))"
  using assms(2-)
proof (induction rs arbitrary: i s)
  case Nil
  then show ?case by simp
next
  case (Cons r rs)
  show ?case
  proof (cases "counted start end' r")
    case False
    then show ?thesis using Cons.IH [OF Cons.prems, of "i + 1"] assms(1)
      by (auto simp: counted_def inSummaryPeriod_def not_less)
  next
    case True
    let ?s = "s\<lparr>ReportCount := wrap64 (ReportCount s + 1),
           OrganizationStats := add_stat (OrganizationName r) (successfulSessionCount r) (OrganizationStats s)\<rparr>"
    have step: "summary_loop ctxErr i start end' (r # rs) s = summary_loop ctxErr (i + 1) start end' rs ?s"
      using True assms(1) by (simp add: counted_def inSummaryPeriod_def)
    have "int64_range (ReportCount ?s)" "\<And>k. int64_range (stats_get k (OrganizationStats ?s))" "distinct (map fst (OrganizationStats ?s))"
      using Cons.prems by (simp_all add: add_stat_def stats_set_facts)
    from Cons.IH [OF this, of "i + 1"]
    obtain s' where 1: "summary_loop ctxErr (i + 1) start end' rs ?s = Some s'" "Period s' = Period s"
      "ReportCount s' = wrap64 (ReportCount s + 1 + int (length (filter (counted start end') rs)))"
      "distinct (map fst (OrganizationStats s'))"
      "set (map fst (OrganizationStats s')) = insert (OrganizationName r) (set (map fst (OrganizationStats s))) \<union> OrganizationName ` set (filter (counted start end') rs)"
      "\<And>k. stats_get k (OrganizationStats s') =
         wrap64 (stats_get k (OrganizationStats ?s) + sum_list (map sessions (filter (\<lambda>r. counted start end' r \<and> OrganizationName r = k) rs)))"
      by (auto simp: add_stat_def stats_set_facts simp del: set_map)
    have "stats_get k (OrganizationStats s') =
         wrap64 (stats_get k (OrganizationStats s) + sum_list (map sessions (filter (\<lambda>r. counted start end' r \<and> OrganizationName r = k) (r # rs))))" for k
      using True by (simp add: 1(6) add_stat_def stats_set_facts successfulSessionCount_wrap add.assoc)
    with 1 True show ?thesis unfolding step by (auto simp: algebra_simps)
  qed
qed

text \<open>
  C33. The summary of a period adds up the stored reports: it counts exactly the reports without failures
  whose range ends in the period, lists exactly their organizations, each once, and gives each the
  number of successful sessions over all policies of all those reports, as an int64 sum. It reads the store
  and changes nothing.
\<close>

theorem GenerateSummary_totals:
  assumes "clean (dataPath st)" "data_of st (view w) = Some df" "\<And>j. \<not> ctxErr j" "GenerateSummary ctxErr st start end' w = (Ok s, w')"
  defines "rs \<equiv> filter (counted start end') (df_Reports df)"
  shows "view w' = view w \<and> Period s = \<lparr>range_Start = start, range_End = end'\<rparr>
    \<and> ReportCount s = wrap64 (int (length rs))
    \<and> distinct (map fst (OrganizationStats s)) \<and> set (map fst (OrganizationStats s)) = OrganizationName ` set rs
    \<and> (\<forall>k. stats_get k (OrganizationStats s) = wrap64 (sum_list (map sessions (filter (\<lambda>r. OrganizationName r = k) rs))))"
proof -
  let ?s0 = "\<lparr>Period = \<lparr>range_Start = start, range_End = end'\<rparr>, OrganizationStats = [], ReportCount = 0\<rparr> :: Summary"
  have "vwp False (GenerateSummary ctxErr st start end') (\<lambda>s V. V = view w \<and> summary_loop ctxErr 1 start end' (df_Reports df) ?s0 = Some s)
      (\<lambda>_ _. True) (\<lambda>_. True) (view w)"
    unfolding GenerateSummary_def GetAllReports_def using assms(1-3) by (auto intro!: vc split: option.split)
  from vwp_cases [OF this _ assms(4)] have 1: "view w' = view w" "summary_loop ctxErr 1 start end' (df_Reports df) ?s0 = Some s"
    by (simp_all add: quiet_def)
  moreover have "filter (\<lambda>r. OrganizationName r = k) rs = filter (\<lambda>r. counted start end' r \<and> OrganizationName r = k) (df_Reports df)" for k
    unfolding rs_def by (simp add: conj_commute)
  ultimately show ?thesis
    using summary_loop_spec [where ctxErr = ctxErr and s = ?s0 and i = 1 and start = start and end' = end' and rs = "df_Reports df", OF assms(3)] by (simp add: stats_get_def rs_def)
qed

theorem GenerateSummary_totals_witness:
  "\<exists>s w'. GenerateSummary (\<lambda>_. False) sample_store 40 60 sample_world = (Ok s, w') \<and> ReportCount s = 1 \<and> view w' = view sample_world"
proof -
  have "is_ok (fst (GenerateSummary (\<lambda>_. False) sample_store 40 60 sample_world))" by code_simp
  then obtain s w' where run: "GenerateSummary (\<lambda>_. False) sample_store 40 60 sample_world = (Ok s, w')"
    by (cases "GenerateSummary (\<lambda>_. False) sample_store 40 60 sample_world") (auto simp: is_ok_def split: outcome.splits)
  have "filter (counted 40 60) (df_Reports sample_data) = [sample_report 1 50]" by code_simp
  with GenerateSummary_totals [OF sample_facts(1,3) _ run] run show ?thesis by (auto simp: wrap64_def)
qed

end
