(* ===== verification/Cmd_Gc.thy ===== *)
theory Cmd_Gc
  imports Cmd_Fetch Notify_Summary
begin

text \<open>
  \<^verbatim>\<open>cmd/tlsrpt-digest/gc.go\<close>, \<^verbatim>\<open>reprocess.go\<close> and \<^verbatim>\<open>summary.go\<close>: the runners that delete old data, parse the stored mails
  again and report totals. As for \<^verbatim>\<open>fetch\<close>, an error is exit code 1, the context is never cancelled and log
  output is not modelled.
\<close>

section \<open>Deleting old data\<close>

definition gcReportCutoff :: "cliOptions \<Rightarrow> Config \<Rightarrow> gotime \<Rightarrow> gotime" where
  "gcReportCutoff opt cfg now = (case Before opt of Some d \<Rightarrow> Cutoff d now | None \<Rightarrow> Cutoff \<lparr>Days = store_RetentionDays (cfg_Store cfg)\<rparr> now)"

definition gcEmailCutoff :: "cliOptions \<Rightarrow> Config \<Rightarrow> gotime \<Rightarrow> gotime" where
  "gcEmailCutoff opt cfg now = (case MaxEmailAge opt of Some d \<Rightarrow> Cutoff d now | None \<Rightarrow> Cutoff \<lparr>Days = store_MaxEmailAgeDays (cfg_Store cfg)\<rparr> now)"

definition gcNotifyKind :: "go_error \<Rightarrow> SystemErrorKind" where
  "gcNotifyKind err = (if errors_Is err ErrDataCorrupted then SystemErrorKindStoreCorruption else SystemErrorKindStorePermission)"

definition notifyGCSystemError :: "'b env \<Rightarrow> SystemErrorKind \<Rightarrow> string \<Rightarrow> unit cmd" where
  "notifyGCSystemError env kind mailbox = notifyComponent env ''gc'' kind mailbox"

text \<open>A step of which any error is reported and ends the run.\<close>

definition gcStep :: "'b env \<Rightarrow> (go_error \<Rightarrow> SystemErrorKind) \<Rightarrow> string \<Rightarrow> string \<Rightarrow> 'a cmd \<Rightarrow> 'a cmd" where
  "gcStep env kind ctx mailbox m =
     bindIO (attempt m) (\<lambda>r. case r of
       Inl err \<Rightarrow> bindIO (notifyGCSystemError env (kind err) mailbox) (\<lambda>_. fail (Wrap ctx err))
     | Inr a \<Rightarrow> ret a)"

text \<open>An error that comes with a count is an error.\<close>

definition joined :: "('a \<times> go_error list) store_io \<Rightarrow> 'a store_io" where
  "joined m = bindIO m (\<lambda>(a, errs). if errs = [] then ret a else fail (Join errs))"

definition deleteIMAPOlderThan :: "'b env \<Rightarrow> BootContext \<Rightarrow> string \<Rightarrow> string \<Rightarrow> string \<Rightarrow> gotime \<Rightarrow> int cmd" where
  "deleteIMAPOlderThan env boot mailbox username password cutoff =
     bindIO (gcStep env (\<lambda>err. classifyIMAPClientError (error_text err)) ''gc: create imap client'' mailbox
               (connect env (buildIMAPConfig (boot_Config boot) username password))) (\<lambda>_.
     deferIO (onImap (Close (env_server env)))
       (gcStep env (\<lambda>_. SystemErrorKindIMAPOperationFailed) ''gc: delete imap messages'' mailbox (onImap (DeleteOlderThan (env_server env) False cutoff))))"

definition runDelete ::
    "'b env \<Rightarrow> BootContext \<Rightarrow> string \<Rightarrow> gotime \<Rightarrow> gotime \<Rightarrow> gotime \<Rightarrow> bool \<Rightarrow> string \<Rightarrow> string \<Rightarrow> int cmd" where
  "runDelete env boot mailbox reportCutoff emailCutoff imapCutoff imapEnabled username password =
     bindIO (gcStep env gcNotifyKind ''gc: delete reports'' mailbox (onStore (DeleteReportsBefore (boot_Store boot) reportCutoff))) (\<lambda>reportDeleted.
     bindIO (gcStep env gcNotifyKind ''gc: delete emails'' mailbox (onStore (joined (DeleteEmailsBefore (boot_Store boot) emailCutoff)))) (\<lambda>emailDeleted.
     bindIO (if imapEnabled then deleteIMAPOlderThan env boot mailbox username password imapCutoff else ret 0) (\<lambda>imapDeleted.
     ret exitOK)))"

definition searchIMAPOlderThan :: "'b env \<Rightarrow> BootContext \<Rightarrow> string \<Rightarrow> string \<Rightarrow> string \<Rightarrow> gotime \<Rightarrow> u32 list cmd" where
  "searchIMAPOlderThan env boot mailbox username password cutoff =
     bindIO (gcStep env (\<lambda>err. classifyIMAPClientError (error_text err)) ''gc: create imap client'' mailbox
               (connect env (buildIMAPConfig (boot_Config boot) username password))) (\<lambda>_.
     deferIO (onImap (Close (env_server env)))
       (gcStep env (\<lambda>_. SystemErrorKindIMAPOperationFailed) ''gc: search imap messages'' mailbox (onImap (SearchOlderThan (env_server env) False cutoff))))"

definition runDryRun :: "'b env \<Rightarrow> BootContext \<Rightarrow> string \<Rightarrow> gotime \<Rightarrow> gotime \<Rightarrow> gotime \<Rightarrow> bool \<Rightarrow> int cmd" where
  "runDryRun env boot mailbox reportCutoff emailCutoff imapCutoff imapEnabled =
     bindIO (gcStep env gcNotifyKind ''gc: count reports'' mailbox (onStore (CountReportsBefore (boot_Store boot) reportCutoff))) (\<lambda>reportCount.
     bindIO (gcStep env gcNotifyKind ''gc: count emails'' mailbox (onStore (CountEmailsBefore (boot_Store boot) emailCutoff))) (\<lambda>emailCount.
     bindIO (if \<not> imapEnabled \<or> env_username env = [] \<or> env_password env = [] then ret []
             else searchIMAPOlderThan env boot mailbox (env_username env) (env_password env) imapCutoff) (\<lambda>imapUIDs.
     bindIO (bestEffort (sink_Flush env)) (\<lambda>_.
     ret exitOK))))"

definition gcAt :: "'b env \<Rightarrow> BootContext \<Rightarrow> gotime \<Rightarrow> int cmd" where
  "gcAt env boot now =
     (let mailbox = mailboxID (boot_Config boot) in
      bindIO (gcStep env (\<lambda>_. SystemErrorKindStoreCorruption) ''gc: load recovery-required'' mailbox (onStore (LoadRecoveryRequired (boot_Store boot)))) (\<lambda>found.
      if found \<noteq> None then ret exitError
      else
        let reportCutoff = gcReportCutoff (boot_Options boot) (boot_Config boot) now;
            emailCutoff = gcEmailCutoff (boot_Options boot) (boot_Config boot) now;
            imapEnabled = 0 < imap_RetentionDays (cfg_IMAP (boot_Config boot));
            imapCutoff = (if imapEnabled then Cutoff \<lparr>Days = imap_RetentionDays (cfg_IMAP (boot_Config boot))\<rparr> now else 0)
        in if imapEnabled \<and> \<not> DryRun (boot_Options boot) \<and> (env_username env = [] \<or> env_password env = [])
           then bindIO (notifyGCSystemError env SystemErrorKindIMAPCredentialsMissing mailbox) (\<lambda>_. ret exitError)
           else if DryRun (boot_Options boot) then runDryRun env boot mailbox reportCutoff emailCutoff imapCutoff imapEnabled
           else runDelete env boot mailbox reportCutoff emailCutoff imapCutoff imapEnabled (env_username env) (env_password env)))"

text \<open>The time is read once.\<close>

definition gcRun :: "'b env \<Rightarrow> BootContext \<Rightarrow> int cmd" where
  "gcRun env boot = bindIO (onStore getNow) (gcAt env boot)"

section \<open>Parsing stored mails again\<close>

text \<open>\<^verbatim>\<open>collectLoadEmailFailures\<close>: the failures of single files, and whether the error consists of nothing else.\<close>

definition as_load_failure :: "go_error \<Rightarrow> go_error option" where
  "as_load_failure e = find (\<lambda>x. case x of ErrLoadEmailFailed p u v c \<Rightarrow> True | _ \<Rightarrow> False) (err_chain e)"

fun collectLoadEmailFailuresInto :: "go_error \<Rightarrow> go_error list \<times> bool" and collect_children :: "go_error list \<Rightarrow> go_error list \<times> bool" where
  "collectLoadEmailFailuresInto (Join es) = (if es = [] then ([], False) else collect_children es)"
| "collectLoadEmailFailuresInto e = (case as_load_failure e of Some f \<Rightarrow> ([f], True) | None \<Rightarrow> ([], False))"
| "collect_children [] = ([], True)"
| "collect_children (e # es) =
     (let (failures1, all1) = collectLoadEmailFailuresInto e; (failures2, all2) = collect_children es in (failures1 @ failures2, all1 \<and> all2))"

definition collectLoadEmailFailures :: "go_error \<Rightarrow> go_error list \<times> bool" where
  "collectLoadEmailFailures err = (let (failures, allPerFile) = collectLoadEmailFailuresInto err in (failures, allPerFile \<and> failures \<noteq> []))"

definition notifyReprocessSystemError :: "'b env \<Rightarrow> SystemErrorKind \<Rightarrow> string \<Rightarrow> unit cmd" where
  "notifyReprocessSystemError env kind mailbox = notifyComponent env ''reprocess'' kind mailbox"

definition buildReprocessMetas :: "'msg LoadedEmail list \<Rightarrow> EmailMeta list" where
  "buildReprocessMetas emails =
     map (\<lambda>e. \<lparr>meta_UID = loaded_UID e, meta_UIDValidity = loaded_UIDValidity e, meta_InternalDate = loaded_InternalDate e\<rparr>)
       (filter (\<lambda>e. \<not> IsZero (loaded_InternalDate e)) emails)"

fun reprocess_attachments :: "'b env \<Rightarrow> bool \<Rightarrow> u32 \<Rightarrow> u32 \<Rightarrow> Attachment list \<Rightarrow> ReportInput list cmd" where
  "reprocess_attachments env notify uid uidValidity [] = ret []"
| "reprocess_attachments env notify uid uidValidity (att # atts) =
     (case parseTLSRPTAttachment env att of
        None \<Rightarrow> reprocess_attachments env notify uid uidValidity atts
      | Some (Inl err) \<Rightarrow>
          bindIO (if notify then logWarn WarningKindParseFailure uid uidValidity [] else ret ()) (\<lambda>_. reprocess_attachments env notify uid uidValidity atts)
      | Some (Inr report) \<Rightarrow>
          bindIO (if notify \<and> HasFailure report then logAlerts env report else ret ()) (\<lambda>_.
          bindIO (reprocess_attachments env notify uid uidValidity atts) (\<lambda>reports.
          ret (\<lparr>input_Report = report, input_UID = uid, input_UIDValidity = uidValidity\<rparr> # reports))))"

text \<open>The parse errors that the function also returns are only logged.\<close>

fun reprocessCollectReports :: "'b env \<Rightarrow> int \<Rightarrow> bool \<Rightarrow> 'b part LoadedEmail list \<Rightarrow> ReportInput list cmd" where
  "reprocessCollectReports env maxBytes notify [] = ret []"
| "reprocessCollectReports env maxBytes notify (e # es) =
     (case ExtractAttachments (env_mime env) (loaded_Message e) maxBytes of
        Inl err \<Rightarrow>
          bindIO (if notify then logWarn WarningKindParseFailure (loaded_UID e) (loaded_UIDValidity e) [] else ret ()) (\<lambda>_.
          reprocessCollectReports env maxBytes notify es)
      | Inr attachments \<Rightarrow>
          bindIO (reprocess_attachments env notify (loaded_UID e) (loaded_UIDValidity e) attachments) (\<lambda>reports.
          bindIO (reprocessCollectReports env maxBytes notify es) (\<lambda>reports'. ret (reports @ reports'))))"

fun warn_failures :: "go_error list \<Rightarrow> unit cmd" where
  "warn_failures [] = ret ()"
| "warn_failures (ErrLoadEmailFailed p uid uidValidity c # rest) =
     bindIO (logWarn WarningKindParseFailure uid uidValidity []) (\<lambda>_. warn_failures rest)"
| "warn_failures (f # rest) = warn_failures rest"

definition reprocessRun :: "'b env \<Rightarrow> BootContext \<Rightarrow> int cmd" where
  "reprocessRun env boot =
     (let mailbox = mailboxID (boot_Config boot); notifyEnabled = ReprocessNotify (boot_Options boot) in
      bindIO (attempt (onStore (LoadRecoveryRequired (boot_Store boot)))) (\<lambda>r. case r of
        Inl err \<Rightarrow>
          bindIO (notifyReprocessSystemError env SystemErrorKindStoreCorruption mailbox) (\<lambda>_. fail (Wrap ''reprocess: load recovery-required'' err))
      | Inr (Some _) \<Rightarrow> ret exitError
      | Inr None \<Rightarrow>
          bindIO (attempt (onStore (LoadEmails (\<lambda>c. env_readMessage env (content_bytes env c)) (boot_Store boot)))) (\<lambda>r.
          let (emails, loadErr) = (case r of Inl err \<Rightarrow> ([], Some err) | Inr (es, errs) \<Rightarrow> (es, if errs = [] then None else Some (Join errs))) in
          bindIO (case loadErr of
              None \<Rightarrow> ret ()
            | Some err \<Rightarrow>
                let (loadFailures, allPerFile) = collectLoadEmailFailures err in
                if \<not> allPerFile
                then bindIO (notifyReprocessSystemError env SystemErrorKindStoreCorruption mailbox) (\<lambda>_. fail (Wrap ''reprocess: load emails'' err))
                else if notifyEnabled then warn_failures loadFailures else ret ()) (\<lambda>_.
          bindIO (wrapErr ''reprocess: save email metas'' (onStore (SaveEmailMetas (boot_Store boot) (buildReprocessMetas emails)))) (\<lambda>_.
          bindIO (reprocessCollectReports env (imap_MaxMessageBytes (cfg_IMAP (boot_Config boot))) notifyEnabled emails) (\<lambda>reports.
          bindIO (wrapErr ''reprocess: save reports'' (onStore (SaveReports (boot_Store boot) reports))) (\<lambda>_.
          bindIO (if notifyEnabled then wrapErr ''reprocess: flush'' (sink_Flush env) else ret ()) (\<lambda>_.
          ret exitOK))))))))"

section \<open>Reporting totals\<close>

definition summarySince :: "Duration option \<Rightarrow> int \<Rightarrow> gotime \<Rightarrow> gotime" where
  "summarySince window windowDays now = (case window of Some d \<Rightarrow> Cutoff d now | None \<Rightarrow> Cutoff \<lparr>Days = windowDays\<rparr> now)"

definition logSummarySystemError :: "'b env \<Rightarrow> SystemErrorKind \<Rightarrow> string \<Rightarrow> unit cmd" where
  "logSummarySystemError env kind mailbox = notifyComponent env ''summary'' kind mailbox"

text \<open>The notifier is built only when there is something to send; its result is an argument.\<close>

definition useNotifier :: "setup_error + notificationSink \<Rightarrow> unit cmd" where
  "useNotifier built s = (case built of
       Inl err \<Rightarrow> (Err (Wrap ''summary: build notifier'' ErrNotify), s)
     | Inr sink \<Rightarrow> (Ok (), s\<lparr>cs_sink := sink\<rparr>))"

definition summaryRun :: "'b env \<Rightarrow> setup_error + notificationSink \<Rightarrow> SummaryConsistencyGuard \<Rightarrow> BootContext \<Rightarrow> int cmd" where
  "summaryRun env built guard boot =
     (let mailbox = mailboxID (boot_Config boot) in
      bindIO (wrapErr ''summary: check recovery required (pre-aggregation)'' (onStore (CheckRecoveryRequired guard))) (\<lambda>found.
      if found then
        bindIO (useNotifier built) (\<lambda>_.
        bindIO (logSummarySystemError env SystemErrorKindRecoveryRequired mailbox) (\<lambda>_. ret exitError))
      else
        bindIO (onStore getNow) (\<lambda>baseTime.
        bindIO (wrapErr ''summary: generate'' (onStore (GenerateSummary (\<lambda>_. False) (boot_Store boot)
            (summarySince (Window (boot_Options boot)) (summary_WindowDays (cfg_Summary (boot_Config boot))) baseTime)
            (UTCDayStart baseTime)))) (\<lambda>summary.
        if ReportCount summary = 0 then ret exitOK
        else
          bindIO (useNotifier built) (\<lambda>_.
          bindIO (sink_LogSummary summary) (\<lambda>_.
          bindIO (bestEffort (sink_Flush env)) (\<lambda>_.
          ret exitOK)))))))"

end
