(* ===== verification/Runner_VC.thy ===== *)
theory Runner_VC
  imports Cmd_Gc
begin

text \<open>
  Verification conditions for the runners. A program of a subcommand is described by what it does to the
  visible files and to the commands sent to the mail server: \<open>cwp m Q E C V T\<close> says that from every state
  that shows the files \<open>V\<close> after the commands \<open>T\<close>, under every schedule of faults and crashes and for every
  network and server, \<open>m\<close> ends normally with \<open>Q\<close>, with an error and \<open>E\<close>, or dies with \<open>C\<close>. The rules in \<open>cvc\<close>
  decompose a program; operations of the store enter by their own conditions, operations of the client by the
  commands they send. The locale \<open>step_relation\<close> is the other view: a relation between the states before and after
  that every composition of steps keeps.
\<close>

section \<open>Relations kept by every step\<close>

definition kept :: "('s \<Rightarrow> 's \<Rightarrow> bool) \<Rightarrow> ('s, 'a) prog \<Rightarrow> bool" where
  "kept R m \<longleftrightarrow> (\<forall>s. R s (snd (m s)))"

locale step_relation =
  fixes R :: "'s \<Rightarrow> 's \<Rightarrow> bool"
  assumes R_refl: "R s s" and R_trans: "R s t \<Longrightarrow> R t u \<Longrightarrow> R s u"
begin

lemma kept_pure: "kept R (ret a)" "kept R (fail e)"
  by (simp_all add: kept_def ret_def fail_def R_refl)

lemma kept_bind: "kept R m \<Longrightarrow> (\<And>a. kept R (f a)) \<Longrightarrow> kept R (bindIO m f)"
  unfolding kept_def bindIO_def by (auto split: prod.split outcome.split) (metis R_trans snd_conv)+

lemma kept_attempt: "kept R m \<Longrightarrow> kept R (attempt m)"
  unfolding kept_def attempt_def by (auto split: prod.split outcome.split) (metis snd_conv)+

lemma kept_mapErr: "kept R m \<Longrightarrow> kept R (mapErr g m)"
  unfolding kept_def mapErr_def by (auto split: prod.split outcome.split) (metis snd_conv)+

lemma kept_bestEffort: "kept R m \<Longrightarrow> kept R (bestEffort m)"
  unfolding bestEffort_def by (intro kept_bind kept_attempt kept_pure)

lemma kept_defer: "kept R c \<Longrightarrow> kept R m \<Longrightarrow> kept R (deferIO c m)"
  unfolding kept_def deferIO_def by (auto split: prod.split outcome.split) (metis R_trans snd_conv)+

lemma kept_if: "(b \<Longrightarrow> kept R m) \<Longrightarrow> (\<not> b \<Longrightarrow> kept R n) \<Longrightarrow> kept R (if b then m else n)"
  by simp

lemma kept_cases:
  "kept R m \<Longrightarrow> (\<And>y. kept R (f y)) \<Longrightarrow> kept R (case o' of None \<Rightarrow> m | Some y \<Rightarrow> f y)"
  "(\<And>e. kept R (g e)) \<Longrightarrow> (\<And>y. kept R (f' y)) \<Longrightarrow> kept R (case r of Inl e \<Rightarrow> g e | Inr y \<Rightarrow> f' y)"
  "(\<And>x y. kept R (h x y)) \<Longrightarrow> kept R (case p of (x, y) \<Rightarrow> h x y)"
  by (simp_all split: option.split sum.split prod.split)

lemmas kept_rules = kept_pure kept_bind kept_attempt kept_mapErr kept_bestEffort kept_defer kept_if kept_cases

end

section \<open>Conditions\<close>

definition cwp :: "'a cmd \<Rightarrow> ('a \<Rightarrow> store_view \<Rightarrow> imap_cmd list \<Rightarrow> bool) \<Rightarrow> (go_error \<Rightarrow> store_view \<Rightarrow> imap_cmd list \<Rightarrow> bool)
    \<Rightarrow> (store_view \<Rightarrow> imap_cmd list \<Rightarrow> bool) \<Rightarrow> store_view \<Rightarrow> imap_cmd list \<Rightarrow> bool" where
  "cwp m Q E C V T \<longleftrightarrow> (\<forall>s. view (cs_world s) = V \<and> trace (cs_client s) = T \<longrightarrow>
     wp m (\<lambda>a s'. Q a (view (cs_world s')) (trace (cs_client s'))) (\<lambda>e s'. E e (view (cs_world s')) (trace (cs_client s')))
       (\<lambda>s'. C (view (cs_world s')) (trace (cs_client s'))) s)"

named_theorems cvc \<open>decomposition rules for cwp\<close>

lemma cwp_conseq:
  assumes "cwp m Q E C V T" "\<And>a V T. Q a V T \<Longrightarrow> Q' a V T" "\<And>e V T. E e V T \<Longrightarrow> E' e V T" "\<And>V T. C V T \<Longrightarrow> C' V T"
  shows "cwp m Q' E' C' V T"
  using assms(1) unfolding cwp_def by (blast intro: wp_mono assms(2-4))

lemma cwp_pure [cvc]: "Q a V T \<Longrightarrow> cwp (ret a) Q E C V T" "E e V T \<Longrightarrow> cwp (fail e) Q E C V T"
  by (simp_all add: cwp_def wp_simps)

lemma cwp_bind [cvc]:
  assumes "cwp m (\<lambda>a. cwp (f a) Q E C) E C V T"
  shows "cwp (bindIO m f) Q E C V T"
  unfolding cwp_def
proof (intro allI impI)
  fix s :: cmd_state assume "view (cs_world s) = V \<and> trace (cs_client s) = T"
  with assms have "wp m (\<lambda>a s'. cwp (f a) Q E C (view (cs_world s')) (trace (cs_client s'))) (\<lambda>e s'. E e (view (cs_world s')) (trace (cs_client s')))
       (\<lambda>s'. C (view (cs_world s')) (trace (cs_client s'))) s"
    by (simp add: cwp_def)
  then show "wp (bindIO m f) (\<lambda>a s'. Q a (view (cs_world s')) (trace (cs_client s'))) (\<lambda>e s'. E e (view (cs_world s')) (trace (cs_client s')))
       (\<lambda>s'. C (view (cs_world s')) (trace (cs_client s'))) s"
    unfolding wp_combinators by (rule wp_mono) (auto simp: cwp_def)
qed

lemma cwp_attempt [cvc]: "cwp m (\<lambda>a. Q (Inr a)) (\<lambda>e. Q (Inl e)) C V T \<Longrightarrow> cwp (attempt m) Q E C V T"
  by (simp add: cwp_def wp_simps)

lemma cwp_mapErr [cvc]: "cwp m Q (\<lambda>e. E (g e)) C V T \<Longrightarrow> cwp (mapErr g m) Q E C V T"
  by (simp add: cwp_def wp_simps)

lemma cwp_bestEffort [cvc]: "cwp m (\<lambda>_. Q ()) (\<lambda>_. Q ()) C V T \<Longrightarrow> cwp (bestEffort m) Q E C V T"
  unfolding bestEffort_def by (rule cwp_bind, rule cwp_attempt, erule cwp_conseq) (auto intro: cwp_pure)

lemma cwp_defer [cvc]:
  assumes "cwp m (\<lambda>a. cwp c (\<lambda>_. Q a) (\<lambda>_. Q a) C) (\<lambda>e. cwp c (\<lambda>_. E e) (\<lambda>_. E e) C) C V T"
  shows "cwp (deferIO c m) Q E C V T"
  using assms unfolding cwp_def wp_combinators by (blast intro: wp_mono)

lemma cwp_if [cvc]: "(b \<Longrightarrow> cwp m Q E C V T) \<Longrightarrow> (\<not> b \<Longrightarrow> cwp n Q E C V T) \<Longrightarrow> cwp (if b then m else n) Q E C V T"
  by simp

lemma cwp_cases [cvc]:
  "(o' = None \<Longrightarrow> cwp m Q E C V T) \<Longrightarrow> (\<And>y. o' = Some y \<Longrightarrow> cwp (f y) Q E C V T) \<Longrightarrow> cwp (case o' of None \<Rightarrow> m | Some y \<Rightarrow> f y) Q E C V T"
  "(\<And>e. r = Inl e \<Longrightarrow> cwp (g e) Q E C V T) \<Longrightarrow> (\<And>y. r = Inr y \<Longrightarrow> cwp (f' y) Q E C V T) \<Longrightarrow> cwp (case r of Inl e \<Rightarrow> g e | Inr y \<Rightarrow> f' y) Q E C V T"
  "(\<And>x y. p = (x, y) \<Longrightarrow> cwp (h x y) Q E C V T) \<Longrightarrow> cwp (case p of (x, y) \<Rightarrow> h x y) Q E C V T"
  by (simp_all split: option.split sum.split prod.split)

lemma cwp_onStore:
  assumes "vwp False m Q' E' C' V" "\<And>a V'. Q' a V' \<Longrightarrow> Q a V' T" "\<And>e V'. E' e V' \<Longrightarrow> E e V' T" "\<And>V'. C' V' \<Longrightarrow> C V' T"
  shows "cwp (onStore m) Q E C V T"
  unfolding cwp_def
proof (intro allI impI)
  fix s :: cmd_state assume s: "view (cs_world s) = V \<and> trace (cs_client s) = T"
  obtain r w where r: "m (cs_world s) = (r, w)" by fastforce
  from vwp_cases [of False m Q' E' C' "cs_world s" r w] r assms(1) s have "case r of Ok a \<Rightarrow> Q' a (view w) | Err e \<Rightarrow> E' e (view w) | Crashed \<Rightarrow> C' (view w)"
    by (simp add: quiet_def)
  with s assms(2-) show "wp (onStore m) (\<lambda>a s'. Q a (view (cs_world s')) (trace (cs_client s'))) (\<lambda>e s'. E e (view (cs_world s')) (trace (cs_client s')))
       (\<lambda>s'. C (view (cs_world s')) (trace (cs_client s'))) s"
    by (auto simp: wp_def onStore_def r split: outcome.splits)
qed

lemma cwp_onImap:
  assumes "sends P m" "\<And>a cs. list_all P cs \<Longrightarrow> Q a V (T @ cs)" "\<And>e cs. list_all P cs \<Longrightarrow> E e V (T @ cs)"
  shows "cwp (onImap m) Q E C V T"
  unfolding cwp_def
proof (intro allI impI)
  fix s :: cmd_state assume s: "view (cs_world s) = V \<and> trace (cs_client s) = T"
  obtain r c where r: "m (cs_client s) = (r, c)" by fastforce
  from assms(1) r s obtain cs where "trace c = T @ cs" "list_all P cs" unfolding sends_def by (metis snd_conv)
  with s assms(2,3) show "wp (onImap m) (\<lambda>a s'. Q a (view (cs_world s')) (trace (cs_client s'))) (\<lambda>e s'. E e (view (cs_world s')) (trace (cs_client s')))
       (\<lambda>s'. C (view (cs_world s')) (trace (cs_client s'))) s"
    by (auto simp: wp_def onImap_def r split: sum.split)
qed

lemma cwp_sinks [cvc]:
  "Q () V T \<Longrightarrow> cwp (sink_each f) Q E C V T" "Q () V T \<Longrightarrow> cwp (sink_LogAlert env a) Q E C V T"
  "Q () V T \<Longrightarrow> cwp (sink_LogWarning w) Q E C V T" "Q () V T \<Longrightarrow> cwp (sink_LogSystemError se) Q E C V T"
  "Q () V T \<Longrightarrow> cwp (sink_LogSummary sm) Q E C V T" "Q () V T \<Longrightarrow> cwp (logWarn kind uid uv mid) Q E C V T"
  by (simp_all add: cwp_def wp_def sink_each_def sink_LogAlert_def sink_LogWarning_def sink_LogSystemError_def sink_LogSummary_def logWarn_def)

lemma cwp_warn_if: "Q () V T \<Longrightarrow> cwp (if b then logWarn kind uid uv mid else ret ()) Q E C V T"
  by (auto intro!: cvc)

lemma cwp_Flush [cvc]: "Q () V T \<Longrightarrow> E ErrNotify V T \<Longrightarrow> C V T \<Longrightarrow> cwp (sink_Flush env) Q E C V T"
  by (auto simp: cwp_def wp_def sink_Flush_def split: option.split)

lemma cwp_notify [cvc]: "Q () V T \<Longrightarrow> C V T \<Longrightarrow> cwp (notifyComponent env component kind mailbox) Q E C V T"
  unfolding notifyComponent_def by (intro cvc)

lemma cwp_logAlerts [cvc]: "Q () V T \<Longrightarrow> cwp (logAlerts env report) Q E C V T"
proof -
  have "Q () V T \<Longrightarrow> cwp (alert_loop env report ps) Q E C V T" for ps
    by (induction ps) (auto intro!: cvc)
  then show "Q () V T \<Longrightarrow> cwp (logAlerts env report) Q E C V T" by (simp add: logAlerts_def)
qed

lemma cwp_connect [cvc]:
  assumes "\<And>cs. list_all (\<lambda>cmd. \<exists>u p. cmd = Login u p \<or> cmd = Logout) cs \<Longrightarrow> Q () V (T @ cs) \<and> (\<forall>e. E e V (T @ cs))"
  shows "cwp (connect env cfg) Q E C V T"
  using assms [of "[]"] assms [of "[Login _ _]"] assms [of "[Login _ _, Logout]"]
  by (auto simp: cwp_def wp_def connect_def NewIMAPClient_def Let_def split: sum.split option.split prod.split)

lemma cwp_Close [cvc]:
  assumes "\<And>cs. set cs \<subseteq> {CloseMailbox, Logout} \<Longrightarrow> Q () V (T @ cs) \<and> (\<forall>e. E e V (T @ cs))"
  shows "cwp (onImap (Close S)) Q E C V T"
proof -
  have "sends (\<lambda>cmd. cmd \<in> {CloseMailbox, Logout}) (Close S)"
    by (auto simp: sends_def Close_def Let_def tell_def ask_def wrapI_def split: option.split sum.split prod.split)
  then show ?thesis by (rule cwp_onImap) (use assms in \<open>auto simp: list_all_iff subset_iff\<close>)
qed

lemma onStore_run: "onStore m s = (r, s') \<Longrightarrow> m (cs_world s) = (r, cs_world s') \<and> cs_net s' = cs_net s \<and> cs_sink s' = cs_sink s \<and> cs_client s' = cs_client s"
  by (auto simp: onStore_def split: prod.splits)

lemma cwp_run:
  assumes "cwp m Q E C (view (cs_world s)) (trace (cs_client s))" "m s = (r, s')"
  shows "case r of Ok a \<Rightarrow> Q a (view (cs_world s')) (trace (cs_client s')) | Err e \<Rightarrow> E e (view (cs_world s')) (trace (cs_client s'))
    | Crashed \<Rightarrow> C (view (cs_world s')) (trace (cs_client s'))"
  using assms by (auto simp: cwp_def wp_def split: outcome.splits)

end
