(* ===== verification/Cmd_Flags.thy ===== *)
theory Cmd_Flags
  imports Cmd_Runner
begin

text \<open>
  The command line of \<^verbatim>\<open>cmd/tlsrpt-digest/main.go\<close>: the loop of the standard library's \<^verbatim>\<open>flag.FlagSet.Parse\<close> with
  \<^verbatim>\<open>ContinueOnError\<close>, the flags each subcommand registers, and \<^verbatim>\<open>parseCLI\<close>. A flag set is an association list from
  names to setters on the options the flags point to. What is printed on an error is not modelled.
\<close>

section \<open>Flag sets\<close>

datatype 'o flag_value = BoolFlag "bool \<Rightarrow> 'o \<Rightarrow> 'o" | ValueFlag "string \<Rightarrow> 'o \<Rightarrow> 'o option"

type_synonym 'o flag_set = "(string \<times> 'o flag_value) list"

datatype flag_error =
    ErrHelp
  | BadFlagSyntax string
  | FlagNotDefined string
  | InvalidBoolean string string
  | FlagNeedsArgument string
  | InvalidFlagValue string string
  | errUnexpectedArguments
  | errConfigRequired
  | errDryRunNotSupported
  | errInvalidRecoverMode string
  | errYesRequiresMode

text \<open>\<^verbatim>\<open>strconv.ParseBool\<close>.\<close>

definition ParseBool :: "string \<Rightarrow> bool option" where
  "ParseBool s =
     (if s \<in> {''1'', ''t'', ''T'', ''TRUE'', ''true'', ''True''} then Some True
      else if s \<in> {''0'', ''f'', ''F'', ''FALSE'', ''false'', ''False''} then Some False
      else None)"

text \<open>The name of a flag and the value after the first equals sign, which cannot be the first character.\<close>

definition split_value :: "string \<Rightarrow> string \<times> string option" where
  "split_value name =
     (hd name # takeWhile (\<lambda>c. c \<noteq> CHR ''='') (tl name),
      case dropWhile (\<lambda>c. c \<noteq> CHR ''='') (tl name) of [] \<Rightarrow> None | _ # v \<Rightarrow> Some v)"

definition set_flag :: "'o flag_value \<Rightarrow> string \<Rightarrow> string option \<Rightarrow> string list \<Rightarrow> 'o \<Rightarrow> flag_error + bool \<times> string list \<times> 'o" where
  "set_flag fv name value args opt =
     (case fv of
        BoolFlag f \<Rightarrow> (case value of
            None \<Rightarrow> Inr (True, args, f True opt)
          | Some v \<Rightarrow> (case ParseBool v of None \<Rightarrow> Inl (InvalidBoolean v name) | Some b \<Rightarrow> Inr (True, args, f b opt)))
      | ValueFlag f \<Rightarrow> (case (value, args) of
            (None, []) \<Rightarrow> Inl (FlagNeedsArgument name)
          | (None, v # rest) \<Rightarrow> (case f v opt of None \<Rightarrow> Inl (InvalidFlagValue v name) | Some opt' \<Rightarrow> Inr (True, rest, opt'))
          | (Some v, _) \<Rightarrow> (case f v opt of None \<Rightarrow> Inl (InvalidFlagValue v name) | Some opt' \<Rightarrow> Inr (True, args, opt'))))"

text \<open>\<^verbatim>\<open>parseOne\<close>: whether a flag was read, the arguments that are left, and the options.\<close>

definition parseOne :: "'o flag_set \<Rightarrow> string list \<Rightarrow> 'o \<Rightarrow> flag_error + bool \<times> string list \<times> 'o" where
  "parseOne formal args opt =
     (case args of
        [] \<Rightarrow> Inr (False, [], opt)
      | s # rest \<Rightarrow>
          if length s < 2 \<or> hd s \<noteq> CHR ''-'' then Inr (False, s # rest, opt)
          else if s = ''--'' then Inr (False, rest, opt)
          else
            let name = (if s ! 1 = CHR ''-'' then drop 2 s else drop 1 s) in
            if name = [] \<or> hd name = CHR ''-'' \<or> hd name = CHR ''='' then Inl (BadFlagSyntax s)
            else case split_value name of (name, value) \<Rightarrow>
              (case map_of formal name of
                 None \<Rightarrow> Inl (if name = ''help'' \<or> name = ''h'' then ErrHelp else FlagNotDefined name)
               | Some fv \<Rightarrow> set_flag fv name value rest opt))"

lemma parseOne_shorter: "parseOne formal args opt = Inr (True, args', opt') \<Longrightarrow> length args' < length args"
  by (auto simp: parseOne_def set_flag_def Let_def split: list.splits if_splits prod.splits option.splits flag_value.splits)

function Parse :: "'o flag_set \<Rightarrow> string list \<Rightarrow> 'o \<Rightarrow> flag_error + 'o \<times> string list" where
  "Parse formal args opt =
     (case parseOne formal args opt of
        Inl err \<Rightarrow> Inl err
      | Inr (seen, args', opt') \<Rightarrow> if seen then Parse formal args' opt' else Inr (opt', args'))"
  by pat_completeness auto

termination
  by (relation "measure (\<lambda>(formal, args, opt). length args)") (auto dest: parseOne_shorter)

declare Parse.simps [simp del]

section \<open>Subcommands and their flags\<close>

datatype SubcommandName = subcommandFetch | subcommandSummary | subcommandReprocess | subcommandGC | subcommandRecover | subcommandHelp

fun subcommandName :: "SubcommandName \<Rightarrow> string" where
  "subcommandName subcommandFetch = ''fetch''"
| "subcommandName subcommandSummary = ''summary''"
| "subcommandName subcommandReprocess = ''reprocess''"
| "subcommandName subcommandGC = ''gc''"
| "subcommandName subcommandRecover = ''recover''"
| "subcommandName subcommandHelp = ''help''"

text \<open>The keys of \<^verbatim>\<open>commandRunners\<close>; the runner of a subcommand is looked up by its name.\<close>

definition commandRunners :: "SubcommandName list" where
  "commandRunners = [subcommandFetch, subcommandSummary, subcommandReprocess, subcommandGC, subcommandRecover]"

record cliInvocation =
  inv_Subcommand :: SubcommandName
  inv_Options :: cliOptions

definition newOptions :: "string \<Rightarrow> cliOptions" where
  "newOptions configPath = \<lparr>RecoverMode = [], RecoverYes = False, ConfigPath = configPath, DryRun = False, Since = None, Window = None,
     Before = None, MaxEmailAge = None, ReprocessNotify = False\<rparr>"

definition globalFlags :: "string flag_set" where
  "globalFlags = [(''config'', ValueFlag (\<lambda>v _. Some v)), (''c'', ValueFlag (\<lambda>v _. Some v))]"

text \<open>\<^verbatim>\<open>fs.Var(newDurationFlag(&opts.X), ...)\<close>: a setter for one field.\<close>

definition durationVar :: "(cliOptions \<Rightarrow> Duration option) \<Rightarrow> (Duration option \<Rightarrow> cliOptions \<Rightarrow> cliOptions) \<Rightarrow> cliOptions flag_value" where
  "durationVar field update =
     ValueFlag (\<lambda>v opt. case durationFlag_Set v (field opt) of (Some err, _) \<Rightarrow> None | (None, ptr) \<Rightarrow> Some (update ptr opt))"

fun registerFlags :: "SubcommandName \<Rightarrow> cliOptions flag_set" where
  "registerFlags subcommandFetch = [(''since'', durationVar Since (\<lambda>d opt. opt\<lparr>Since := d\<rparr>))]"
| "registerFlags subcommandSummary = [(''window'', durationVar Window (\<lambda>d opt. opt\<lparr>Window := d\<rparr>))]"
| "registerFlags subcommandGC =
     [(''before'', durationVar Before (\<lambda>d opt. opt\<lparr>Before := d\<rparr>)),
      (''max-email-age'', durationVar MaxEmailAge (\<lambda>d opt. opt\<lparr>MaxEmailAge := d\<rparr>))]"
| "registerFlags subcommandRecover =
     [(''mode'', ValueFlag (\<lambda>v opt. Some (opt\<lparr>RecoverMode := v\<rparr>))), (''yes'', BoolFlag (\<lambda>b opt. opt\<lparr>RecoverYes := b\<rparr>))]"
| "registerFlags subcommandReprocess = [(''notify'', BoolFlag (\<lambda>b opt. opt\<lparr>ReprocessNotify := b\<rparr>))]"
| "registerFlags subcommandHelp = []"

definition subcommandFlags :: "SubcommandName \<Rightarrow> cliOptions flag_set" where
  "subcommandFlags subcmd =
     (''dry-run'', BoolFlag (\<lambda>b opt. opt\<lparr>DryRun := b\<rparr>)) # (''n'', BoolFlag (\<lambda>b opt. opt\<lparr>DryRun := b\<rparr>)) # registerFlags subcmd"

definition validateFlags :: "SubcommandName \<Rightarrow> cliOptions \<Rightarrow> flag_error option" where
  "validateFlags subcmd opt =
     (if ConfigPath opt = [] then Some errConfigRequired
      else if DryRun opt \<and> subcmd \<noteq> subcommandFetch \<and> subcmd \<noteq> subcommandSummary \<and> subcmd \<noteq> subcommandGC then Some errDryRunNotSupported
      else if subcmd \<noteq> subcommandRecover then None
      else if RecoverMode opt \<noteq> [] \<and> RecoverMode opt \<noteq> recoverModeKeepOld \<and> RecoverMode opt \<noteq> recoverModeDiscardOld
        then Some (errInvalidRecoverMode (RecoverMode opt))
      else if RecoverYes opt \<and> RecoverMode opt = [] then Some errYesRequiresMode
      else None)"

definition parseCLI :: "string list \<Rightarrow> flag_error + cliInvocation" where
  "parseCLI args =
     (case Parse globalFlags args [] of
        Inl err \<Rightarrow> Inl err
      | Inr (configPath, remaining) \<Rightarrow> (case remaining of
          [] \<Rightarrow> Inl ErrHelp
        | word # rest \<Rightarrow>
            if word = subcommandName subcommandHelp then Inl ErrHelp
            else case find (\<lambda>c. subcommandName c = word) commandRunners of
              None \<Rightarrow> Inl ErrHelp
            | Some subcmd \<Rightarrow> (case Parse (subcommandFlags subcmd) rest (newOptions configPath) of
                Inl err \<Rightarrow> Inl err
              | Inr (opt, extra) \<Rightarrow>
                  if extra \<noteq> [] then Inl errUnexpectedArguments
                  else case validateFlags subcmd opt of
                    Some err \<Rightarrow> Inl err
                  | None \<Rightarrow> Inr \<lparr>inv_Subcommand = subcmd, inv_Options = opt\<rparr>)))"

section \<open>Contracts of flag sets\<close>

text \<open>Setters that keep a predicate of the options; reading any arguments then keeps it.\<close>

locale flag_invariant =
  fixes formal :: "'o flag_set" and I :: "'o \<Rightarrow> bool"
  assumes bool_kept: "(name, BoolFlag f) \<in> set formal \<Longrightarrow> I opt \<Longrightarrow> I (f b opt)"
    and value_kept: "(name, ValueFlag g) \<in> set formal \<Longrightarrow> I opt \<Longrightarrow> g v opt = Some opt' \<Longrightarrow> I opt'"
begin

lemma set_flag_kept: "(name, fv) \<in> set formal \<Longrightarrow> I opt \<Longrightarrow> set_flag fv name value args opt = Inr (seen, args', opt') \<Longrightarrow> I opt'"
  by (auto simp: set_flag_def bool_kept value_kept split: flag_value.splits option.splits list.splits)

lemma parseOne_kept: "I opt \<Longrightarrow> parseOne formal args opt = Inr (seen, args', opt') \<Longrightarrow> I opt'"
  by (auto simp: parseOne_def Let_def split: list.splits if_splits prod.splits option.splits
      dest!: map_of_SomeD elim: set_flag_kept [rotated 2])

lemma Parse_kept: "I opt \<Longrightarrow> Parse formal args opt = Inr (opt', rest) \<Longrightarrow> I opt'"
proof (induction "length args" arbitrary: args opt rule: less_induct)
  case less
  from less.prems(2) obtain seen args1 opt1 where one: "parseOne formal args opt = Inr (seen, args1, opt1)"
    by (subst (asm) Parse.simps) (auto split: sum.splits)
  with parseOne_kept less.prems(1) have "I opt1" by blast
  with one less show ?case
    by (subst (asm) (2) Parse.simps) (cases seen, auto dest: parseOne_shorter)
qed

end

lemma mem_subcommandFlags: "(name, fv) \<in> set (subcommandFlags subcmd) \<longleftrightarrow>
    name \<in> {''dry-run'', ''n''} \<and> fv = BoolFlag (\<lambda>b opt. opt\<lparr>DryRun := b\<rparr>) \<or> (name, fv) \<in> set (registerFlags subcmd)"
  by (auto simp: subcommandFlags_def)

text \<open>The options a subcommand can have: flags of other subcommands are unset, and durations are positive and fit an integer.\<close>

definition duration_ok :: "Duration option \<Rightarrow> bool" where
  "duration_ok d \<longleftrightarrow> (case d of None \<Rightarrow> True | Some d \<Rightarrow> 1 \<le> Days d \<and> Days d \<le> maxInt)"

definition own_options :: "SubcommandName \<Rightarrow> cliOptions \<Rightarrow> bool" where
  "own_options subcmd opt \<longleftrightarrow>
     (if subcmd = subcommandFetch then duration_ok (Since opt) else Since opt = None)
   \<and> (if subcmd = subcommandSummary then duration_ok (Window opt) else Window opt = None)
   \<and> (if subcmd = subcommandGC then duration_ok (Before opt) \<and> duration_ok (MaxEmailAge opt) else Before opt = None \<and> MaxEmailAge opt = None)
   \<and> (subcmd \<noteq> subcommandRecover \<longrightarrow> RecoverMode opt = [] \<and> \<not> RecoverYes opt)
   \<and> (ReprocessNotify opt \<longrightarrow> subcmd = subcommandReprocess)"

lemma durationVar_Some:
  "durationVar field update = ValueFlag g \<Longrightarrow> g v opt = Some opt' \<Longrightarrow> \<exists>d. duration_ok (Some d) \<and> opt' = update (Some d) opt"
  by (auto simp: durationVar_def durationFlag_Set_def duration_ok_def split: sum.splits intro!: exI [of _ "projr (ParseDuration v)"]
      dest!: ParseDuration_range)

interpretation subcommand_flags: flag_invariant "subcommandFlags subcmd" "\<lambda>opt. own_options subcmd opt \<and> ConfigPath opt = path" for subcmd path
proof
  fix name f opt b
  assume "(name, BoolFlag f) \<in> set (subcommandFlags subcmd)" "own_options subcmd opt \<and> ConfigPath opt = path"
  then show "own_options subcmd (f b opt) \<and> ConfigPath (f b opt) = path"
    by (cases subcmd) (auto simp: mem_subcommandFlags own_options_def durationVar_def)
next
  fix name g opt v opt'
  assume "(name, ValueFlag g) \<in> set (subcommandFlags subcmd)" "own_options subcmd opt \<and> ConfigPath opt = path" "g v opt = Some opt'"
  then show "own_options subcmd opt' \<and> ConfigPath opt' = path"
    by (cases subcmd) (auto simp: mem_subcommandFlags own_options_def dest!: durationVar_Some [OF sym])
qed

lemma own_options_new: "own_options subcmd (newOptions path)"
  by (simp add: own_options_def newOptions_def duration_ok_def)

section \<open>What the command line accepts\<close>

definition valid_invocation :: "cliInvocation \<Rightarrow> bool" where
  "valid_invocation iv \<longleftrightarrow> (let subcmd = inv_Subcommand iv; opt = inv_Options iv in
     subcmd \<noteq> subcommandHelp \<and> ConfigPath opt \<noteq> [] \<and> own_options subcmd opt
   \<and> (DryRun opt \<longrightarrow> subcmd \<in> {subcommandFetch, subcommandSummary, subcommandGC})
   \<and> RecoverMode opt \<in> {[], recoverModeKeepOld, recoverModeDiscardOld} \<and> (RecoverYes opt \<longrightarrow> RecoverMode opt \<noteq> []))"

lemma runner_found: "find (\<lambda>c. subcommandName c = word) commandRunners = Some subcmd \<longleftrightarrow> subcmd \<noteq> subcommandHelp \<and> subcommandName subcmd = word"
  by (cases subcmd) (auto simp: commandRunners_def)

lemma validateFlags_None:
  "own_options subcmd opt \<Longrightarrow> subcmd \<noteq> subcommandHelp \<Longrightarrow>
   validateFlags subcmd opt = None \<longleftrightarrow> valid_invocation \<lparr>inv_Subcommand = subcmd, inv_Options = opt\<rparr>"
  by (auto simp: validateFlags_def valid_invocation_def own_options_def)

lemma parseCLI_valid:
  assumes "parseCLI args = Inr iv"
  shows "valid_invocation iv"
proof -
  from assms obtain path rest subcmd opt where "subcmd \<noteq> subcommandHelp" "validateFlags subcmd opt = None"
    and parsed: "Parse (subcommandFlags subcmd) rest (newOptions path) = Inr (opt, [])" and iv: "iv = \<lparr>inv_Subcommand = subcmd, inv_Options = opt\<rparr>"
    by (auto simp: parseCLI_def runner_found split: sum.splits list.splits if_splits option.splits)
  moreover have "own_options subcmd opt"
    using subcommand_flags.Parse_kept [OF _ parsed, of path] own_options_new by (simp add: newOptions_def)
  ultimately show ?thesis using validateFlags_None by simp
qed

text \<open>A command line for an invocation: long flags, every value as an argument of its own.\<close>

definition print_duration :: "string \<Rightarrow> Duration option \<Rightarrow> string list" where
  "print_duration name d = (case d of None \<Rightarrow> [] | Some _ \<Rightarrow> [''--'' @ name, durationFlag_String d])"

definition print_bool :: "string \<Rightarrow> bool \<Rightarrow> string list" where
  "print_bool name b = (if b then [''--'' @ name] else [])"

definition print_cli :: "cliInvocation \<Rightarrow> string list" where
  "print_cli iv = (let opt = inv_Options iv in
     [''--config'', ConfigPath opt, subcommandName (inv_Subcommand iv)]
     @ print_bool ''dry-run'' (DryRun opt)
     @ print_duration ''since'' (Since opt) @ print_duration ''window'' (Window opt)
     @ print_duration ''before'' (Before opt) @ print_duration ''max-email-age'' (MaxEmailAge opt)
     @ (if RecoverMode opt = [] then [] else [''--mode'', RecoverMode opt])
     @ print_bool ''yes'' (RecoverYes opt) @ print_bool ''notify'' (ReprocessNotify opt))"

lemma Parse_Nil [simp]: "Parse formal [] opt = Inr (opt, [])"
  by (subst Parse.simps) (simp add: parseOne_def)

lemma Parse_word: "hd s \<noteq> CHR ''-'' \<Longrightarrow> Parse formal (s # rest) opt = Inr (opt, s # rest)"
  by (subst Parse.simps) (simp add: parseOne_def)

lemma split_value_plain:
  assumes "CHR ''='' \<notin> set name" "name \<noteq> []"
  shows "split_value name = (name, None)"
proof -
  have "\<forall>c\<in>set (tl name). c \<noteq> CHR ''=''" using assms by (cases name) auto
  then have skip: "dropWhile (\<lambda>c. c \<noteq> CHR ''='') (tl name) = []" "takeWhile (\<lambda>c. c \<noteq> CHR ''='') (tl name) = tl name"
    by (simp_all add: takeWhile_eq_all_conv)
  show ?thesis using assms(2) by (simp add: split_value_def skip)
qed

definition plain_name :: "string \<Rightarrow> bool" where
  "plain_name name \<longleftrightarrow> name \<noteq> [] \<and> hd name \<noteq> CHR ''-'' \<and> CHR ''='' \<notin> set name"

lemma parseOne_long:
  assumes "plain_name name" "map_of formal name = Some fv"
  shows "parseOne formal ((CHR ''-'' # CHR ''-'' # name) # rest) opt = set_flag fv name None rest opt"
  using assms by (cases name) (auto simp: parseOne_def plain_name_def split_value_plain)

lemma Parse_bool:
  "plain_name name \<Longrightarrow> map_of formal name = Some (BoolFlag f) \<Longrightarrow>
   Parse formal (print_bool name b @ rest) opt = Parse formal rest (if b then f True opt else opt)"
  by (subst Parse.simps) (auto simp: print_bool_def parseOne_long set_flag_def Parse.simps [of formal rest])

lemma Parse_value:
  "plain_name name \<Longrightarrow> map_of formal name = Some (ValueFlag g) \<Longrightarrow> g v opt = Some opt' \<Longrightarrow>
   Parse formal ((CHR ''-'' # CHR ''-'' # name) # v # rest) opt = Parse formal rest opt'"
  by (subst Parse.simps) (auto simp: parseOne_long set_flag_def)

lemma Parse_duration:
  "plain_name name \<Longrightarrow> map_of formal name = Some (durationVar field update) \<Longrightarrow> duration_ok d \<Longrightarrow>
   Parse formal (print_duration name d @ rest) opt = Parse formal rest (if d = None then opt else update d opt)"
  by (auto simp: print_duration_def durationVar_def duration_ok_def durationFlag_reread split: option.split intro!: Parse_value)

lemma plain_names:
  "plain_name ''config''" "plain_name ''dry-run''" "plain_name ''since''" "plain_name ''window''" "plain_name ''before''"
  "plain_name ''max-email-age''" "plain_name ''mode''" "plain_name ''yes''" "plain_name ''notify''"
  by (simp_all add: plain_name_def)

lemma print_unset [simp]: "print_duration name None = []" "print_bool name False = []"
  by (simp_all add: print_duration_def print_bool_def)

lemmas Parse_flags = Parse_bool [of _ _ _ _ "[]", simplified] Parse_bool
  Parse_duration [of _ _ _ _ _ "[]", simplified] Parse_duration

lemma Parse_printed:
  assumes "own_options subcmd opt" "subcmd \<noteq> subcommandHelp"
  shows "Parse (subcommandFlags subcmd) (drop 3 (print_cli \<lparr>inv_Subcommand = subcmd, inv_Options = opt\<rparr>)) (newOptions (ConfigPath opt)) = Inr (opt, [])"
  using assms
  by (cases subcmd; cases opt)
     (auto simp: print_cli_def Let_def own_options_def newOptions_def subcommandFlags_def plain_names Parse_flags Parse_value)

text \<open>
  C19. The command line reaches exactly the meaningful invocations. An invocation that is accepted names a configuration file and
  one of the five subcommands, has only flags of that subcommand, durations of 1 to \<open>2\<^sup>6\<^sup>3 - 1\<close> days, a dry run only for \<^verbatim>\<open>fetch\<close>, \<^verbatim>\<open>summary\<close>
  and \<^verbatim>\<open>gc\<close>, and a confirmation only with one of the two recovery modes; and every such invocation is what its printed
  command line is read as.
\<close>

theorem parseCLI_accepts: "valid_invocation iv = (\<exists>args. parseCLI args = Inr iv) \<and> valid_invocation iv = (parseCLI (print_cli iv) = Inr iv)"
proof -
  have "parseCLI (print_cli iv) = Inr iv" if v: "valid_invocation iv"
  proof -
    obtain subcmd opt where iv: "iv = \<lparr>inv_Subcommand = subcmd, inv_Options = opt\<rparr>" by (cases iv)
    have own: "own_options subcmd opt" "subcmd \<noteq> subcommandHelp" using v by (auto simp: iv valid_invocation_def)
    have args: "print_cli iv = ''--config'' # ConfigPath opt # subcommandName subcmd # drop 3 (print_cli iv)"
      by (simp add: print_cli_def Let_def iv)
    have "hd (subcommandName subcmd) \<noteq> CHR ''-''" "subcommandName subcmd \<noteq> ''help''" using own(2) by (cases subcmd; simp)+
    moreover have "find (\<lambda>c. subcommandName c = subcommandName subcmd) commandRunners = Some subcmd" using own(2) by (simp add: runner_found)
    ultimately show ?thesis
      using v validateFlags_None [OF own] Parse_printed [OF own]
      by (subst args) (simp add: parseCLI_def Parse_value [OF plain_names(1)] globalFlags_def Parse_word iv)
  qed
  then show ?thesis using parseCLI_valid by blast
qed

end
