(* ===== verification/Cmd_Main.thy ===== *)
theory Cmd_Main
  imports Cmd_Gc Cmd_Flags
begin

text \<open>
  The whole program: \<^verbatim>\<open>Bootstrap\<close> with its configuration, notifier, writer lock and store (\<^verbatim>\<open>cmd/tlsrpt-digest/boot.go\<close>) and
  \<^verbatim>\<open>runCLI\<close> (\<^verbatim>\<open>main.go\<close>), which parses the command line, starts up and runs the subcommand. What the operating system provides is
  a record: the environment of the runners, the TOML decoder, \<^verbatim>\<open>filepath.Abs\<close>, the URL parser, the two webhook variables, the
  identifier of the run and whether another process holds the writer lock. Closing the lock and the guard at the end
  releases locks only, which has no effect on files.
\<close>

section \<open>Start-up\<close>

record 'b host =
  host_env :: "'b env"
  host_decode :: "string \<Rightarrow> rawConfig option"
  host_absPath :: "string \<Rightarrow> string option"
  host_urlParse :: "string \<Rightarrow> parsed_url option"
  host_successURL :: string
  host_errorURL :: string
  host_runID :: gotext
  host_lockHeld :: bool

definition loadConfig :: "'b host \<Rightarrow> string \<Rightarrow> config_error + Config" where
  "loadConfig host path =
     LoadFile (host_decode host) (\<lambda>p. case env_osReadFile (host_env host) p of Inl _ \<Rightarrow> None | Inr data \<Rightarrow> Some data)
       (env_pem (host_env host)) (host_absPath host) path"

text \<open>An absolute path as the list of its elements.\<close>

fun split_slashes :: "string \<Rightarrow> string list" where
  "split_slashes [] = [[]]"
| "split_slashes (c # s) =
     (if c = CHR ''/'' then [] # split_slashes s else (c # hd (split_slashes s)) # tl (split_slashes s))"

definition path_of :: "string \<Rightarrow> path" where
  "path_of s = filter (\<lambda>e. e \<noteq> []) (split_slashes s)"

definition storeRoot :: "Config \<Rightarrow> path" where
  "storeRoot cfg = path_of (store_RootDir (cfg_Store cfg))"

text \<open>A sink without handlers behaves as \<^verbatim>\<open>nopNotifier\<close>: it logs nothing, sends nothing and is not dry.\<close>

definition nopSink :: notificationSink where
  "nopSink = \<lparr>handlers = [], sink_dryRun = False\<rparr>"

definition useSink :: "notificationSink \<Rightarrow> unit cmd" where
  "useSink sink s = (Ok (), s\<lparr>cs_sink := sink\<rparr>)"

definition buildNotifier :: "'b host \<Rightarrow> Config \<Rightarrow> bool \<Rightarrow> setup_error + notificationSink" where
  "buildNotifier host cfg dryRun =
     setupNotifyHandlers (host_urlParse host) (host_successURL host) (host_errorURL host) cfg (host_runID host) dryRun"

definition bootNotifier :: "'b host \<Rightarrow> SubcommandName \<Rightarrow> Config \<Rightarrow> bool \<Rightarrow> unit cmd" where
  "bootNotifier host subcmd cfg dryRun =
     (if subcmd = subcommandRecover then useSink nopSink
      else case buildNotifier host cfg dryRun of
        Inl err \<Rightarrow> fail (Wrap ''build notifier'' ErrNotify)
      | Inr sink \<Rightarrow> useSink sink)"

definition notifySystemError :: "'b env \<Rightarrow> SystemErrorKind \<Rightarrow> Config \<Rightarrow> unit cmd" where
  "notifySystemError env kind cfg = notifyComponent env ''boot'' kind (mailboxID cfg)"

definition acquireWriterLock :: "'b host \<Rightarrow> Config \<Rightarrow> unit cmd" where
  "acquireWriterLock host cfg =
     bindIO (attempt (onStore (Acquire (host_lockHeld host) (LockPath (storeRoot cfg))))) (\<lambda>r. case r of
       Inr _ \<Rightarrow> ret ()
     | Inl err \<Rightarrow>
         bindIO (notifySystemError (host_env host)
           (if errors_Is err ErrLockHeld then SystemErrorKindLockHeld else SystemErrorKindStorePermission) cfg) (\<lambda>_.
         fail (Wrap ''acquire store writer lock'' err)))"

definition openStore :: "'b host \<Rightarrow> Config \<Rightarrow> OpenMode \<Rightarrow> fileStore cmd" where
  "openStore host cfg m =
     bindIO (attempt (onStore (Open (storeRoot cfg) (storeIdentity cfg) m))) (\<lambda>r. case r of
       Inr st \<Rightarrow> ret st
     | Inl err \<Rightarrow>
         bindIO (notifySystemError (host_env host) (classifyOpenError err) cfg) (\<lambda>_.
         if errors_Is err ErrPendingReset then fail (Wrap ''store reset is incomplete'' err)
         else fail (Wrap ''open store'' err)))"

text \<open>\<^verbatim>\<open>Bootstrap\<close> as \<^verbatim>\<open>runCLI\<close> calls it, with the mode override of \<^verbatim>\<open>recover\<close>: the context of the runner, and the guard of \<^verbatim>\<open>summary\<close>.\<close>

definition openMode :: "SubcommandName \<Rightarrow> cliOptions \<Rightarrow> OpenMode" where
  "openMode subcmd opt =
     (if subcmd = subcommandRecover then recoverStoreOpenMode (recoverOptions.truncate opt) else storeOpenMode (DryRun opt))"

definition startUp :: "'b host \<Rightarrow> SubcommandName \<Rightarrow> cliOptions \<Rightarrow> (BootContext \<times> SummaryConsistencyGuard option) cmd" where
  "startUp host subcmd opt =
     (case loadConfig host (ConfigPath opt) of
        Inl err \<Rightarrow> fail (Wrap ''load configuration'' ErrConfig)
      | Inr cfg \<Rightarrow>
          if subcmd = subcommandSummary then
            bindIO (onStore (bootstrapSummary (storeRoot cfg) (storeIdentity cfg))) (\<lambda>(st, guard).
            ret (\<lparr>boot_Config = cfg, boot_Options = opt, boot_Store = st\<rparr>, Some guard))
          else
            bindIO (if DryRun opt then ret () else wrapErr ''prepare store root'' (onStore (validateAndEnsureRootDir (storeRoot cfg)))) (\<lambda>_.
            bindIO (bootNotifier host subcmd cfg (DryRun opt)) (\<lambda>_.
            bindIO (if DryRun opt then ret () else acquireWriterLock host cfg) (\<lambda>_.
            bindIO (openStore host cfg (openMode subcmd opt)) (\<lambda>st.
            ret (\<lparr>boot_Config = cfg, boot_Options = opt, boot_Store = st\<rparr>, None))))))"

section \<open>Running a subcommand\<close>

definition exitUsage :: int where
  "exitUsage = 2"

definition defaultBuildSummaryNotifier :: "'b host \<Rightarrow> BootContext \<Rightarrow> setup_error + notificationSink" where
  "defaultBuildSummaryNotifier host boot = buildNotifier host (boot_Config boot) (DryRun (boot_Options boot))"

text \<open>The runners of \<^verbatim>\<open>defaultRunners\<close>; \<^verbatim>\<open>summary\<close> without a guard would dereference a nil interface, and there is no runner of \<^verbatim>\<open>help\<close>.\<close>

definition crash :: "'a cmd" where
  "crash s = (Crashed, s)"

fun runSubcommand :: "'b host \<Rightarrow> SubcommandName \<Rightarrow> BootContext \<Rightarrow> SummaryConsistencyGuard option \<Rightarrow> int cmd" where
  "runSubcommand host subcommandFetch boot guard = fetchRun (host_env host) boot"
| "runSubcommand host subcommandSummary boot guard =
     (case guard of
        None \<Rightarrow> crash
      | Some g \<Rightarrow> summaryRun (host_env host) (defaultBuildSummaryNotifier host boot) g boot)"
| "runSubcommand host subcommandReprocess boot guard = reprocessRun (host_env host) boot"
| "runSubcommand host subcommandGC boot guard = gcRun (host_env host) boot"
| "runSubcommand host subcommandRecover boot guard = onStore (recoverRun (boot_Store boot) (recoverOptions.truncate (boot_Options boot)))"
| "runSubcommand host subcommandHelp boot guard = crash"

text \<open>Errors end up as exit codes; every runner returns \<open>exitError\<close> with an error.\<close>

definition exitCode :: "int cmd \<Rightarrow> int cmd" where
  "exitCode m = bindIO (attempt m) (\<lambda>r. case r of Inl err \<Rightarrow> ret exitError | Inr code \<Rightarrow> ret code)"

definition runInvocation :: "'b host \<Rightarrow> cliInvocation \<Rightarrow> int cmd" where
  "runInvocation host iv =
     bindIO (attempt (startUp host (inv_Subcommand iv) (inv_Options iv))) (\<lambda>r. case r of
       Inl err \<Rightarrow> ret exitError
     | Inr (boot, guard) \<Rightarrow> exitCode (runSubcommand host (inv_Subcommand iv) boot guard))"

definition runCLI :: "'b host \<Rightarrow> string list \<Rightarrow> int cmd" where
  "runCLI host args =
     (case parseCLI args of
        Inl err \<Rightarrow> ret (if err = errYesRequiresMode then exitError else exitUsage)
      | Inr iv \<Rightarrow> bindIO (useSink nopSink) (\<lambda>_. runInvocation host iv))"

section \<open>A recovery from the command line\<close>

text \<open>A program that, with a sink without handlers, does what a program of the store does.\<close>

definition lifts :: "'a cmd \<Rightarrow> 'a store_io \<Rightarrow> bool" where
  "lifts m n \<longleftrightarrow> (\<forall>s. cs_sink s = nopSink \<longrightarrow> m s = onStore n s)"

named_theorems lifting \<open>programs of the store under a sink without handlers\<close>

lemma lifts_pure [lifting]: "lifts (ret a) (ret a)" "lifts (fail e) (fail e)" "lifts (onStore n) n"
  by (simp_all add: lifts_def onStore_def ret_def fail_def)

lemma lifts_bind [lifting]: "lifts m n \<Longrightarrow> (\<And>a. lifts (f a) (g a)) \<Longrightarrow> lifts (bindIO m f) (bindIO n g)"
  by (auto simp: lifts_def onStore_def bindIO_def Let_def split: prod.split outcome.split)

lemma lifts_attempt [lifting]: "lifts m n \<Longrightarrow> lifts (attempt m) (attempt n)"
  by (auto simp: lifts_def onStore_def attempt_def Let_def split: prod.split outcome.split)

lemma lifts_mapErr [lifting]: "lifts m n \<Longrightarrow> lifts (mapErr g m) (mapErr g n)"
  by (auto simp: lifts_def onStore_def mapErr_def Let_def split: prod.split outcome.split)

lemma lifts_if [lifting]: "(b \<Longrightarrow> lifts m n) \<Longrightarrow> (\<not> b \<Longrightarrow> lifts m' n') \<Longrightarrow> lifts (if b then m else m') (if b then n else n')"
  by simp

lemma lifts_case_sum [lifting]: "(\<And>a. lifts (f a) (f' a)) \<Longrightarrow> (\<And>b. lifts (g b) (g' b)) \<Longrightarrow> lifts (case r of Inl a \<Rightarrow> f a | Inr b \<Rightarrow> g b) (case r of Inl a \<Rightarrow> f' a | Inr b \<Rightarrow> g' b)"
  by (cases r) auto

lemma useSink_same: "cs_sink s = nopSink \<Longrightarrow> s\<lparr>cs_sink := nopSink\<rparr> = s"
  by (cases s) simp

lemma lifts_sink: "lifts m n \<Longrightarrow> lifts (bindIO (useSink nopSink) (\<lambda>_. m)) n"
  by (auto simp: lifts_def useSink_def bindIO_def useSink_same)

lemma lifts_notify [lifting]: "lifts (notifySystemError env kind cfg) (bestEffort (nopNotifier kind))"
  by (auto simp: lifts_def notifySystemError_def notifyComponent_def nopNotifier_def bestEffort_def sink_LogSystemError_def sink_each_def
      sink_Flush_def nopSink_def bindIO_def attempt_def ret_def onStore_def)

lemma lifts_lock [lifting]: "lifts (acquireWriterLock host cfg) (bootstrapAcquireWriterLock nopNotifier (host_lockHeld host) (storeRoot cfg))"
  unfolding acquireWriterLock_def bootstrapAcquireWriterLock_def by (intro lifting)

lemma bindIO_assoc: "bindIO (bindIO m f) g = bindIO m (\<lambda>a. bindIO (f a) g)"
  by (auto simp: bindIO_def fun_eq_iff split: prod.split outcome.split)

lemma startUp_recover:
  assumes "loadConfig host (ConfigPath opt) = Inr cfg" "\<not> DryRun opt"
  shows "lifts (startUp host subcommandRecover opt)
    (bindIO (Bootstrap (Inr nopNotifier) (host_lockHeld host) False (Some (recoverStoreOpenMode (recoverOptions.truncate opt))) (storeRoot cfg) (storeIdentity cfg))
      (\<lambda>st. ret (\<lparr>boot_Config = cfg, boot_Options = opt, boot_Store = st\<rparr>, None)))"
  using assms unfolding startUp_def Bootstrap_def bootNotifier_def openStore_def
  by (auto simp: openMode_def bindIO_assoc intro!: lifts_bind lifts_mapErr lifts_attempt lifts_sink lifts_notify lifts_pure lifts_lock split: sum.split)

text \<open>
  C18. A recovery given on the command line is the recovery of the store: when the arguments are accepted and the configuration loads,
  \<^verbatim>\<open>runCLI\<close> runs \<^verbatim>\<open>recover\<close> on the root directory and identity of that configuration, changes nothing
  but the files and its notifier, and exits with the code of the recovery, or \<open>exitError\<close> when it fails; an incomplete confirmation or an unusable configuration exits
  with \<open>exitError\<close>, other unusable arguments with \<open>exitUsage\<close>, and neither changes a file.
\<close>

theorem runCLI_recover:
  "runCLI host args s =
     (case parseCLI args of
        Inl err \<Rightarrow> (Ok (if err = errYesRequiresMode then exitError else exitUsage), s)
      | Inr iv \<Rightarrow> (case loadConfig host (ConfigPath (inv_Options iv)) of
          Inl err \<Rightarrow> (Ok exitError, s\<lparr>cs_sink := nopSink\<rparr>)
        | Inr cfg \<Rightarrow>
            if inv_Subcommand iv \<noteq> subcommandRecover then runInvocation host iv (s\<lparr>cs_sink := nopSink\<rparr>)
            else let (r, w) = recoverCommand (host_lockHeld host) (storeRoot cfg) (storeIdentity cfg) (recoverOptions.truncate (inv_Options iv)) (cs_world s) in
              (case r of Ok code \<Rightarrow> Ok code | Err err \<Rightarrow> Ok exitError | Crashed \<Rightarrow> Crashed, s\<lparr>cs_sink := nopSink, cs_world := w\<rparr>)))"
proof -
  have run: "runInvocation host iv (s\<lparr>cs_sink := nopSink\<rparr>) =
      (let (r, w) = recoverCommand (host_lockHeld host) (storeRoot cfg) (storeIdentity cfg) (recoverOptions.truncate (inv_Options iv)) (cs_world s) in
        (case r of Ok code \<Rightarrow> Ok code | Err err \<Rightarrow> Ok exitError | Crashed \<Rightarrow> Crashed, s\<lparr>cs_sink := nopSink, cs_world := w\<rparr>))"
    if "parseCLI args = Inr iv" "loadConfig host (ConfigPath (inv_Options iv)) = Inr cfg" "inv_Subcommand iv = subcommandRecover" for iv cfg
  proof -
    have "\<not> DryRun (inv_Options iv)" using parseCLI_valid [OF that(1)] that(3) by (auto simp: valid_invocation_def Let_def)
    from startUp_recover [OF that(2) this] that(3) show ?thesis
      by (simp add: lifts_def runInvocation_def exitCode_def bindIO_def attempt_def recoverCommand_def onStore_def ret_def Let_def
          split: prod.split outcome.split)
  qed
  have unloaded: "runInvocation host iv t = (Ok exitError, t)" if "loadConfig host (ConfigPath (inv_Options iv)) = Inl err" for iv err t
    using that by (simp add: runInvocation_def startUp_def bindIO_def attempt_def fail_def ret_def)
  show ?thesis
    by (simp add: runCLI_def run unloaded useSink_def bindIO_def ret_def split: sum.split)
qed

end
