(* ===== verification/Store_Invariant.thy ===== *)
theory Store_Invariant
  imports Runner_VC Cmd_Main
begin

text \<open>
  An invariant of the store that holds at every moment of every history of the program: the data file, the sentinel and the manifest of a
  reset are each absent or complete, valid documents. Every operation of the store keeps it under every schedule of faults and
  crashes, hence so does every subcommand and every invocation of the command line.
\<close>

section \<open>The invariant\<close>

definition data_ok :: "internalDataFile \<Rightarrow> bool" where
  "data_ok df \<longleftrightarrow> df_Version df = DataFileVersion \<and> reports_ok df \<and> emails_ok df"

definition manifest_ok :: "resetManifest \<Rightarrow> bool" where
  "manifest_ok mf \<longleftrightarrow> manifest_Version mf = resetManifestVersion \<and> manifest_Phase mf \<in> {resetPhaseManifestWritten, resetPhaseCommitted}"

definition store_ok :: "path \<Rightarrow> store_view \<Rightarrow> bool" where
  "store_ok root V \<longleftrightarrow> (\<forall>q. prefix q root \<longrightarrow> \<not> file_at V q)
     \<and> (\<forall>n. V (dataFilePath root) = Some n \<longrightarrow> (\<exists>m df. n = Reg m (CData df) \<and> data_ok df))
     \<and> (\<forall>n. V (sentinelPath root) = Some n \<longrightarrow> (\<exists>m sf. n = Reg m (CSentinel sf) \<and> FormatVersion sf = SentinelFormatVersion))
     \<and> (\<forall>n. V (resetManifestPath root) = Some n \<longrightarrow> (\<exists>m mf. n = Reg m (CManifest mf) \<and> manifest_ok mf))"

text \<open>A change that replaces no document: protected paths stay, disappear, or are directories above the root.\<close>

definition documents :: "path \<Rightarrow> path set" where
  "documents root = {dataFilePath root, sentinelPath root, resetManifestPath root}"

definition spares :: "path \<Rightarrow> store_view \<Rightarrow> store_view \<Rightarrow> bool" where
  "spares root V V' \<longleftrightarrow> (\<forall>q. prefix q root \<or> q \<in> documents root \<longrightarrow>
     V' q = V q \<or> V' q = None \<or> prefix q root \<and> (\<exists>m. V' q = Some (Dir m)))"

lemma documents_below: "q \<in> documents root \<Longrightarrow> \<not> prefix q root"
  by (auto simp: documents_def path_defs)

lemma store_ok_spares:
  assumes "store_ok root V" "spares root V V'"
  shows "store_ok root V'"
proof -
  have doc: "V' q = V q \<or> V' q = None" if "q \<in> documents root" for q
    using spec [OF assms(2) [unfolded spares_def], of q] documents_below [OF that] that by simp
  have above: "\<not> file_at V' q" if "prefix q root" for q
  proof -
    have "V' q = V q \<or> V' q = None \<or> (\<exists>m. V' q = Some (Dir m))" using spec [OF assms(2) [unfolded spares_def], of q] that by auto
    then show ?thesis using assms(1) that by (auto simp: store_ok_def file_at_def)
  qed
  have same: "V' (dataFilePath root) = Some n \<Longrightarrow> V (dataFilePath root) = Some n" "V' (sentinelPath root) = Some n \<Longrightarrow> V (sentinelPath root) = Some n"
      "V' (resetManifestPath root) = Some n \<Longrightarrow> V (resetManifestPath root) = Some n" for n
    using doc [of "dataFilePath root"] doc [of "sentinelPath root"] doc [of "resetManifestPath root"] by (auto simp: documents_def)
  show ?thesis
    unfolding store_ok_def by (intro conjI allI impI above; (drule same, use assms(1) in \<open>simp add: store_ok_def\<close>)?)
qed

lemma spares_refl [simp]: "spares root V V"
  by (simp add: spares_def)

lemma spares_update: "\<not> prefix p root \<Longrightarrow> p \<notin> documents root \<Longrightarrow> spares root V (V(p := n))"
  by (auto simp: spares_def)

lemma spares_removals [simp]: "spares root V (V(p := None))" "spares root V (v_del_tree p V)" "spares root V (v_del_some p ps V)"
  by (auto simp: spares_def v_del_tree_def v_del_some_def)

lemma spares_mkdirs: "set ps \<inter> documents root = {} \<Longrightarrow> spares root V (v_mkdirs m ps V)"
  by (auto simp: spares_def v_mkdirs_def split: option.splits)

lemma spares_move:
  "(\<And>q. prefix q root \<or> q \<in> documents root \<Longrightarrow> \<not> prefix new q) \<Longrightarrow> spares root V (v_move old new V)"
  unfolding spares_def v_move_def by presburger

lemma store_ok_documents:
  assumes "store_ok root V"
  shows "data_ok df \<Longrightarrow> store_ok root (V(dataFilePath root \<mapsto> Reg m (CData df)))"
    "FormatVersion sf = SentinelFormatVersion \<Longrightarrow> store_ok root (V(sentinelPath root \<mapsto> Reg m (CSentinel sf)))"
    "manifest_ok mf \<Longrightarrow> store_ok root (V(resetManifestPath root \<mapsto> Reg m (CManifest mf)))"
  using assms by (auto simp: store_ok_def path_defs file_at_def)

lemma store_ok_data:
  assumes "store_ok (rootDir s) V" "standard_store s"
  obtains df where "data_of s V = Some df" "data_ok df"
proof (cases "V (dataPath s)")
  case None
  have "v_absent_errno V (dataPath s) = ENOENT"
    using assms by (auto simp: v_absent_errno_def store_ok_def standard_store_def path_defs strict_prefix_def)
  with None show thesis
    by (intro that [of emptyDataFile]) (simp_all add: data_of_def data_ok_def emptyDataFile_def reports_ok_def emails_ok_def)
next
  case (Some n)
  with assms obtain m df where "V (dataPath s) = Some (Reg m (CData df))" "data_ok df"
    by (auto simp: store_ok_def standard_store_def)
  then show thesis by (intro that [of df]) (simp_all add: data_of_def data_ok_def)
qed

section \<open>Steps\<close>

text \<open>Programs whose results satisfy a predicate; a program that goes on with such a result.\<close>

definition returns :: "('a \<Rightarrow> bool) \<Rightarrow> ('s, 'a) prog \<Rightarrow> bool" where
  "returns P m \<longleftrightarrow> (\<forall>s a s'. m s = (Ok a, s') \<longrightarrow> P a)"

lemma returns_rules:
  "P a \<Longrightarrow> returns P (ret a)" "returns P (fail e)" "(\<And>a. returns P (f a)) \<Longrightarrow> returns P (bindIO m f)"
  "returns P n \<Longrightarrow> returns P (mapErr g n)"
  "(b \<Longrightarrow> returns P m1) \<Longrightarrow> (\<not> b \<Longrightarrow> returns P m2) \<Longrightarrow> returns P (if b then m1 else m2)"
  "(\<And>e. returns P (g1 e)) \<Longrightarrow> (\<And>y. returns P (g2 y)) \<Longrightarrow> returns P (case r of Inl e \<Rightarrow> g1 e | Inr y \<Rightarrow> g2 y)"
  by (auto simp: returns_def ret_def fail_def bindIO_def mapErr_def split: prod.splits outcome.splits sum.splits)

lemma returns_bind: "returns P m \<Longrightarrow> (\<And>a. P a \<Longrightarrow> returns Q (f a)) \<Longrightarrow> returns Q (bindIO m f)"
  unfolding returns_def bindIO_def by (fastforce split: prod.splits outcome.splits)

context step_relation
begin

lemma kept_bind_result: "kept R m \<Longrightarrow> returns P m \<Longrightarrow> (\<And>a. P a \<Longrightarrow> kept R (f a)) \<Longrightarrow> kept R (bindIO m f)"
  unfolding kept_def bindIO_def returns_def by (auto split: prod.split outcome.split) (metis R_trans snd_conv)+

end

definition ok_step :: "path \<Rightarrow> content world \<Rightarrow> content world \<Rightarrow> bool" where
  "ok_step root w w' \<longleftrightarrow> (store_ok root (view w) \<longrightarrow> store_ok root (view w'))"

interpretation ok: step_relation "ok_step root" for root
  by unfold_locales (auto simp: ok_step_def)

named_theorems ok_keeping \<open>programs of the store that keep the invariant\<close>

lemmas ok_rules [ok_keeping] = ok.kept_rules

text \<open>Conditions that keep the invariant, with and without using it.\<close>

lemma ok_vwp:
  assumes "\<And>V. store_ok root V \<Longrightarrow> vwp False m (\<lambda>_. store_ok root) (\<lambda>_. store_ok root) (store_ok root) V"
  shows "kept (ok_step root) m"
  unfolding kept_def ok_step_def
proof (intro allI impI)
  fix w assume "store_ok root (view w)"
  then show "store_ok root (view (snd (m w)))"
    using vwp_cases [OF assms, of w "fst (m w)" "snd (m w)"] by (simp add: quiet_def split: outcome.splits)
qed

lemma ok_spares:
  assumes "\<And>V. vwp False m (\<lambda>_. spares root V) (\<lambda>_. spares root V) (spares root V) V"
  shows "kept (ok_step root) m"
  by (rule ok_vwp, rule vwp_conseq [OF assms]) (auto intro: store_ok_spares)

lemma ok_reads [ok_keeping]:
  "kept (ok_step root) nop" "kept (ok_step root) (stat p)" "kept (ok_step root) (readFile p)" "kept (ok_step root) (readDir p)"
  "kept (ok_step root) getNow" "kept (ok_step root) (walkTree p)"
  by (auto simp: kept_def ok_step_def nop_def stat_def readFile_def readDir_def getNow_def walkTree_def sys_def run_call_def no_part_def
      split: list.split fault.split option.split node.split)

lemma ok_removals [ok_keeping]: "clean p \<Longrightarrow> kept (ok_step root) (remove p)" "kept (ok_step root) (removeAll p)"
  by (rule ok_spares, auto intro!: vc)+

lemma ok_mkdirAll:
  assumes "clean p" "\<And>q. q \<in> documents root \<Longrightarrow> \<not> prefix q p"
  shows "kept (ok_step root) (mkdirAll p m)"
proof (rule ok_spares, rule vwp_mkdirAll [OF assms(1)])
  fix V :: store_view and ps
  show "spares root V (v_mkdirs m (prefixes p) V)" using assms(2) by (intro spares_mkdirs) auto
  have "spares root V (v_mkdirs m (filter (\<lambda>q. q \<in> set ps) (prefixes p)) V)" using assms(2) by (intro spares_mkdirs) auto
  then show "let V' = v_mkdirs m (filter (\<lambda>q. q \<in> set ps) (prefixes p)) V in spares root V V' \<and> spares root V V' \<and> spares root V V'"
    by (simp add: Let_def)
qed simp

lemma ok_openCreate: "clean p \<Longrightarrow> \<not> prefix p root \<Longrightarrow> p \<notin> documents root \<Longrightarrow> kept (ok_step root) (openCreate p m c)"
  by (rule ok_spares) (auto intro!: vc spares_update)

section \<open>Operations of the store\<close>

lemma below_documents: "root @ [x] \<notin> documents root \<Longrightarrow> q \<in> documents root \<Longrightarrow> \<not> prefix q (root @ x # xs)"
  by (auto simp: documents_def path_defs)

lemma ok_ensureDirExists:
  assumes "clean p" "\<And>q. q \<in> documents root \<Longrightarrow> \<not> prefix q p"
  shows "kept (ok_step root) (ensureDirExists p)"
  unfolding ensureDirExists_def by (intro ok_keeping ok_mkdirAll assms)

lemma ok_checks [ok_keeping]: "kept (ok_step root) (checkFilePermissions p)" "kept (ok_step root) (loadSentinel r)"
    "kept (ok_step root) (readResetManifest p)" "kept (ok_step root) (loadDataFile s)"
  unfolding checkFilePermissions_def loadSentinel_def readResetManifest_def loadDataFile_def
  by (intro ok_keeping | simp split: content.split add: ok.kept_rules)+

lemma ok_documents [ok_keeping]:
  assumes "clean root"
  shows "kept (ok_step root) (initDataFile root)"
    "FormatVersion sf = SentinelFormatVersion \<Longrightarrow> kept (ok_step root) (saveSentinel root sf)"
    "manifest_ok mf \<Longrightarrow> kept (ok_step root) (writeResetManifest (resetManifestPath root) mf)"
proof -
  note docs = store_ok_documents
  have c: "clean (dataFilePath root)" "clean (resetManifestPath root)" using assms by (simp_all add: path_defs)
  have empty: "data_ok emptyDataFile" by (simp add: data_ok_def emptyDataFile_def reports_ok_def emails_ok_def)
  show "kept (ok_step root) (initDataFile root)"
    unfolding initDataFile_def by (rule ok_vwp) (auto intro!: vc docs c empty)
  show "kept (ok_step root) (saveSentinel root sf)" if "FormatVersion sf = SentinelFormatVersion"
    by (rule ok_vwp) (auto intro!: vwp_saveSentinel docs assms that)
  show "kept (ok_step root) (writeResetManifest (resetManifestPath root) mf)" if "manifest_ok mf"
    by (rule ok_vwp) (auto intro!: vc docs c that)
qed

lemma ok_sentinel_update:
  assumes "clean (rootDir s)" "\<And>sf. FormatVersion sf = SentinelFormatVersion \<Longrightarrow> kept (ok_step (rootDir s)) (f sf)"
  shows "kept (ok_step (rootDir s)) (bindIO (wrapErr ctx (loadOrInitSentinelForWrite s)) f)"
proof (rule ok.kept_bind_result)
  show "kept (ok_step (rootDir s)) (wrapErr ctx (loadOrInitSentinelForWrite s))"
    unfolding loadOrInitSentinelForWrite_def by (intro ok_keeping)
  have "FormatVersion sf = SentinelFormatVersion" if "loadOrInitSentinelForWrite s w = (Ok sf, w')" for w sf w'
  proof -
    have "vwp False (loadOrInitSentinelForWrite s) (\<lambda>x V'. FormatVersion x = SentinelFormatVersion) (\<lambda>_ _. True) (\<lambda>_. True) (view w)"
      by (rule vwp_loadOrInitSentinelForWrite) (auto simp: assms(1))
    from vwp_cases [OF this _ that] show ?thesis by (simp add: quiet_def)
  qed
  then show "returns (\<lambda>sf. FormatVersion sf = SentinelFormatVersion) (wrapErr ctx (loadOrInitSentinelForWrite s))"
    by (intro returns_rules) (simp add: returns_def)
qed (rule assms(2))

lemma ok_guarded:
  assumes "clean (rootDir s)" "kept (ok_step (rootDir s)) fn"
  shows "kept (ok_step (rootDir s)) (withGuardExclusive s fn)"
  unfolding withGuardExclusive_def
  by (intro ok_keeping ok_openCreate assms) (use assms(1) in \<open>auto simp: documents_def path_defs\<close>)

lemma ok_validity [ok_keeping]:
  assumes "clean (rootDir s)"
  shows "kept (ok_step (rootDir s)) (SaveUIDValidity s v)" "kept (ok_step (rootDir s)) (SaveRecoveryRequired s pv cv t)"
    "kept (ok_step (rootDir s)) (HasPendingReset s)"
    "kept (ok_step (rootDir s)) (LoadUIDValidity s)" "kept (ok_step (rootDir s)) (LoadRecoveryRequired s)"
    "kept (ok_step (rootDir s)) (ApplyRecovery s v)"
proof -
  note sentinel = ok_sentinel_update [OF assms] ok_documents(2) [OF assms]
  show "kept (ok_step (rootDir s)) (SaveUIDValidity s v)"
    unfolding SaveUIDValidity_def by (intro ok_rules sentinel) simp
  show "kept (ok_step (rootDir s)) (SaveRecoveryRequired s pv cv t)"
    unfolding SaveRecoveryRequired_def by (intro ok_rules ok_guarded assms sentinel) simp
  show pending: "kept (ok_step (rootDir s)) (HasPendingReset s)"
    unfolding HasPendingReset_def by (intro ok_keeping)
  show "kept (ok_step (rootDir s)) (LoadUIDValidity s)" "kept (ok_step (rootDir s)) (LoadRecoveryRequired s)"
    unfolding LoadUIDValidity_def LoadRecoveryRequired_def by (intro ok_keeping)+
  show "kept (ok_step (rootDir s)) (ApplyRecovery s v)"
    unfolding ApplyRecovery_def by (intro ok_rules pending ok_guarded assms sentinel) simp
qed

lemma ok_rename_staging:
  assumes "clean root" "x \<in> {''tlsrpt.json'', ''emails''}"
  shows "kept (ok_step root) (rename (root @ [x]) (resetStagingPath root @ [x]))"
proof (rule ok_spares, rule vwp_rename)
  fix V :: store_view
  have inside: "\<not> prefix (resetStagingPath root @ [x]) q" if "prefix q root \<or> q \<in> documents root" for q
    using that by (auto simp: documents_def path_defs dest!: prefix_length_le)
  have move: "spares root V (v_move (root @ [x]) (resetStagingPath root @ [x]) V)"
    and put: "spares root V (V(root @ [x] := None, resetStagingPath root @ [x] \<mapsto> n))" for n
  proof -
    show "spares root V (v_move (root @ [x]) (resetStagingPath root @ [x]) V)" using inside by (rule spares_move)
    have "resetStagingPath root @ [x] \<noteq> q" if "prefix q root \<or> q \<in> documents root" for q using inside [OF that] by auto
    then show "spares root V (V(root @ [x] := None, resetStagingPath root @ [x] \<mapsto> n))" unfolding spares_def by (metis fun_upd_apply)
  qed
  show "case V (resetStagingPath root @ [x]) of None \<Rightarrow> spares root V (v_move (root @ [x]) (resetStagingPath root @ [x]) V)
      | Some n \<Rightarrow> if is_dir n then spares root V (v_move (root @ [x]) (resetStagingPath root @ [x]) V) \<and> spares root V V else spares root V V"
    using move by (simp split: option.split)
  show "if \<exists>m''. V (resetStagingPath root @ [x]) = Some (Dir m'') then spares root V V
      else spares root V (V(root @ [x] := None, resetStagingPath root @ [x] \<mapsto> Reg m' c))" for m' c
    using put by simp
qed (use assms in \<open>auto simp: path_defs\<close>)

lemma ok_staging [ok_keeping]:
  assumes "clean root"
  shows "kept (ok_step root) (stageDataFile root (resetStagingPath root))" "kept (ok_step root) (stageEmailsDir root (resetStagingPath root))"
    "kept (ok_step root) (mkdirAll (resetStagingPath root) m)"
  unfolding stageDataFile_def stageEmailsDir_def
  using ok_rename_staging [OF assms, of "''tlsrpt.json''"] ok_rename_staging [OF assms, of "''emails''"] assms
  by (auto intro!: ok_keeping ok_mkdirAll simp: dataFilePath_def [of root, symmetric] emailsPath_def [of root, symmetric])
     (auto simp: documents_def path_defs)

lemma ok_reset:
  assumes "clean (rootDir s)"
  shows "kept (ok_step (rootDir s)) (ResetForRecovery s v)"
proof -
  let ?R = "ok_step (rootDir s)" and ?m = "resetManifestPath (rootDir s)" and ?g = "resetStagingPath (rootDir s)"
  note base = ok_keeping assms ok_staging [OF assms]
  have m: "clean ?m" using assms by (simp add: path_defs)
  have written: "manifest_ok \<lparr>manifest_Version = resetManifestVersion, manifest_CurrUIDValidity = u, manifest_Phase = p\<rparr>"
    if "p \<in> {resetPhaseManifestWritten, resetPhaseCommitted}" for u p
    using that by (simp add: manifest_ok_def)
  have commit: "kept ?R (commitReset s ?m u)" for u
    unfolding commitReset_def
    by (intro ok_rules ok_guarded ok_sentinel_update assms ok_documents written) simp_all
  have execute: "kept ?R (executeResetFromManifest s mf ?g ?m)" for mf
    unfolding executeResetFromManifest_def advanceResetPhases_def removeIfExists_def by (intro base commit m)
  have stale: "kept ?R (removeStaleCommittedManifest ?g ?m)"
    unfolding removeStaleCommittedManifest_def removeIfExists_def by (intro base m)
  have init: "kept ?R (initResetManifest s u ?g ?m)" for u
    unfolding initResetManifest_def Let_def by (intro base written) simp
  show ?thesis
    unfolding ResetForRecovery_def Let_def startReset_def resumeOrCleanupCommitted_def
    by (intro ok_rules ok_reads ok_checks ok_validity assms execute stale init)
qed

lemma data_put_ok: "standard_store s \<Longrightarrow> store_ok (rootDir s) V \<Longrightarrow> data_ok df \<Longrightarrow> store_ok (rootDir s) (put_data s df V)"
  by (simp add: put_data_def standard_store_def store_ok_documents)

lemma data_ok_operations:
  assumes "data_ok df"
  shows "data_ok (save_reports df inputs)" "data_ok (delete_reports cutoff df)" "data_ok (save_metas df ms)"
    "data_ok (df\<lparr>df_Emails := filter P (df_Emails df)\<rparr>)"
  using assms save_reports_refines [of df inputs] metas.fold_keys [of "df_Emails df" "map entry_of_meta ms"]
  by (auto simp: data_ok_def reports_ok_def emails_ok_def delete_reports_def save_metas_def distinct_map_filter)

lemma ok_data_operation:
  assumes "standard_store s"
    "\<And>V df. store_ok (rootDir s) V \<Longrightarrow> data_of s V = Some df \<Longrightarrow> data_ok df \<Longrightarrow>
       vwp False m (\<lambda>_. store_ok (rootDir s)) (\<lambda>_. store_ok (rootDir s)) (store_ok (rootDir s)) V"
  shows "kept (ok_step (rootDir s)) m"
proof (rule ok_vwp)
  fix V assume ok: "store_ok (rootDir s) V"
  obtain df where "data_of s V = Some df" "data_ok df" using store_ok_data [OF ok assms(1)] .
  with assms(2) [OF ok] show "vwp False m (\<lambda>_. store_ok (rootDir s)) (\<lambda>_. store_ok (rootDir s)) (store_ok (rootDir s)) V" by blast
qed

lemma store_ok_swept:
  assumes "store_ok (rootDir s) V" "standard_store s" "swept s cutoff df G V V'" "data_ok df"
  shows "store_ok (rootDir s) V'"
proof -
  let ?df = "df\<lparr>df_Emails := filter (\<lambda>e. e \<notin> G) (df_Emails df)\<rparr>"
  have p: "dataPath s = dataFilePath (rootDir s)" using assms(2) by (simp add: standard_store_def)
  have "data_ok ?df" using data_ok_operations(4) [OF assms(4)] .
  then have data: "\<exists>m df. n = Reg m (CData df) \<and> data_ok df" if "V' (dataFilePath (rootDir s)) = Some n" for n
    using assms(3) that by (auto simp: swept_def data_of_def p split: node.splits content.splits if_splits)
  have "spares (rootDir s) V (V'(dataFilePath (rootDir s) := None))"
    using assms(3) by (auto simp: spares_def swept_def p)
  from store_ok_spares [OF assms(1) this] have ok: "store_ok (rootDir s) (V'(dataFilePath (rootDir s) := None))" .
  show ?thesis
  proof (cases "V' (dataFilePath (rootDir s))")
    case None
    then have "V'(dataFilePath (rootDir s) := None) = V'" by (simp add: fun_upd_idem)
    with ok show ?thesis by simp
  next
    case (Some n)
    with data obtain m df' where n: "n = Reg m (CData df')" "data_ok df'" by blast
    have "V' = (V'(dataFilePath (rootDir s) := None))(dataFilePath (rootDir s) \<mapsto> Reg m (CData df'))" using Some n by (simp add: fun_upd_idem)
    with store_ok_documents(1) [OF ok n(2), of m] show ?thesis by simp
  qed
qed

lemma ok_data [ok_keeping]:
  assumes "standard_store s"
  shows "kept (ok_step (rootDir s)) (SaveReports s inputs)" "kept (ok_step (rootDir s)) (DeleteReportsBefore s cutoff)"
    "kept (ok_step (rootDir s)) (SaveEmailMetas s ms)" "kept (ok_step (rootDir s)) (DeleteEmailsBefore s cutoff)"
proof -
  note c = standard_paths(5) [OF assms]
  note put = data_put_ok [OF assms _ data_ok_operations(1)] data_put_ok [OF assms _ data_ok_operations(2)]
    data_put_ok [OF assms _ data_ok_operations(3)]
  show "kept (ok_step (rootDir s)) (SaveReports s inputs)"
  proof (cases "readOnly s")
    case True
    then show ?thesis unfolding SaveReports_def by (simp add: ok_rules)
  next
    case False
    then show ?thesis
      by (intro ok_data_operation [OF assms] vwp_conseq [OF vwp_SaveReports [OF c]]) (auto intro: put simp: data_ok_def)
  qed
  show "kept (ok_step (rootDir s)) (DeleteReportsBefore s cutoff)"
  proof (cases "readOnly s")
    case True
    then show ?thesis unfolding DeleteReportsBefore_def by (simp add: ok_rules)
  next
    case False
    then show ?thesis
      by (intro ok_data_operation [OF assms] vwp_conseq [OF vwp_DeleteReportsBefore [OF c]]) (auto intro: put simp: after_delete_def)
  qed
  show "kept (ok_step (rootDir s)) (SaveEmailMetas s ms)"
    by (intro ok_data_operation [OF assms] vwp_conseq [OF vwp_SaveEmailMetas [OF c]]) (auto intro: put)
  show "kept (ok_step (rootDir s)) (DeleteEmailsBefore s cutoff)"
    by (intro ok_data_operation [OF assms] vwp_conseq [OF vwp_DeleteEmailsBefore [OF assms]])
      (auto simp: data_ok_def emails_ok_def distinct_map intro: store_ok_swept [OF _ assms])
qed

lemma ok_SaveEmail [ok_keeping]:
  assumes "clean (rootDir s)"
  shows "kept (ok_step (rootDir s)) (SaveEmail s uid uv t raw)"
proof -
  let ?target = "buildEmailPath (rootDir s) uid uv t"
  have target: "\<not> prefix q ?target" if "q \<in> documents (rootDir s)" for q
    using that by (auto simp: documents_def buildEmailPath_def path_defs)
  have "spares (rootDir s) V V'" if saved: "saved_at ?target (CRaw raw) V V'" for V V'
    unfolding spares_def
  proof (intro allI impI)
    fix q assume q: "prefix q (rootDir s) \<or> q \<in> documents (rootDir s)"
    have "q \<noteq> ?target" using q target by (auto simp: buildEmailPath_def dest!: prefix_length_le)
    moreover have "strict_prefix q ?target \<Longrightarrow> prefix q (rootDir s)" using q target by (auto simp: strict_prefix_def)
    ultimately show "V' q = V q \<or> V' q = None \<or> prefix q (rootDir s) \<and> (\<exists>m. V' q = Some (Dir m))"
      using spec [OF saved [unfolded saved_at_def], of q] by auto
  qed
  then show ?thesis
    by (intro ok_spares vwp_conseq [OF vwp_SaveEmail [OF assms refl]]) auto
qed

lemma ok_walk [ok_keeping]: "kept (ok_step root) (walk_emails readMessage dir dates skip result errs entries)"
proof (induction entries arbitrary: skip result errs)
  case Nil
  then show ?case by (simp add: ok_rules)
next
  case (Cons e entries)
  obtain path node where e: "e = (path, node)" by (cases e)
  have load: "kept (ok_step root) (loadEmailFile readMessage dir dates path)"
    unfolding loadEmailFile_def Let_def by (intro ok_keeping)
  show ?case unfolding e walk_emails.simps by (intro ok_keeping Cons.IH load)
qed

lemma ok_case_node [ok_keeping]:
  "(\<And>m. kept (ok_step root) (f m)) \<Longrightarrow> (\<And>m c. kept (ok_step root) (g m c)) \<Longrightarrow> kept (ok_step root) (case n of Dir m \<Rightarrow> f m | Reg m c \<Rightarrow> g m c)"
  by (simp split: node.split)

lemma ok_queries [ok_keeping]:
  "kept (ok_step root) (LoadEmails readMessage s)" "kept (ok_step root) (CountReportsBefore s cutoff)" "kept (ok_step root) (CountEmailsBefore s cutoff)"
  "kept (ok_step root) (GetAllReports s)" "kept (ok_step root) (localEmailSize env r uid uv t)" "kept (ok_step root) (loadLocalEML env r uid uv t)"
  unfolding LoadEmails_def validateEmailsDir_def loadIndexedEmailDates_def CountReportsBefore_def CountEmailsBefore_def GetAllReports_def
    localEmailSize_def loadLocalEML_def
  by ((intro ok_keeping)+)

lemma ok_guard [ok_keeping]:
  assumes "clean root"
  shows "kept (ok_step root) (openCreate (guardFilePath root) m c)" "kept (ok_step root) (openCreate (LockPath root) m c)"
  using assms by (auto intro!: ok_openCreate simp: documents_def store_path_defs)

lemma ok_Open:
  assumes "clean root"
  shows "kept (ok_step root) (Open root ident m)"
proof -
  have dirs: "kept (ok_step root) (ensureDirExists root)" "kept (ok_step root) (ensureDirExists (emailsPath root))"
    using assms by (auto intro!: ok_ensureDirExists simp: documents_def path_defs)
  have m: "clean (resetManifestPath root)" using assms by (simp add: path_defs)
  have cleanup: "kept (ok_step root) (cleanupCompletedReset root)"
    unfolding cleanupCompletedReset_def removeLeftovers_def cleanupOrphanedStaging_def by (intro ok_keeping m)
  have prepare: "kept (ok_step root) (prepareStore root m)"
    unfolding prepareStore_def by (intro ok_keeping assms dirs)
  have bind: "kept (ok_step root) (bindIdentity root ident m)"
    unfolding bindIdentity_def initSentinel_def Let_def by (intro ok_keeping assms) simp
  show ?thesis unfolding Open_def by (intro ok_rules cleanup prepare bind)
qed

lemma ok_boot [ok_keeping]:
  assumes "clean root"
  shows "kept (ok_step root) (Acquire held (LockPath root))" "kept (ok_step root) (validateAndEnsureRootDir root)"
    "kept (ok_step root) (bootstrapSummary root ident)"
proof -
  have root: "kept (ok_step root) (mkdirAll root m)" for m
    using assms by (auto intro!: ok_mkdirAll simp: documents_def path_defs)
  have guard: "kept (ok_step root) (AcquireSummaryConsistencyGuard st)" if "rootDir st = root" for st
    unfolding AcquireSummaryConsistencyGuard_def that by (intro ok_keeping assms)
  show "kept (ok_step root) (Acquire held (LockPath root))" unfolding Acquire_def by (intro ok_keeping assms)
  show "kept (ok_step root) (validateAndEnsureRootDir root)" unfolding validateAndEnsureRootDir_def by (intro ok_keeping root)
  show "kept (ok_step root) (bootstrapSummary root ident)"
    unfolding bootstrapSummary_def
  proof (rule ok.kept_bind_result [where P = "\<lambda>st. rootDir st = root"])
    show "returns (\<lambda>st. rootDir st = root) (wrapErr ''open summary store'' (Open root ident OpenReadOnly))"
      unfolding Open_def by (intro returns_rules) simp
  qed (intro ok_rules ok_Open assms guard | assumption)+
qed

section \<open>Subcommands and whole invocations\<close>

definition cmd_ok :: "path \<Rightarrow> cmd_state \<Rightarrow> cmd_state \<Rightarrow> bool" where
  "cmd_ok root s s' \<longleftrightarrow> ok_step root (cs_world s) (cs_world s')"

interpretation cmd_ok: step_relation "cmd_ok root" for root
  by unfold_locales (auto simp: cmd_ok_def ok_step_def)

named_theorems cmd_keeping \<open>programs of subcommands that keep the invariant\<close>

lemmas cmd_ok_rules [cmd_keeping] = cmd_ok.kept_rules

lemma cmd_ok_onStore [cmd_keeping]: "kept (ok_step root) m \<Longrightarrow> kept (cmd_ok root) (onStore m)"
  by (auto simp: kept_def cmd_ok_def onStore_def split: prod.split) (metis snd_conv)

text \<open>Everything else leaves the files alone.\<close>

lemma cmd_ok_elsewhere [cmd_keeping]:
  "kept (cmd_ok root) (onImap n)" "kept (cmd_ok root) (connect env cfg)" "kept (cmd_ok root) (sink_each f)" "kept (cmd_ok root) (sink_Flush env)"
  "kept (cmd_ok root) (useSink sink)" "kept (cmd_ok root) (useNotifier built)" "kept (cmd_ok root) crash"
  by (auto simp: kept_def cmd_ok_def ok_step_def onImap_def connect_def sink_each_def sink_Flush_def useSink_def useNotifier_def crash_def
      split: prod.split sum.split option.split)

lemma cmd_ok_logs [cmd_keeping]:
  "kept (cmd_ok root) (sink_LogAlert env a)" "kept (cmd_ok root) (sink_LogWarning w)" "kept (cmd_ok root) (sink_LogSystemError e)"
  "kept (cmd_ok root) (sink_LogSummary sm)" "kept (cmd_ok root) (logWarn kind uid uv mid)"
  "kept (cmd_ok root) (notifyComponent env component kind mailbox)"
  unfolding sink_LogAlert_def sink_LogWarning_def sink_LogSystemError_def sink_LogSummary_def logWarn_def notifyComponent_def
  by (intro cmd_keeping)+

lemma cmd_ok_logAlerts [cmd_keeping]: "kept (cmd_ok root) (logAlerts env report)"
proof -
  have "kept (cmd_ok root) (alert_loop env report ps)" for ps by (induction ps) (auto intro!: cmd_keeping)
  then show ?thesis by (simp add: logAlerts_def)
qed

lemma cmd_ok_loops [cmd_keeping]:
  assumes "standard_store (boot_Store boot)"
  shows "kept (cmd_ok root) (buildFetchStates env msgs uv r)" "kept (cmd_ok (rootDir (boot_Store boot))) (save_loop env boot dl uv mailbox ss)"
    "kept (cmd_ok root) (attachment_loop env meta uv atts)" "kept (cmd_ok root) (fetchCollectReports env boot ss uv r)"
    "kept (cmd_ok root) (reprocess_attachments env nt uid uv atts)" "kept (cmd_ok root) (reprocessCollectReports env mb nt es)"
    "kept (cmd_ok root) (warn_failures fs')"
proof -
  note c = standard_paths(4) [OF assms]
  show "kept (cmd_ok root) (buildFetchStates env msgs uv r)" by (induction msgs) (auto intro!: cmd_keeping ok_keeping)
  show "kept (cmd_ok (rootDir (boot_Store boot))) (save_loop env boot dl uv mailbox ss)"
    by (induction ss) (simp add: cmd_keeping, simp only: save_loop.simps notifyFetchSystemError_def, intro cmd_keeping ok_SaveEmail c)
  show atts: "kept (cmd_ok root) (attachment_loop env meta uv atts)" for atts meta
    by (induction atts) (simp add: cmd_keeping, simp only: attachment_loop.simps, intro cmd_keeping)
  show "kept (cmd_ok root) (fetchCollectReports env boot ss uv r)"
    by (induction ss) (simp add: cmd_keeping, simp only: fetchCollectReports.simps collectMessage_def processAttachments_def, intro cmd_keeping ok_keeping atts)
  show ratts: "kept (cmd_ok root) (reprocess_attachments env nt uid uv atts)" for uid uv atts
    by (induction atts) (simp add: cmd_keeping, simp only: reprocess_attachments.simps, intro cmd_keeping)
  show "kept (cmd_ok root) (reprocessCollectReports env mb nt es)"
    by (induction es) (simp add: cmd_keeping, simp only: reprocessCollectReports.simps, intro cmd_keeping ratts)
  show "kept (cmd_ok root) (warn_failures fs')"
    by (induction fs' rule: warn_failures.induct) (simp_all, (intro cmd_keeping | assumption)+)
qed

lemma cmd_ok_runners:
  assumes "standard_store (boot_Store boot)"
  shows "kept (cmd_ok (rootDir (boot_Store boot))) (fetchRun env boot)" "kept (cmd_ok (rootDir (boot_Store boot))) (gcRun env boot)"
    "kept (cmd_ok (rootDir (boot_Store boot))) (reprocessRun env boot)" "kept (cmd_ok root) (summaryRun env built guard boot)"
proof -
  note c = standard_paths(4) [OF assms]
  have joined: "kept (ok_step (rootDir (boot_Store boot))) (joined m)" if "kept (ok_step (rootDir (boot_Store boot))) m" for m :: "(int \<times> go_error list) store_io"
    unfolding joined_def by (intro ok_rules that)
  note base = joined cmd_keeping ok_validity [OF c] ok_data [OF assms] ok_queries ok_reads cmd_ok_loops [OF assms]
  show "kept (cmd_ok (rootDir (boot_Store boot))) (fetchRun env boot)"
    unfolding fetchRun_def fetchSession_def fetchValidateUID_def fetchDryRunExit_def fetchDownloadAndSave_def fetchCommit_def fetchMarkSeen_def
      notifyFetchSystemError_def Let_def by (intro base)
  show "kept (cmd_ok (rootDir (boot_Store boot))) (gcRun env boot)"
    unfolding gcRun_def gcAt_def runDelete_def runDryRun_def deleteIMAPOlderThan_def searchIMAPOlderThan_def gcStep_def
      notifyGCSystemError_def Let_def by (intro base)
  show "kept (cmd_ok (rootDir (boot_Store boot))) (reprocessRun env boot)"
    unfolding reprocessRun_def notifyReprocessSystemError_def Let_def by (intro base)
  show "kept (cmd_ok root) (summaryRun env built guard boot)"
    unfolding summaryRun_def logSummarySystemError_def GenerateSummary_def CheckRecoveryRequired_def Let_def
    by (cases guard) (simp_all, (intro cmd_keeping ok_keeping)+)
qed

lemma returns_more: "returns P m \<Longrightarrow> returns (\<lambda>r. case r of Inl e \<Rightarrow> True | Inr a \<Rightarrow> P a) (attempt m)" "returns P n \<Longrightarrow> returns P (onStore n)"
  by (auto simp: returns_def attempt_def onStore_def split: prod.splits outcome.splits)

text \<open>The context a runner gets.\<close>

definition booted :: "SubcommandName \<Rightarrow> cliOptions \<Rightarrow> Config \<Rightarrow> BootContext \<Rightarrow> bool" where
  "booted subcmd opt cfg boot \<longleftrightarrow> boot_Config boot = cfg \<and> boot_Options boot = opt
     \<and> boot_Store boot = newFileStore (storeRoot cfg) (storeIdentity cfg) (if subcmd = subcommandSummary then OpenReadOnly else openMode subcmd opt)"

lemma startUp_returns:
  assumes "loadConfig host (ConfigPath opt) = Inr cfg"
  shows "returns (\<lambda>(boot, guard). booted subcmd opt cfg boot) (startUp host subcmd opt)"
proof -
  have opened: "returns (\<lambda>st. st = newFileStore (storeRoot cfg) (storeIdentity cfg) m) (Open (storeRoot cfg) (storeIdentity cfg) m)" for m
    unfolding Open_def by (intro returns_rules refl)
  have store: "returns (\<lambda>st. st = newFileStore (storeRoot cfg) (storeIdentity cfg) m) (openStore host cfg m)" for m
    unfolding openStore_def by (rule returns_bind [OF returns_more(1) [OF returns_more(2) [OF opened]]]) (auto intro!: returns_rules split: sum.splits)
  have summary: "returns (\<lambda>(st, g). st = newFileStore (storeRoot cfg) (storeIdentity cfg) OpenReadOnly) (bootstrapSummary (storeRoot cfg) (storeIdentity cfg))"
    unfolding bootstrapSummary_def by (rule returns_bind [OF returns_rules(4) [OF opened]]) (auto intro!: returns_rules)
  show ?thesis
    unfolding startUp_def assms sum.case
    by (intro returns_rules returns_bind [OF returns_more(2) [OF summary]] returns_bind [OF store]) (auto simp: booted_def intro!: returns_rules)
qed

lemma booted_standard: "booted subcmd opt cfg boot \<Longrightarrow> clean (storeRoot cfg) \<Longrightarrow> standard_store (boot_Store boot) \<and> rootDir (boot_Store boot) = storeRoot cfg"
  by (simp add: booted_def standard_store_def newFileStore_def)

lemma cmd_ok_startUp:
  assumes "clean root" "\<And>cfg. loadConfig host (ConfigPath opt) = Inr cfg \<Longrightarrow> storeRoot cfg = root"
  shows "kept (cmd_ok root) (startUp host subcmd opt)"
proof (cases "loadConfig host (ConfigPath opt)")
  case (Inl err)
  then show ?thesis unfolding startUp_def by (simp add: cmd_keeping)
next
  case (Inr cfg)
  show ?thesis
    unfolding startUp_def Inr sum.case assms(2) [OF Inr] bootNotifier_def acquireWriterLock_def openStore_def notifySystemError_def
    by (intro cmd_keeping ok_boot ok_Open assms(1))
qed

lemma ok_recoverRun: "clean (rootDir st) \<Longrightarrow> kept (ok_step (rootDir st)) (recoverRun st opt)"
  unfolding recoverRun_def handleNoRecoveryRequired_def executeMode_def runKeepOld_def runDiscardOld_def
  by (intro ok_rules ok_validity ok_reset)

lemma cmd_ok_subcommand:
  assumes "standard_store (boot_Store boot)"
  shows "kept (cmd_ok (rootDir (boot_Store boot))) (runSubcommand host subcmd boot guard)"
  using cmd_ok_runners [OF assms] ok_recoverRun [OF standard_paths(4) [OF assms]]
  by (cases subcmd) (auto intro!: cmd_keeping split: option.split)

lemma cmd_ok_invocation:
  assumes "clean root" "\<And>cfg. loadConfig host (ConfigPath (inv_Options iv)) = Inr cfg \<Longrightarrow> storeRoot cfg = root"
  shows "kept (cmd_ok root) (runInvocation host iv)"
proof (cases "loadConfig host (ConfigPath (inv_Options iv))")
  case (Inl err)
  then have "runInvocation host iv = ret exitError"
    by (simp add: runInvocation_def startUp_def fun_eq_iff bindIO_def attempt_def fail_def ret_def)
  then show ?thesis by (simp add: cmd_ok_rules)
next
  case (Inr cfg)
  let ?P = "\<lambda>r :: go_error + BootContext \<times> SummaryConsistencyGuard option. case r of Inl e \<Rightarrow> True | Inr (boot, guard) \<Rightarrow> booted (inv_Subcommand iv) (inv_Options iv) cfg boot"
  show ?thesis
    unfolding runInvocation_def
  proof (rule cmd_ok.kept_bind_result [where P = ?P])
    show "kept (cmd_ok root) (attempt (startUp host (inv_Subcommand iv) (inv_Options iv)))"
      using assms by (intro cmd_ok_rules cmd_ok_startUp)
    show "returns ?P (attempt (startUp host (inv_Subcommand iv) (inv_Options iv)))"
      using returns_more(1) [OF startUp_returns [OF Inr]] by (simp add: case_prod_unfold)
    fix r :: "go_error + BootContext \<times> SummaryConsistencyGuard option"
    assume "?P r"
    then show "kept (cmd_ok root) (case r of Inl err \<Rightarrow> ret exitError
        | Inr (boot, guard) \<Rightarrow> exitCode (runSubcommand host (inv_Subcommand iv) boot guard))"
      using cmd_ok_subcommand [of "fst (projr r)"] booted_standard [of _ _ cfg "fst (projr r)"] assms
      unfolding exitCode_def by (auto split: sum.splits intro!: cmd_keeping simp: Inr)
  qed
qed

end
