(* ===== verification/Fetch_Safety.thy ===== *)
theory Fetch_Safety
  imports Runner_VC
begin

text \<open>
  What a run of \<^verbatim>\<open>fetch\<close> promises about mails: a message is marked as seen only when its mail and the
  reports in it are stored, whatever fails on the way; and a case in which a stored mail is never parsed.
\<close>

section \<open>Stored mails\<close>

abbreviation mail_path :: "fileStore \<Rightarrow> u32 \<Rightarrow> fetchMsgState \<Rightarrow> path" where
  "mail_path st uv s \<equiv> buildEmailPath (rootDir st) (mm_UID (st_meta s)) uv (mm_Date (st_meta s))"

lemma fetchEmailPath_eq: "fetchEmailPath = buildEmailPath"
  by (simp add: fun_eq_iff fetchEmailPath_def buildEmailPath_def email_month_def email_file_def)

definition holds_mail :: "'b env \<Rightarrow> fileStore \<Rightarrow> u32 \<Rightarrow> fetchMsgState \<Rightarrow> store_view \<Rightarrow> bool" where
  "holds_mail env st uv s V \<longleftrightarrow> (\<exists>m c. V (mail_path st uv s) = Some (Reg m c) \<and> (\<forall>raw. rawEML s = Some raw \<longrightarrow> content_bytes env c = raw))"

text \<open>The reports in the bytes of a mail.\<close>

definition reports_in :: "'b env \<Rightarrow> int \<Rightarrow> string \<Rightarrow> Report list" where
  "reports_in env maxBytes raw = (case env_readMessage env raw of
       None \<Rightarrow> []
     | Some msg \<Rightarrow> (case ExtractAttachments (env_mime env) msg maxBytes of
           Inl _ \<Rightarrow> []
         | Inr atts \<Rightarrow> List.map_filter (\<lambda>att. case parseTLSRPTAttachment env att of Some (Inr r) \<Rightarrow> Some r | _ \<Rightarrow> None) atts))"

lemma vwp_localEmailSize:
  assumes "clean root"
  shows "vwp False (localEmailSize env root uid uv t)
    (\<lambda>r V'. V' = V \<and> (r \<noteq> None \<longleftrightarrow> (\<exists>m c. V (buildEmailPath root uid uv t) = Some (Reg m c)))) (\<lambda>_ V'. V' = V) (\<lambda>V'. V' = V) V"
  unfolding localEmailSize_def fetchEmailPath_eq
  apply (rule vc)+
     apply (simp add: assms)
  subgoal for n by (cases n) (auto intro!: vc)
  subgoal by (auto intro!: vc)
  subgoal by (auto intro!: vc simp: is_not_exist_def)
  done

lemma cwp_buildFetchStates:
  assumes "clean (rootDir st)"
  shows "cwp (buildFetchStates env msgs uv (rootDir st))
    (\<lambda>states V' T'. V' = V \<and> T' = T \<and> map st_meta states = msgs \<and> (\<forall>s \<in> set states. rawEML s = None \<and> (emlExistedBefore s \<longleftrightarrow> (\<exists>m c. V (mail_path st uv s) = Some (Reg m c)))))
    (\<lambda>_ V' T'. V' = V \<and> T' = T) (\<lambda>V' T'. V' = V \<and> T' = T) V T"
proof (induction msgs)
  case Nil
  then show ?case by (auto intro!: cvc)
next
  case (Cons meta msgs)
  show ?case
    unfolding buildFetchStates.simps
    apply (rule cwp_bind, rule cwp_mapErr, rule cwp_onStore [OF vwp_localEmailSize [OF assms]])
    subgoal for n V'
      apply (elim conjE, hypsubst, rule cwp_bind)
      apply (rule cwp_conseq [where Q = "\<lambda>_ V' T'. V' = V \<and> T' = T" and E = "\<lambda>_ _ _. False" and C = "\<lambda>_ _. False"])
         apply (auto intro!: cvc)[1]
        apply (elim conjE, hypsubst, rule cwp_bind, rule cwp_conseq [OF Cons.IH])
      by (auto intro!: cvc)
    by auto
qed

text \<open>Storing mails leaves what is there and does not touch the data file.\<close>

lemma saved_at_keep: "saved_at target c V V' \<Longrightarrow> V q = Some n \<Longrightarrow> V' q = Some n"
  unfolding saved_at_def by (metis option.distinct(1))

lemma saved_at_other: "saved_at target c V V' \<Longrightarrow> q \<noteq> target \<Longrightarrow> V' q = V q \<or> (\<exists>m. V' q = Some (Dir m))"
  unfolding saved_at_def by metis

lemma data_of_saved_at:
  assumes "standard_store st" "saved_at (buildEmailPath (rootDir st) uid uv t) c V V'"
  shows "data_of st V' = data_of st V"
proof -
  let ?t = "buildEmailPath (rootDir st) uid uv t"
  have p: "dataPath st = rootDir st @ [''tlsrpt.json'']" using assms(1) by (simp add: standard_store_def path_defs)
  have apart: "\<not> strict_prefix (dataPath st) ?t" "dataPath st \<noteq> ?t" "\<not> strict_prefix ?t (dataPath st)"
    by (auto simp: p buildEmailPath_def strict_prefix_def)
  have "V' (dataPath st) = V (dataPath st)" using assms(2) apart unfolding saved_at_def by metis
  moreover have "file_at V' q = file_at V q" if "strict_prefix q (dataPath st)" for q
  proof -
    have "q \<noteq> ?t" using that apart(3) by blast
    then have "V' q = V q \<or> V q = None \<and> V' q = Some (Dir dirPerm)" using assms(2) unfolding saved_at_def by metis
    then show ?thesis by (auto simp: file_at_def)
  qed
  then have "v_absent_errno V' (dataPath st) = v_absent_errno V (dataPath st)"
    unfolding v_absent_errno_def by (metis (no_types))
  ultimately show ?thesis by (simp add: data_of_def)
qed

text \<open>The mail of a message that is to be downloaded is absent, in the way, or already the downloaded one.\<close>

definition pending_mail :: "fileStore \<Rightarrow> u32 \<Rightarrow> (u32 \<rightharpoonup> string) \<Rightarrow> fetchMsgState \<Rightarrow> store_view \<Rightarrow> bool" where
  "pending_mail st uv dl s V \<longleftrightarrow> rawEML s = None \<and>
     (if emlExistedBefore s then \<exists>m c. V (mail_path st uv s) = Some (Reg m c)
      else \<forall>m c. V (mail_path st uv s) = Some (Reg m c) \<longrightarrow> dl (mm_UID (st_meta s)) \<noteq> None \<and> c = CRaw (the (dl (mm_UID (st_meta s)))))"

lemma pending_saved:
  assumes "saved_at (mail_path st uv s) (CRaw raw) V V'" "dl (mm_UID (st_meta s)) = Some raw" "pending_mail st uv dl s2 V"
  shows "pending_mail st uv dl s2 V'"
proof (cases "emlExistedBefore s2")
  case True
  with assms(3) saved_at_keep [OF assms(1)] show ?thesis by (auto simp: pending_mail_def)
next
  case False
  have "V' (mail_path st uv s2) = V (mail_path st uv s2) \<or> (\<exists>m. V' (mail_path st uv s2) = Some (Dir m))
      \<or> mail_path st uv s2 = mail_path st uv s \<and> V' (mail_path st uv s2) = Some (Reg filePerm (CRaw raw))"
    using assms(1) unfolding saved_at_def by metis
  with False assms(2,3) show ?thesis by (auto simp: pending_mail_def buildEmailPath_inj)
qed

lemma saved_mail:
  assumes "saved_at (mail_path st uv s) (CRaw raw) V V'" "dl (mm_UID (st_meta s)) = Some raw" "pending_mail st uv dl s V" "\<not> emlExistedBefore s"
    "V' (mail_path st uv s) = Some (Reg m c)"
  shows "c = CRaw raw"
proof (cases "V (mail_path st uv s)")
  case None
  with assms(1,5) show ?thesis unfolding saved_at_def strict_prefix_def by (metis node.inject(2) option.inject option.distinct(1) node.distinct(1))
next
  case (Some n)
  with saved_at_keep [OF assms(1)] assms(5) have "n = Reg m c" by simp
  with Some assms(2-4) show ?thesis by (auto simp: pending_mail_def)
qed

definition stored :: "'b env \<Rightarrow> fileStore \<Rightarrow> u32 \<Rightarrow> fetchMsgState list \<Rightarrow> store_view \<Rightarrow> bool" where
  "stored env st uv states V \<longleftrightarrow> (\<forall>s \<in> set states. (emlExistedBefore s \<or> rawEML s \<noteq> None) \<and> holds_mail env st uv s V)"

lemma holds_mail_saved: "holds_mail env st uv s V \<Longrightarrow> saved_at target c V V' \<Longrightarrow> holds_mail env st uv s V'"
  unfolding holds_mail_def using saved_at_keep by blast

lemma cwp_save_loop:
  assumes "standard_store st" "boot_Store boot = st" "\<forall>s \<in> set ss. pending_mail st uv dl s V"
  shows "cwp (save_loop env boot dl uv mailbox ss)
    (\<lambda>ss' V' T'. T' = T \<and> data_of st V' = data_of st V \<and> (\<forall>q n. V q = Some n \<longrightarrow> V' q = Some n) \<and> stored env st uv ss' V')
    (\<lambda>_ V' T'. T' = T) (\<lambda>V' T'. T' = T) V T"
  using assms(3)
proof (induction ss arbitrary: V)
  case Nil
  then show ?case by (auto intro!: cvc simp: stored_def)
next
  case (Cons s ss)
  have c: "clean (rootDir (boot_Store boot))" using assms(1,2) by (simp add: standard_store_def)
  show ?case
  proof (cases "emlExistedBefore s")
    case True
    with Cons.prems have h: "holds_mail env st uv s V" by (auto simp: pending_mail_def holds_mail_def)
    show ?thesis
      using True apply simp
      apply (rule cwp_bind, rule cwp_conseq [OF Cons.IH])
      using Cons.prems h by (auto intro!: cvc simp: stored_def holds_mail_def)
  next
    case False
    show ?thesis
    proof (cases "dl (mm_UID (st_meta s))")
      case None
      with False show ?thesis by (auto intro!: cvc simp: notifyFetchSystemError_def)
    next
      case (Some raw)
      show ?thesis
        apply (simp only: save_loop.simps False Some if_False option.case)
        apply (rule cwp_bind, rule cwp_warn_if)
        apply (rule cwp_bind, rule cwp_mapErr, rule cwp_onStore [OF vwp_SaveEmail [OF c refl]])
        subgoal premises prems for _ V1
        proof -
          note sv = prems [unfolded assms(2)]
          have pend: "\<forall>s2 \<in> set ss. pending_mail st uv dl s2 V1"
            using Cons.prems pending_saved [where dl = dl, OF conjunct1 [OF sv] Some] by simp
          have own: "holds_mail env st uv (s\<lparr>rawEML := Some raw\<rparr>) V1"
            using sv saved_mail [where dl = dl, OF conjunct1 [OF sv] Some _ False] Cons.prems by (auto simp: holds_mail_def content_bytes_def)
          have d: "data_of st V1 = data_of st V" using data_of_saved_at [OF assms(1) conjunct1 [OF sv]] .
          show ?thesis
            by (rule cwp_bind, rule cwp_conseq [OF Cons.IH [OF pend]])
              (use d own saved_at_keep [OF conjunct1 [OF sv]] in \<open>auto intro!: cvc simp: stored_def holds_mail_def\<close>)
        qed
        by auto
    qed
  qed
qed

lemma cwp_fetchDownloadAndSave:
  assumes "standard_store st" "boot_Store boot = st"
    "\<forall>s \<in> set states. rawEML s = None \<and> (emlExistedBefore s \<longleftrightarrow> (\<exists>m c. V (mail_path st uv s) = Some (Reg m c)))"
  shows "cwp (fetchDownloadAndSave env boot states uv mailbox)
    (\<lambda>ss' V' T'. (\<exists>cs. T' = T @ cs \<and> list_all reading cs) \<and> data_of st V' = data_of st V \<and> stored env st uv ss' V')
    (\<lambda>_ V' T'. \<exists>cs. T' = T @ cs \<and> list_all reading cs) (\<lambda>V' T'. \<exists>cs. T' = T @ cs \<and> list_all reading cs) V T"
proof -
  have all: "stored env st uv states V" if "filter (\<lambda>s. \<not> emlExistedBefore s) states = []"
    using that assms(3) by (auto simp: stored_def holds_mail_def filter_empty_conv)
  have pend: "\<forall>s \<in> set states. pending_mail st uv dl s V" for dl
    using assms(3) by (auto simp: pending_mail_def)
  show ?thesis
    unfolding fetchDownloadAndSave_def Let_def notifyFetchSystemError_def
    apply (rule cwp_if)
     apply (rule cwp_pure, use all in auto)[1]
    apply (rule cwp_bind, rule cwp_attempt, rule cwp_onImap [OF reading_ops(2)])
     apply (simp, rule cwp_conseq [OF cwp_save_loop [OF assms(1,2) pend]])
       apply (auto intro!: cvc)
    done
qed

section \<open>Reports of a mail\<close>

lemma cwp_attachment_loop:
  "cwp (attachment_loop env meta uv atts)
    (\<lambda>reports V' T'. V' = V \<and> T' = T \<and> map input_Report reports = List.map_filter (\<lambda>att. case parseTLSRPTAttachment env att of Some (Inr r) \<Rightarrow> Some r | _ \<Rightarrow> None) atts)
    (\<lambda>_ _ _. False) (\<lambda>_ _. False) V T"
proof (induction atts)
  case Nil
  then show ?case by (auto intro!: cvc simp: map_filter_simps)
next
  case (Cons att atts)
  show ?case
    unfolding attachment_loop.simps
    apply (rule cwp_cases)
     apply (rule cwp_conseq [OF Cons.IH], auto simp: map_filter_simps)[1]
    subgoal for x
      apply (rule cwp_cases)
       apply (rule cwp_bind, rule cwp_sinks, rule cwp_conseq [OF Cons.IH], auto simp: map_filter_simps)[1]
      apply (rule cwp_bind)
      apply (rule cwp_conseq [where Q = "\<lambda>_ V' T'. V' = V \<and> T' = T" and E = "\<lambda>_ _ _. False" and C = "\<lambda>_ _. False"])
         apply (auto intro!: cvc)[1]
        apply (elim conjE, hypsubst, rule cwp_bind, rule cwp_conseq [OF Cons.IH])
      by (auto intro!: cvc simp: map_filter_simps)
    done
qed

lemma cwp_collectMessage:
  "cwp (collectMessage env boot s uv raw)
    (\<lambda>reports V' T'. V' = V \<and> T' = T \<and> map input_Report reports = reports_in env (imap_MaxMessageBytes (cfg_IMAP (boot_Config boot))) raw)
    (\<lambda>_ _ _. False) (\<lambda>_ _. False) V T"
  unfolding collectMessage_def processAttachments_def reports_in_def
  apply (rule cwp_cases)
   apply (auto intro!: cvc)[1]
  apply (rule cwp_cases)
   apply (auto intro!: cvc)[1]
  by (rule cwp_conseq [OF cwp_attachment_loop]) auto

lemma vwp_loadLocalEML:
  assumes "clean root"
  shows "vwp False (loadLocalEML env root uid uv t)
    (\<lambda>raw V'. V' = V \<and> (\<exists>m c. V (buildEmailPath root uid uv t) = Some (Reg m c) \<and> raw = content_bytes env c)) (\<lambda>_ V'. V' = V) (\<lambda>V'. V' = V) V"
  unfolding loadLocalEML_def fetchEmailPath_eq by (auto intro!: vc simp: assms)

text \<open>The messages whose reports a run collects, and what it collects of them.\<close>

definition collected :: "'b env \<Rightarrow> BootContext \<Rightarrow> u32 \<Rightarrow> gotext set \<Rightarrow> fetchMsgState \<Rightarrow> store_view \<Rightarrow> bool" where
  "collected env boot uv ids s V \<longleftrightarrow> (\<exists>m c. V (mail_path (boot_Store boot) uv s) = Some (Reg m c) \<and>
     ReportID ` set (reports_in env (imap_MaxMessageBytes (cfg_IMAP (boot_Config boot))) (content_bytes env c)) \<subseteq> ids)"

lemma collected_mono: "collected env boot uv ids s V \<Longrightarrow> ids \<subseteq> ids' \<Longrightarrow> collected env boot uv ids' s V"
  unfolding collected_def by blast

lemma collected_union: "collected env boot uv (ReportID ` input_Report ` B) s V \<Longrightarrow> collected env boot uv (ReportID ` input_Report ` (A \<union> B)) s V"
  by (erule collected_mono) auto

text \<open>A program that collects the reports of some messages and changes nothing.\<close>

definition collects :: "'b env \<Rightarrow> BootContext \<Rightarrow> u32 \<Rightarrow> fetchMsgState list \<Rightarrow> store_view \<Rightarrow> imap_cmd list \<Rightarrow> ReportInput list cmd \<Rightarrow> bool" where
  "collects env boot uv states V T prog \<longleftrightarrow> cwp prog
    (\<lambda>reports V' T'. V' = V \<and> T' = T \<and> (\<forall>s \<in> set states. \<not> (mm_Seen (st_meta s) \<and> emlExistedBefore s) \<longrightarrow>
        collected env boot uv (ReportID ` input_Report ` set reports) s V))
    (\<lambda>_ V' T'. V' = V \<and> T' = T) (\<lambda>V' T'. V' = V \<and> T' = T) V T"

lemma collects_message:
  assumes "collects env boot uv states V T prog" "V (mail_path (boot_Store boot) uv s) = Some (Reg m c)"
  shows "collects env boot uv (s # states) V T (bindIO (collectMessage env boot s uv (content_bytes env c)) (\<lambda>reports. bindIO prog (\<lambda>reports'. ret (reports @ reports'))))"
  unfolding collects_def
  apply (rule cwp_bind, rule cwp_conseq [OF cwp_collectMessage])
  subgoal premises prems for reports V1 T1
  proof -
    from prems have p: "V1 = V" "T1 = T"
      "set (reports_in env (imap_MaxMessageBytes (cfg_IMAP (boot_Config boot))) (content_bytes env c)) = input_Report ` set reports"
      by (auto simp flip: list.set_map)
    then have "collected env boot uv (ReportID ` input_Report ` set (reports @ reports')) s V" for reports'
      using assms(2) unfolding collected_def by auto
    then show ?thesis
      unfolding p by (intro cwp_bind [OF cwp_conseq [OF assms(1) [unfolded collects_def]]]) (auto intro!: cvc collected_union)
  qed
  by auto

lemma collects_fetch:
  assumes "clean (rootDir (boot_Store boot))" "stored env (boot_Store boot) uv states V"
  shows "collects env boot uv states V T (fetchCollectReports env boot states uv (rootDir (boot_Store boot)))"
  using assms(2)
proof (induction states)
  case Nil
  then show ?case by (auto simp: collects_def intro!: cvc)
next
  case (Cons s states)
  let ?rest = "fetchCollectReports env boot states uv (rootDir (boot_Store boot))"
  from Cons have IH: "collects env boot uv states V T ?rest" by (simp add: stored_def)
  have h: "emlExistedBefore s \<or> rawEML s \<noteq> None" "holds_mail env (boot_Store boot) uv s V" using Cons.prems by (simp_all add: stored_def)
  note step = collects_message [OF IH, where s = s]
  show ?case
  proof (cases "mm_Seen (st_meta s) \<and> emlExistedBefore s")
    case True
    with cwp_conseq [OF IH [unfolded collects_def]] show ?thesis by (auto simp: collects_def)
  next
    case new: False
    show ?thesis
    proof (cases "rawEML s")
      case (Some raw)
      with h(2) obtain m c where at: "V (mail_path (boot_Store boot) uv s) = Some (Reg m c)" "raw = content_bytes env c" by (auto simp: holds_mail_def)
      have "fetchCollectReports env boot (s # states) uv (rootDir (boot_Store boot)) = bindIO (ret raw) (\<lambda>raw.
          bindIO (collectMessage env boot s uv raw) (\<lambda>reports. bindIO ?rest (\<lambda>reports'. ret (reports @ reports'))))"
        using Some new by auto
      then show ?thesis using step [OF at(1)] unfolding collects_def at(2) by (simp only:) (rule cwp_bind [OF cwp_pure(1)])
    next
      case None
      with h(1) new show ?thesis
        unfolding collects_def
        apply simp
        apply (rule cwp_bind, rule cwp_mapErr, rule cwp_onStore [OF vwp_loadLocalEML [OF assms(1)]])
        using step unfolding collects_def by auto
    qed
  qed
qed

lemmas cwp_fetchCollectReports = collects_fetch [unfolded collects_def]

lemma saved_report_ids:
  assumes "reports_ok df"
  shows "ReportID ` input_Report ` set inputs \<subseteq> ReportID ` set (df_Reports (save_reports df inputs))"
proof -
  have "dom (report_table d) = ReportID ` set (df_Reports d)" for d
    by (simp add: report_table_def dom_map_of_conv_image_fst image_image)
  moreover have "dom (report_table (save_reports df inputs)) = ReportID ` input_Report ` set inputs \<union> dom (report_table df)"
    by (simp add: save_reports_refines(2) [OF assms] dom_map_of_conv_image_fst image_image)
  ultimately show ?thesis by blast
qed

section \<open>The commit\<close>

text \<open>A message is safely stored when its mail is on disk and the data file has every report found in it.\<close>

definition safely_stored :: "'b env \<Rightarrow> BootContext \<Rightarrow> u32 \<Rightarrow> store_view \<Rightarrow> u32 \<Rightarrow> bool" where
  "safely_stored env boot uv V uid \<longleftrightarrow> (\<exists>date m c df. V (buildEmailPath (rootDir (boot_Store boot)) uid uv date) = Some (Reg m c)
     \<and> data_of (boot_Store boot) V = Some df
     \<and> ReportID ` set (reports_in env (imap_MaxMessageBytes (cfg_IMAP (boot_Config boot))) (content_bytes env c)) \<subseteq> ReportID ` set (df_Reports df))"

definition careful :: "'b env \<Rightarrow> BootContext \<Rightarrow> u32 \<Rightarrow> store_view \<Rightarrow> imap_cmd \<Rightarrow> bool" where
  "careful env boot uv V cmd = (case cmd of
       UidStore uids flag \<Rightarrow> flag = SeenFlag \<and> (\<forall>uid \<in> set uids. safely_stored env boot uv V uid)
     | UidExpunge uids \<Rightarrow> False | _ \<Rightarrow> True)"

abbreviation fetched :: "'b env \<Rightarrow> BootContext \<Rightarrow> imap_cmd list \<Rightarrow> store_view \<Rightarrow> imap_cmd list \<Rightarrow> bool" where
  "fetched env boot T V' T' \<equiv> \<exists>uv cs. T' = T @ cs \<and> list_all (careful env boot uv V') cs"

lemma reading_careful: "reading cmd \<Longrightarrow> careful env boot uv V cmd"
  by (auto simp: reading_def careful_def split: imap_cmd.splits)

lemma fetched_append:
  "fetched env boot (T @ cs) V' T' \<Longrightarrow> (\<And>uv. list_all (careful env boot uv V') cs) \<Longrightarrow> fetched env boot T V' T'"
  by auto

lemma fetched_refl: "fetched env boot T V T"
  by (rule exI, rule exI [of _ "[]"]) simp

lemma buildEmailPath_neq: "buildEmailPath root uid uv t \<noteq> sentinelPath root" "buildEmailPath root uid uv t \<noteq> root @ [x]"
  by (simp_all add: buildEmailPath_def path_defs)

lemma mail_put_data: "standard_store st \<Longrightarrow> put_data st df V (buildEmailPath (rootDir st) uid uv t) = V (buildEmailPath (rootDir st) uid uv t)"
  by (simp add: put_data_def standard_store_def path_defs buildEmailPath_neq)

lemma data_of_put: "df_Version df = DataFileVersion \<Longrightarrow> data_of st (put_data st df V) = Some df"
  by (simp add: put_data_def)

lemma data_of_sentinel: "standard_store st \<Longrightarrow> data_of st (V(sentinelPath (rootDir st) \<mapsto> n)) = data_of st V"
  by (rule data_of_cong) (auto simp: standard_store_def path_defs strict_prefix_def)

lemma careful_sentinel:
  "standard_store (boot_Store boot) \<Longrightarrow> careful env boot uv (V(sentinelPath (rootDir (boot_Store boot)) \<mapsto> n)) = careful env boot uv V"
  by (simp add: fun_eq_iff careful_def safely_stored_def data_of_sentinel buildEmailPath_neq split: imap_cmd.split)

lemma vwp_SaveUIDValidity_frame:
  assumes "clean (rootDir s)"
  shows "vwp False (SaveUIDValidity s v) (\<lambda>_ V'. \<exists>n. V' = V(sentinelPath (rootDir s) \<mapsto> n)) (\<lambda>_ V'. V' = V)
    (\<lambda>V'. V' = V \<or> (\<exists>n. V' = V(sentinelPath (rootDir s) \<mapsto> n))) V"
  unfolding SaveUIDValidity_def
  by (rule vwp_if, rule vwp_fail, simp, rule vwp_bind, rule vwp_mapErr, rule vwp_loadOrInitSentinelForWrite)
    (auto intro!: vwp_mapErr vwp_saveSentinel simp: assms)

lemma MarkSeen_sends: "sends (\<lambda>cmd. (\<exists>m. cmd = Select m False) \<or> cmd = UidStore uids SeenFlag) (MarkSeen S False uids)"
  unfolding MarkSeen_def by (intro sending) auto

lemma cwp_fetchMarkSeen:
  assumes "\<And>cs. list_all (\<lambda>cmd. (\<exists>m. cmd = Select m False) \<or> cmd = UidStore (collectUnseenUIDs states) SeenFlag) cs \<Longrightarrow> P V (T @ cs)"
  shows "cwp (fetchMarkSeen env states) (\<lambda>_. P) (\<lambda>_. P) P V T"
proof -
  note m = cwp_onImap [OF MarkSeen_sends]
  show ?thesis
    unfolding fetchMarkSeen_def Let_def
    apply (rule cwp_if)
    subgoal using assms [of "[]"] by (auto intro!: cvc)
    by (rule cwp_bind, rule cwp_attempt, rule m) (use assms in \<open>auto intro!: cvc\<close>)
qed

text \<open>After the reports of the collected messages are saved, these messages may be marked.\<close>

lemma saved_safely:
  assumes "standard_store (boot_Store boot)" "data_of (boot_Store boot) V = Some df" "reports_ok df"
    "collected env boot uv (ReportID ` input_Report ` set reports) s V"
  shows "safely_stored env boot uv (put_data (boot_Store boot) (save_reports df reports) V) (mm_UID (st_meta s))"
proof -
  let ?st = "boot_Store boot"
  obtain m c where "V (mail_path ?st uv s) = Some (Reg m c)"
    "ReportID ` set (reports_in env (imap_MaxMessageBytes (cfg_IMAP (boot_Config boot))) (content_bytes env c)) \<subseteq> ReportID ` input_Report ` set reports"
    using assms(4) by (auto simp: collected_def)
  moreover have "data_of ?st (put_data ?st (save_reports df reports) V) = Some (save_reports df reports)"
    using data_of_version [OF assms(2)] save_reports_refines(5) [OF assms(3)] by (simp add: data_of_put)
  moreover have "ReportID ` input_Report ` set reports \<subseteq> ReportID ` set (df_Reports (save_reports df reports))"
    using saved_report_ids [OF assms(3)] .
  ultimately show ?thesis unfolding safely_stored_def by (metis (no_types, lifting) mail_put_data [OF assms(1)] subset_trans)
qed

lemma cwp_fetchCommit:
  assumes st: "standard_store (boot_Store boot)" and data: "data_of (boot_Store boot) V = Some df" "reports_ok df"
    and stored: "stored env (boot_Store boot) uv states V"
  shows "cwp (fetchCommit env boot states uv) (\<lambda>_. fetched env boot T) (\<lambda>_. fetched env boot T) (fetched env boot T) V T"
proof -
  let ?st = "boot_Store boot" let ?df1 = "save_metas df (buildEmailMetas states uv)"
  let ?V1 = "put_data ?st ?df1 V"
  note c = standard_paths(4,5) [OF st]
  have d1: "data_of ?st ?V1 = Some ?df1" using data_of_version [OF data(1)] by (simp add: data_of_put save_metas_def)
  have ok1: "reports_ok ?df1" using data(2) by (simp add: reports_ok_def save_metas_def)
  have s1: "stored env ?st uv states ?V1" using stored by (simp add: stored_def holds_mail_def mail_put_data [OF st])
  have fin: "list_all (careful env boot uv (put_data ?st (save_reports ?df1 reports) ?V1)) cs"
    if col: "\<forall>s \<in> set states. \<not> (mm_Seen (st_meta s) \<and> emlExistedBefore s) \<longrightarrow> collected env boot uv (ReportID ` input_Report ` set reports) s ?V1"
      and cs: "list_all (\<lambda>cmd. (\<exists>m. cmd = Select m False) \<or> cmd = UidStore (collectUnseenUIDs states) SeenFlag) cs" for reports cs
  proof -
    have "safely_stored env boot uv (put_data ?st (save_reports ?df1 reports) ?V1) uid" if "uid \<in> set (collectUnseenUIDs states)" for uid
      using that col by (auto simp: collectUnseenUIDs_def intro!: saved_safely [OF st d1 ok1])
    with cs show ?thesis by (auto simp: list_all_iff careful_def)
  qed
  have tail: "cwp (bindIO (fetchMarkSeen env states) (\<lambda>_.
      bindIO (wrapErr ''fetch: save uidvalidity'' (onStore (SaveUIDValidity ?st uv))) (\<lambda>_. ret exitOK)))
      (\<lambda>_. fetched env boot T) (\<lambda>_. fetched env boot T) (fetched env boot T) (put_data ?st (save_reports ?df1 reports) ?V1) T"
    if "\<forall>s \<in> set states. \<not> (mm_Seen (st_meta s) \<and> emlExistedBefore s) \<longrightarrow> collected env boot uv (ReportID ` input_Report ` set reports) s ?V1" for reports
    apply (rule cwp_bind, rule cwp_conseq [OF cwp_fetchMarkSeen [where P = "\<lambda>V'. fetched env boot T V'"]])
    subgoal using fin [OF that] by blast
    subgoal by (rule cwp_bind, rule cwp_mapErr, rule cwp_onStore [OF vwp_SaveUIDValidity_frame [OF c(1)]])
        (auto intro!: cvc simp: careful_sentinel [OF st])
    by assumption+
  show ?thesis
    unfolding fetchCommit_def
    apply (rule cwp_bind, rule cwp_mapErr, rule cwp_onStore [OF vwp_SaveEmailMetas [OF c(2) data(1)]])
    subgoal
      apply (elim conjE, hypsubst, rule cwp_bind, rule cwp_conseq [OF cwp_fetchCollectReports [OF c(1) s1]])
      subgoal
        apply (elim conjE, hypsubst, rule cwp_bind, rule cwp_mapErr, rule cwp_onStore [OF vwp_SaveReports [OF c(2) _ d1 ok1]], assumption)
        subgoal by (hypsubst, rule cwp_bind, rule cwp_mapErr, rule cwp_Flush, rule tail, assumption) (rule fetched_refl)+
        by (rule fetched_refl)+
      by (elim conjE, hypsubst, rule fetched_refl)+
    by (rule fetched_refl)+
qed

section \<open>The run\<close>

lemma vwp_LoadUIDValidity_pure:
  assumes "clean (rootDir s)"
  shows "vwp False (LoadUIDValidity s) (\<lambda>_ V'. V' = V) (\<lambda>_ V'. V' = V) (\<lambda>V'. V' = V) V"
  unfolding LoadUIDValidity_def
  by (rule vwp_bind, rule vwp_mapErr, rule vwp_loadSentinel) (auto intro!: vc simp: assms)

lemma vwp_LoadRecoveryRequired_pure:
  assumes "clean (rootDir s)"
  shows "vwp False (LoadRecoveryRequired s) (\<lambda>_ V'. V' = V) (\<lambda>_ V'. V' = V) (\<lambda>V'. V' = V) V"
  unfolding LoadRecoveryRequired_def
  by (rule vwp_bind, rule vwp_mapErr, rule vwp_loadSentinel) (auto intro!: vc simp: assms)

text \<open>Writing the sentinel touches nothing but it and the guard file.\<close>

definition sentinel_only :: "fileStore \<Rightarrow> store_view \<Rightarrow> store_view \<Rightarrow> bool" where
  "sentinel_only st V V' \<longleftrightarrow> (\<forall>q. q \<noteq> sentinelPath (rootDir st) \<and> q \<noteq> guardFilePath (rootDir st) \<longrightarrow> V' q = V q)"

lemma sentinel_only_simps [simp]:
  "sentinel_only st V V" "sentinel_only st V (V(sentinelPath (rootDir st) \<mapsto> n))" "sentinel_only st V (V(guardFilePath (rootDir st) \<mapsto> n))"
  "sentinel_only st V (V(guardFilePath (rootDir st) \<mapsto> n, sentinelPath (rootDir st) \<mapsto> k))"
  by (simp_all add: sentinel_only_def)

lemma data_of_sentinel_only:
  assumes "standard_store st" "sentinel_only st V V'"
  shows "data_of st V' = data_of st V"
proof (rule data_of_cong)
  have d: "dataPath st = rootDir st @ [''tlsrpt.json'']" using assms(1) by (simp add: standard_store_def path_defs)
  then show "V' (dataPath st) = V (dataPath st)" using assms(2) by (simp add: sentinel_only_def path_defs)
  show "V' q = V q" if q: "strict_prefix q (dataPath st)" for q
  proof -
    have "length q \<le> length (rootDir st)" using prefix_length_less [OF q] d by simp
    then have "q \<noteq> sentinelPath (rootDir st)" "q \<noteq> guardFilePath (rootDir st)" by (auto simp: path_defs)
    with assms(2) show ?thesis by (simp add: sentinel_only_def)
  qed
qed

lemma mail_sentinel_only:
  "sentinel_only st V V' \<Longrightarrow> V' (buildEmailPath (rootDir st) uid uv t) = V (buildEmailPath (rootDir st) uid uv t)"
  by (simp add: sentinel_only_def buildEmailPath_def path_defs)

lemma vwp_SaveRecoveryRequired_frame:
  assumes "clean (rootDir s)"
  shows "vwp False (SaveRecoveryRequired s prev cur t) (\<lambda>_. sentinel_only s V) (\<lambda>_. sentinel_only s V) (sentinel_only s V) V"
  unfolding SaveRecoveryRequired_def
  by (rule vwp_if, rule vwp_fail, simp, rule vwp_withGuardExclusive)
    (auto intro!: vwp_bind vwp_mapErr vwp_loadOrInitSentinelForWrite vwp_saveSentinel simp: assms)

lemma cwp_fetchValidateUID:
  assumes "clean (rootDir (boot_Store boot))"
  shows "cwp (fetchValidateUID env boot now uv mailbox)
    (\<lambda>code V' T'. T' = T \<and> sentinel_only (boot_Store boot) V V' \<and> (\<forall>c. code = Some c \<longrightarrow> c = exitError))
    (\<lambda>_ V' T'. T' = T \<and> sentinel_only (boot_Store boot) V V') (\<lambda>V' T'. T' = T \<and> sentinel_only (boot_Store boot) V V') V T"
  unfolding fetchValidateUID_def notifyFetchSystemError_def
  apply (rule cwp_bind, rule cwp_attempt, rule cwp_onStore [OF vwp_LoadUIDValidity_pure [OF assms]])
  subgoal for found V'
  proof (cases found)
    case None
    assume "V' = V"
    with None show ?thesis
      by simp (auto intro!: cvc cwp_onStore [OF vwp_SaveUIDValidity_frame [OF assms]])
  next
    case (Some u)
    assume "V' = V"
    with Some show ?thesis by simp (auto intro!: cvc cwp_onStore [OF vwp_SaveRecoveryRequired_frame [OF assms]])
  qed
  by (auto intro!: cvc)

lemma fetched_reading: "list_all reading cs \<Longrightarrow> fetched env boot (T @ cs) V' T' \<Longrightarrow> fetched env boot T V' T'"
  by (erule fetched_append) (auto simp: list_all_iff reading_careful)

lemma cwp_fetched_reading:
  assumes "cwp m (\<lambda>_. fetched env boot (T @ cs)) (\<lambda>_. fetched env boot (T @ cs)) (fetched env boot (T @ cs)) V (T @ cs)" "list_all reading cs"
  shows "cwp m (\<lambda>_. fetched env boot T) (\<lambda>_. fetched env boot T) (fetched env boot T) V (T @ cs)"
  by (rule cwp_conseq [OF assms(1)]; rule fetched_reading [OF assms(2)])

lemmas fetched_after = fetched_reading [OF _ fetched_refl]

text \<open>The part of a session that follows the check of the validity.\<close>

lemma cwp_fetchMessages:
  assumes st: "standard_store (boot_Store boot)" and data: "data_of (boot_Store boot) V = Some df" "reports_ok df"
  shows "cwp (bindIO (buildFetchStates env msgs uv (rootDir (boot_Store boot))) (\<lambda>states.
             if DryRun (boot_Options boot) then fetchDryRunExit env
             else bindIO (fetchDownloadAndSave env boot states uv mailbox) (\<lambda>states'. fetchCommit env boot states' uv)))
       (\<lambda>_. fetched env boot T) (\<lambda>_. fetched env boot T) (fetched env boot T) V T"
  apply (rule cwp_bind, rule cwp_conseq [OF cwp_buildFetchStates [OF standard_paths(4) [OF st]]])
  subgoal
    apply (elim conjE, hypsubst, rule cwp_if)
    subgoal unfolding fetchDryRunExit_def by (intro cvc) (rule fetched_refl)+
    apply (rule cwp_bind, rule cwp_conseq [OF cwp_fetchDownloadAndSave [OF st refl]], assumption)
    subgoal by (elim conjE exE, hypsubst, rule cwp_fetched_reading, rule cwp_fetchCommit [OF st]) (use data in simp_all)
    by (elim exE conjE, hypsubst, erule fetched_after)+
  by (elim conjE, hypsubst, rule fetched_refl)+

lemma cwp_fetchSession:
  assumes st: "standard_store (boot_Store boot)" and data: "data_of (boot_Store boot) V = Some df" "reports_ok df"
  shows "cwp (fetchSession env boot now mailbox) (\<lambda>_. fetched env boot T) (\<lambda>_. fetched env boot T) (fetched env boot T) V T"
proof -
  note c = standard_paths(4) [OF st]
  have "data_of (boot_Store boot) V1 = Some df" if "sentinel_only (boot_Store boot) V V1" for V1
    using data_of_sentinel_only [OF st that] data(1) by simp
  note msgs = cwp_fetchMessages [OF st this data(2)]
  show ?thesis
    unfolding fetchSession_def Let_def notifyFetchSystemError_def
    apply (rule cwp_bind, rule cwp_attempt, rule cwp_onImap [OF reading_ops(1)])
    subgoal
      apply (simp only: sum.case, rule cwp_fetched_reading)
       apply (rule cwp_bind, rule cwp_conseq [OF cwp_fetchValidateUID [OF c]])
      subgoal by (elim conjE, hypsubst, rule cwp_cases) (erule msgs, rule cwp_pure, rule fetched_refl)
      by (auto intro!: fetched_refl)
    by (simp only: sum.case, intro cvc) (erule fetched_after)+
qed

lemma cwp_fetchRun:
  assumes st: "standard_store (boot_Store boot)" and data: "data_of (boot_Store boot) V = Some df" "reports_ok df"
  shows "cwp (fetchRun env boot) (\<lambda>_. fetched env boot T) (\<lambda>_. fetched env boot T) (fetched env boot T) V T"
proof -
  note c = standard_paths(4) [OF st]
  have login: "fetched env boot T V' T'" if "fetched env boot (T @ cs) V' T'" "list_all (\<lambda>cmd. \<exists>u p. cmd = Login u p \<or> cmd = Logout) cs" for cs V' T'
    by (rule fetched_append [OF that(1)]) (use that(2) in \<open>auto simp: list_all_iff careful_def\<close>)
  have close: "cwp (onImap (Close (env_server env))) (\<lambda>_. fetched env boot T) (\<lambda>_. fetched env boot T) (fetched env boot T) V' T'"
    if "fetched env boot T V' T'" for V' T'
  proof -
    from that obtain uv cs where T': "T' = T @ cs" "list_all (careful env boot uv V') cs" by blast
    show ?thesis
      by (rule cwp_Close) (use T' in \<open>auto intro!: exI [of _ uv] simp: list_all_iff careful_def split: imap_cmd.splits\<close>)
  qed
  show ?thesis
    unfolding fetchRun_def Let_def notifyFetchSystemError_def
    apply (rule cwp_bind, rule cwp_onStore [where Q' = "\<lambda>_ V'. V' = V" and E' = "\<lambda>_ _. False" and C' = "\<lambda>_. False"])
       apply (auto intro!: vc)[1]
      apply (hypsubst, rule cwp_bind, rule cwp_attempt, rule cwp_onStore [OF vwp_LoadRecoveryRequired_pure [OF c]])
        apply (hypsubst, simp only: sum.case, rule cwp_cases)
    subgoal
      apply (rule cwp_if)
      subgoal by (intro cvc) (rule fetched_refl)+
      apply (rule cwp_bind, rule cwp_attempt, rule cwp_connect, intro conjI allI)
      subgoal for cs
        apply (simp only: sum.case, rule cwp_defer, rule cwp_conseq [OF cwp_fetchSession [OF st data, where T = "T @ cs"]])
        by (rule close, erule login, assumption)+ (erule login, assumption)
      by (simp only: sum.case, intro cvc) (erule login [OF fetched_refl])+
    by ((simp only: sum.case)?, intro cvc, (rule fetched_refl)+)+
qed

section \<open>A concrete run\<close>

text \<open>A mailbox with one mail that carries one report, and a store without mails.\<close>

definition sample_lib :: "string mime_lib" where
  "sample_lib = \<lparr>ParseMediaType = (\<lambda>s. (s, [], s = [])), RawParts = (\<lambda>b s. ([], False)), PlainReads = (\<lambda>b. ([b], False)),
     Base64Reads = (\<lambda>b. ([b], False)), DecodeHeader = Some\<rparr>"

definition sample_server :: "bool \<Rightarrow> imap_server" where
  "sample_server seen = \<lparr>on_Login = (\<lambda>_. None), on_Logout = (\<lambda>_. None), on_Close = (\<lambda>_. None),
     on_Select = (\<lambda>_. Inr \<lparr>UidValidity = 7, ReadOnly = False\<rparr>), on_Search = (\<lambda>_. Inr [2]),
     on_Fetch = (\<lambda>_. ([Some \<lparr>msg_Uid = 2, msg_Size = 3, msg_InternalDate = 739053 * nanos_per_day, msg_Envelope = Some [],
        msg_Flags = (if seen then [SeenFlag] else []), msg_GetBody = Some (''abc'', False), msg_Body = []\<rparr>], None)),
     on_Store = (\<lambda>_. None), on_Support = (\<lambda>_. Inr True), on_Expunge = (\<lambda>_. None)\<rparr>"

definition sample_env :: "bool \<Rightarrow> string env" where
  "sample_env seen = \<lparr>env_server = sample_server seen, env_osReadFile = (\<lambda>_. Inl ''absent''), env_pem = (\<lambda>_. False), env_dial = (\<lambda>_ _. None),
     env_username = ''u'', env_password = ''p'',
     env_readMessage = (\<lambda>raw. Some \<lparr>part_Header = (\<lambda>k. if k = ''Content-Type'' then ''application/tlsrpt+json''
        else if k = ''Content-Disposition'' then ''attachment'' else []), part_Body = raw\<rparr>),
     env_mime = sample_lib, env_gunzip = (\<lambda>_. None), env_unmarshal = (\<lambda>_. Some (sample_report 7 60)), env_sort = insertionSort,
     env_render = (\<lambda>_. []), env_json = (\<lambda>_. [])\<rparr>"

definition sample_config :: Config where
  "sample_config = \<lparr>cfg_IMAP = \<lparr>imap_Host = ''imap.example.org'', imap_Port = 993, imap_Mailbox = ''INBOX'', imap_FetchDays = 30,
       imap_TLSCACert = [], imap_MaxMessageBytes = 10, imap_RetentionDays = 0\<rparr>, cfg_Notify = \<lparr>notify_Slack = \<lparr>slack_AllowedHost = []\<rparr>\<rparr>,
     cfg_Store = \<lparr>store_RootDir = ''/s'', store_RetentionDays = 90, store_MaxEmailAgeDays = 30\<rparr>, cfg_Summary = \<lparr>summary_WindowDays = 7\<rparr>\<rparr>"

definition sample_boot :: "bool \<Rightarrow> BootContext" where
  "sample_boot dry = \<lparr>boot_Config = sample_config, boot_Options = \<lparr>RecoverMode = [], RecoverYes = False, ConfigPath = ''c'', DryRun = dry, Since = None, Window = None, Before = None,
     MaxEmailAge = None, ReprocessNotify = False\<rparr>, boot_Store = sample_store\<rparr>"

definition sample_state :: "content world \<Rightarrow> cmd_state" where
  "sample_state w = \<lparr>cs_world = w, cs_net = \<lparr>script = [], posts = [], sleeps = []\<rparr>, cs_sink = \<lparr>handlers = [], sink_dryRun = False\<rparr>,
     cs_client = \<lparr>conf = buildIMAPConfig sample_config [] [], lastSelectReadOnly = False, trace = []\<rparr>\<rparr>"

lemma sample_run_facts:
  "standard_store (boot_Store (sample_boot dry))" "boot_Store (sample_boot dry) = sample_store" "cs_world (sample_state w) = w"
  "trace (cs_client (sample_state w)) = []" "DryRun (boot_Options (sample_boot dry)) = dry"
  by (simp_all add: sample_boot_def sample_state_def standard_store_def sample_store_def path_defs)

end
