(* ===== verification/Runner_Safety.thy ===== *)
theory Runner_Safety
  imports Fetch_Safety
begin

text \<open>
  What holds of whole runs of the subcommands: a dry run leaves files, mailbox and network alone; a run on a store that waits
  for a recovery does nothing; and a collection of old data keeps what is recent.
\<close>

section \<open>Muted notifications\<close>

definition muted :: "cmd_state \<Rightarrow> bool" where
  "muted s \<longleftrightarrow> list_all (\<lambda>h. opt_IsDryRun (opts h)) (handlers (cs_sink s))"

definition silent_step :: "cmd_state \<Rightarrow> cmd_state \<Rightarrow> bool" where
  "silent_step s s' \<longleftrightarrow> (muted s \<longrightarrow> muted s' \<and> cs_net s' = cs_net s)"

interpretation silent: step_relation silent_step
  by unfold_locales (auto simp: silent_step_def)

named_theorems silence \<open>programs that post nothing with muted handlers\<close>

lemmas silent_rules [silence] = silent.kept_rules

lemma silent_on [silence]: "kept silent_step (onStore m)" "kept silent_step (onImap n)" "kept silent_step (connect env cfg)"
  by (auto simp: kept_def silent_step_def muted_def onStore_def onImap_def connect_def split: prod.split sum.split)

lemma silent_each: "(\<And>h. opts (f h) = opts h) \<Longrightarrow> kept silent_step (sink_each f)"
  by (auto simp: kept_def silent_step_def muted_def sink_each_def list_all_iff)

lemma silent_logs [silence]:
  "kept silent_step (sink_LogAlert env a)" "kept silent_step (sink_LogWarning w)" "kept silent_step (sink_LogSystemError e)"
  "kept silent_step (sink_LogSummary sm)" "kept silent_step (logWarn kind uid uv mid)"
  unfolding sink_LogAlert_def sink_LogWarning_def sink_LogSystemError_def sink_LogSummary_def logWarn_def
  by (rule silent_each, simp add: LogAlert_def LogWarning_def LogSystemError_def LogSummary_def Handle_def Let_def)+

lemma flush_all_muted:
  assumes "flush_all render hs n = Some (errs, n', hs')" "list_all (\<lambda>h. opt_IsDryRun (opts h)) hs"
  shows "n' = n \<and> list_all (\<lambda>h. opt_IsDryRun (opts h)) hs'"
  using assms
proof (induction hs arbitrary: n errs n' hs')
  case Nil
  then show ?case by simp
next
  case (Cons h hs)
  from Cons.prems obtain e1 n1 h' e2 hs2 where f: "Flush render h n = Some (e1, n1, h')" "flush_all render hs n1 = Some (e2, n', hs2)" "hs' = h' # hs2"
    by (auto split: option.splits)
  from f(1) Cons.prems(2) have "n1 = n" "opts h' = opts h"
    by (auto simp: Flush_def takeSnapshot_def Let_def split: if_splits)
  with Cons.IH [OF f(2)] Cons.prems(2) f(3) show ?case by simp
qed

lemma silent_Flush [silence]: "kept silent_step (sink_Flush env)"
  by (auto simp: kept_def silent_step_def muted_def sink_Flush_def dest!: flush_all_muted split: option.split)

lemma silent_notify [silence]: "kept silent_step (notifyComponent env component kind mailbox)"
  unfolding notifyComponent_def by (intro silence)

lemma silent_logAlerts [silence]: "kept silent_step (logAlerts env report)"
proof -
  have "kept silent_step (alert_loop env report ps)" for ps
    by (induction ps) (auto intro!: silence)
  then show ?thesis by (simp add: logAlerts_def)
qed

lemma silent_buildFetchStates [silence]: "kept silent_step (buildFetchStates env msgs uv root)"
  by (induction msgs) (simp_all, (intro silence | assumption)+)

lemma silent_save_loop [silence]: "kept silent_step (save_loop env boot dl uv mailbox ss)"
proof (induction ss)
  case (Cons s ss)
  show ?case unfolding save_loop.simps notifyFetchSystemError_def by (intro silence Cons)
qed (simp, intro silence)

lemma silent_attachment_loop [silence]: "kept silent_step (attachment_loop env meta uv atts)"
proof (induction atts)
  case (Cons att atts)
  show ?case unfolding attachment_loop.simps by (intro silence Cons)
qed (simp, intro silence)

lemma silent_fetchCollectReports [silence]: "kept silent_step (fetchCollectReports env boot ss uv root)"
proof (induction ss)
  case (Cons s ss)
  show ?case unfolding fetchCollectReports.simps collectMessage_def processAttachments_def by (intro silence Cons)
qed (simp, intro silence)

lemma silent_fetchRun: "kept silent_step (fetchRun env boot)"
  unfolding fetchRun_def fetchSession_def fetchValidateUID_def fetchDownloadAndSave_def fetchCommit_def fetchMarkSeen_def fetchDryRunExit_def
    notifyFetchSystemError_def Let_def
  by (intro silence)

lemma silent_gcRun: "kept silent_step (gcRun env boot)"
  unfolding gcRun_def gcAt_def runDelete_def runDryRun_def deleteIMAPOlderThan_def searchIMAPOlderThan_def gcStep_def notifyGCSystemError_def Let_def
  by (intro silence)

section \<open>Dry runs\<close>

text \<open>Commands that change nothing on the server.\<close>

definition harmless :: "imap_cmd \<Rightarrow> bool" where
  "harmless cmd \<longleftrightarrow> reading cmd \<or> (\<exists>u p. cmd = Login u p) \<or> cmd \<in> {CloseMailbox, Logout}"

abbreviation untouched :: "store_view \<Rightarrow> imap_cmd list \<Rightarrow> store_view \<Rightarrow> imap_cmd list \<Rightarrow> bool" where
  "untouched V T V' T' \<equiv> V' = V \<and> (\<exists>cs. T' = T @ cs \<and> list_all harmless cs)"

definition inert_step :: "cmd_state \<Rightarrow> cmd_state \<Rightarrow> bool" where
  "inert_step s s' \<longleftrightarrow> untouched (view (cs_world s)) (trace (cs_client s)) (view (cs_world s')) (trace (cs_client s'))"

lemma untouched_refl: "untouched V T V T"
  by simp

lemma untouched_trans: "untouched V T V1 T1 \<Longrightarrow> untouched V1 T1 V2 T2 \<Longrightarrow> untouched V T V2 T2"
  by auto

interpretation inert: step_relation inert_step
proof
  fix s t u
  show "inert_step s s" unfolding inert_step_def by simp
  show "inert_step s t \<Longrightarrow> inert_step t u \<Longrightarrow> inert_step s u" unfolding inert_step_def by (rule untouched_trans)
qed

lemma kept_cwp: "(\<And>V T. cwp m (\<lambda>_. untouched V T) (\<lambda>_. untouched V T) (untouched V T) V T) \<Longrightarrow> kept inert_step m"
  unfolding kept_def inert_step_def
proof
  fix s
  assume "\<And>V T. cwp m (\<lambda>_. untouched V T) (\<lambda>_. untouched V T) (untouched V T) V T"
  from cwp_run [OF this, of s "fst (m s)" "snd (m s)"] show "untouched (view (cs_world s)) (trace (cs_client s)) (view (cs_world (snd (m s)))) (trace (cs_client (snd (m s))))"
    by (simp split: outcome.splits)
qed

named_theorems inertness \<open>programs that change neither files nor the mailbox\<close>

lemmas inert_rules [inertness] = inert.kept_rules

lemma inert_sinks [inertness]:
  "kept inert_step (logWarn kind uid uv mid)" "kept inert_step (sink_Flush env)" "kept inert_step (notifyComponent env component kind mailbox)"
  by (rule kept_cwp, intro cvc; simp)+

lemma inert_onStore: "(\<And>V. vwp False m (\<lambda>_ V'. V' = V) (\<lambda>_ V'. V' = V) (\<lambda>V'. V' = V) V) \<Longrightarrow> kept inert_step (onStore m)"
  by (rule kept_cwp, rule cwp_onStore) auto

lemma inert_onImap: "sends reading m \<Longrightarrow> kept inert_step (onImap m)"
  by (rule kept_cwp, erule cwp_onImap) (auto simp: list_all_iff harmless_def)

lemma inert_getNow [inertness]: "kept inert_step (onStore getNow)"
  by (rule inert_onStore) (auto intro!: vc)

lemma inert_client [inertness]:
  "kept inert_step (onImap (FetchMeta S ctxErr since))" "kept inert_step (onImap (SearchOlderThan S ctxErr cutoff))"
  "kept inert_step (onImap (Close S))" "kept inert_step (connect env cfg)"
  by (rule inert_onImap, rule reading_ops)+
    ((rule kept_cwp, rule cvc)+; auto simp: list_all_iff harmless_def subset_iff)+

text \<open>Reads of the store.\<close>

lemma inert_store:
  assumes "clean (rootDir s)" "clean (dataPath s)"
  shows "kept inert_step (onStore (LoadRecoveryRequired s))" "kept inert_step (onStore (LoadUIDValidity s))"
    "kept inert_step (onStore (CountReportsBefore s cutoff))" "kept inert_step (onStore (CountEmailsBefore s cutoff))"
    "kept inert_step (onStore (localEmailSize env (rootDir s) uid uv t))"
proof -
  show "kept inert_step (onStore (LoadRecoveryRequired s))" by (rule inert_onStore, rule vwp_LoadRecoveryRequired_pure [OF assms(1)])
  show "kept inert_step (onStore (LoadUIDValidity s))" by (rule inert_onStore, rule vwp_LoadUIDValidity_pure [OF assms(1)])
  show "kept inert_step (onStore (CountReportsBefore s cutoff))" "kept inert_step (onStore (CountEmailsBefore s cutoff))"
    unfolding CountReportsBefore_def CountEmailsBefore_def by (rule inert_onStore, auto intro!: vc simp: assms(2))+
  show "kept inert_step (onStore (localEmailSize env (rootDir s) uid uv t))"
    by (rule inert_onStore, rule vwp_conseq [OF vwp_localEmailSize [OF assms(1)]]) auto
qed

lemma inert_buildFetchStates:
  fixes s :: fileStore
  assumes "clean (rootDir s)" "clean (dataPath s)"
  shows "kept inert_step (buildFetchStates env msgs uv (rootDir s))"
  by (induction msgs) (simp_all, (intro inertness inert_store [OF assms] | assumption)+)

lemma inert_fetchRun:
  assumes "clean (rootDir (boot_Store boot))" "clean (dataPath (boot_Store boot))" "DryRun (boot_Options boot)"
  shows "kept inert_step (fetchRun env boot)"
  unfolding fetchRun_def fetchSession_def fetchValidateUID_def fetchDryRunExit_def notifyFetchSystemError_def Let_def
  by (simp only: assms(3) if_True, intro inertness inert_store [OF assms(1,2)] inert_buildFetchStates [OF assms(1,2)])

lemma inert_gcRun:
  assumes "clean (rootDir (boot_Store boot))" "clean (dataPath (boot_Store boot))" "DryRun (boot_Options boot)"
  shows "kept inert_step (gcRun env boot)"
  unfolding gcRun_def gcAt_def runDryRun_def searchIMAPOlderThan_def gcStep_def notifyGCSystemError_def Let_def
  by (simp only: assms(3) if_True not_True_eq_False simp_thms if_False, intro inertness inert_store [OF assms(1,2)])

section \<open>Waiting for a recovery\<close>

lemma vwp_LoadRecoveryRequired_at:
  assumes "clean (rootDir st)" "V (sentinelPath (rootDir st)) = Some (Reg m (CSentinel x))"
  shows "vwp False (LoadRecoveryRequired st) (\<lambda>found V'. V' = V \<and> (found = None \<longleftrightarrow> RecoveryRequired x = None)) (\<lambda>_ V'. V' = V) (\<lambda>V'. V' = V) V"
  unfolding LoadRecoveryRequired_def
  by (rule vwp_bind, rule vwp_mapErr, rule vwp_loadSentinel) (use assms in \<open>auto intro!: vc\<close>)

abbreviation stopped :: "store_view \<Rightarrow> imap_cmd list \<Rightarrow> int \<Rightarrow> store_view \<Rightarrow> imap_cmd list \<Rightarrow> bool" where
  "stopped V T code V' T' \<equiv> code = exitError \<and> V' = V \<and> T' = T"

lemma cwp_stopped:
  assumes "clean (rootDir (boot_Store boot))" "V (sentinelPath (rootDir (boot_Store boot))) = Some (Reg m (CSentinel x))" "RecoveryRequired x \<noteq> None"
    and "p \<in> {fetchRun env boot, gcRun env boot, reprocessRun env boot}"
  shows "cwp p (stopped V T) (\<lambda>_ V' T'. V' = V \<and> T' = T) (\<lambda>V' T'. V' = V \<and> T' = T) V T"
proof -
  note load = cwp_onStore [OF vwp_LoadRecoveryRequired_at [where V = V, OF assms(1,2)]]
  have now: "cwp (onStore getNow) Q E C V T" if "\<And>t. Q t V T" for Q E C
    by (rule cwp_onStore [where Q' = "\<lambda>_ V'. V' = V" and E' = "\<lambda>_ _. False" and C' = "\<lambda>_. False"]) (auto intro!: vc simp: that)
  have "cwp (fetchRun env boot) (stopped V T) (\<lambda>_ V' T'. V' = V \<and> T' = T) (\<lambda>V' T'. V' = V \<and> T' = T) V T"
    unfolding fetchRun_def notifyFetchSystemError_def Let_def
    by (rule cwp_bind, rule now, rule cwp_bind, rule cwp_attempt, rule load) (use assms(3) in \<open>auto intro!: cvc\<close>)
  moreover have "cwp (gcRun env boot) (stopped V T) (\<lambda>_ V' T'. V' = V \<and> T' = T) (\<lambda>V' T'. V' = V \<and> T' = T) V T"
    unfolding gcRun_def gcAt_def gcStep_def notifyGCSystemError_def Let_def
    by (rule cwp_bind, rule now, rule cwp_bind, rule cwp_bind, rule cwp_attempt, rule load) (use assms(3) in \<open>auto intro!: cvc\<close>)
  moreover have "cwp (reprocessRun env boot) (stopped V T) (\<lambda>_ V' T'. V' = V \<and> T' = T) (\<lambda>V' T'. V' = V \<and> T' = T) V T"
    unfolding reprocessRun_def notifyReprocessSystemError_def Let_def
    by (rule cwp_bind, rule cwp_attempt, rule load) (use assms(3) in \<open>auto intro!: cvc\<close>)
  ultimately show ?thesis using assms(4) by blast
qed

text \<open>
  C9. The commands fail closed: while the sentinel records that a recovery is required, runs of fetch, gc and reprocess
  never end with success, whatever fails or crashes, and they change no file and send nothing to the mail server.
\<close>

theorem recovery_required_stops:
  assumes "clean (rootDir (boot_Store boot))"
    "view (cs_world s) (sentinelPath (rootDir (boot_Store boot))) = Some (Reg m (CSentinel x))" "RecoveryRequired x \<noteq> None"
    and "fetchRun env boot s = (r, s') \<or> gcRun env boot s = (r, s') \<or> reprocessRun env boot s = (r, s')"
  shows "view (cs_world s') = view (cs_world s) \<and> trace (cs_client s') = trace (cs_client s) \<and> (\<forall>code. r = Ok code \<longrightarrow> code = exitError)"
proof -
  obtain p where p: "p \<in> {fetchRun env boot, gcRun env boot, reprocessRun env boot}" "p s = (r, s')" using assms(4) by blast
  have "cwp p (stopped (view (cs_world s)) (trace (cs_client s))) (\<lambda>_ V' T'. V' = view (cs_world s) \<and> T' = trace (cs_client s))
      (\<lambda>V' T'. V' = view (cs_world s) \<and> T' = trace (cs_client s)) (view (cs_world s)) (trace (cs_client s))"
    by (rule cwp_stopped [OF assms(1) _ assms(3) p(1)]) (rule assms(2))
  from cwp_run [OF this p(2)] show ?thesis by (auto split: outcome.splits)
qed

theorem recovery_required_stops_witness:
  "view (cs_world (snd (fetchRun (sample_env False) (sample_boot False) (sample_state sample_pending_world)))) = view sample_pending_world
   \<and> fst (fetchRun (sample_env False) (sample_boot False) (sample_state sample_pending_world)) \<noteq> Ok exitOK"
proof -
  obtain r s' where run: "fetchRun (sample_env False) (sample_boot False) (sample_state sample_pending_world) = (r, s')" by fastforce
  have p: "clean (rootDir (boot_Store (sample_boot False)))" "RecoveryRequired sample_pending \<noteq> None"
    "view (cs_world (sample_state sample_pending_world)) (sentinelPath (rootDir (boot_Store (sample_boot False)))) = Some (Reg 384 (CSentinel sample_pending))"
    using sample_pending_facts by (simp_all add: sample_run_facts) (simp add: sample_pending_def sample_sentinel_def)
  from recovery_required_stops [OF p(1,3,2) disjI1 [OF run]] run show ?thesis by (auto simp: sample_run_facts exitError_def exitOK_def)
qed

section \<open>Collecting old data\<close>

text \<open>\<open>df'\<close> has at least the recent part of \<open>df\<close>, and nothing else than entries of \<open>df\<close>.\<close>

definition retains :: "gotime \<Rightarrow> gotime \<Rightarrow> internalDataFile \<Rightarrow> internalDataFile \<Rightarrow> bool" where
  "retains reportCutoff emailCutoff df df' \<longleftrightarrow> set (df_Reports df') \<subseteq> set (df_Reports df) \<and> set (df_Emails df') \<subseteq> set (df_Emails df)
     \<and> (\<forall>r \<in> set (df_Reports df). reportCutoff \<le> EndDatetime (dateRange r) \<longrightarrow> r \<in> set (df_Reports df'))
     \<and> (\<forall>e \<in> set (df_Emails df). emailCutoff \<le> entry_InternalDate e \<longrightarrow> e \<in> set (df_Emails df'))"

definition retained :: "fileStore \<Rightarrow> gotime \<Rightarrow> gotime \<Rightarrow> internalDataFile \<Rightarrow> store_view \<Rightarrow> store_view \<Rightarrow> bool" where
  "retained st reportCutoff emailCutoff df V V' \<longleftrightarrow> (\<exists>df'. data_of st V' = Some df' \<and> retains reportCutoff emailCutoff df df')
     \<and> (\<forall>e \<in> set (df_Emails df). emailCutoff \<le> entry_InternalDate e \<longrightarrow> V' (emlPath st e) = V (emlPath st e))"

definition collected_all :: "fileStore \<Rightarrow> gotime \<Rightarrow> gotime \<Rightarrow> internalDataFile \<Rightarrow> store_view \<Rightarrow> bool" where
  "collected_all st reportCutoff emailCutoff df V' \<longleftrightarrow> data_of st V' = Some (df\<lparr>df_Reports := filter (\<lambda>r. reportCutoff \<le> EndDatetime (dateRange r)) (df_Reports df),
     df_Emails := filter (\<lambda>e. emailCutoff \<le> entry_InternalDate e) (df_Emails df)\<rparr>)"

lemma retained_refl: "data_of st V = Some df \<Longrightarrow> retained st rc ec df V V"
  by (auto simp: retained_def retains_def)

lemma after_delete_data:
  assumes "data_of st V = Some df"
  shows "data_of st (after_delete st rc df V) = Some (delete_reports rc df)"
proof -
  have "expired_reports rc df = 0 \<Longrightarrow> delete_reports rc df = df"
    by (auto simp: expired_reports_def delete_reports_def filter_id_conv filter_empty_conv)
  with assms data_of_version [OF assms] show ?thesis
    by (auto simp: after_delete_def data_of_put delete_reports_def)
qed

lemma after_delete_mail: "standard_store st \<Longrightarrow> after_delete st rc df V (emlPath st e) = V (emlPath st e)"
  using standard_paths(1) [of st e] by (simp add: after_delete_def put_data_def)

lemma retained_deleted:
  assumes "standard_store st" "data_of st V = Some df" "swept st ec (delete_reports rc df) G (after_delete st rc df V) V'" "emails_ok df"
  shows "retained st rc ec df V V'"
    "G = expired ec (df_Emails df) \<Longrightarrow> collected_all st rc ec df V'"
proof -
  have e: "df_Emails (delete_reports rc df) = df_Emails df" by (simp add: delete_reports_def)
  have d: "data_of st V' = Some ((delete_reports rc df)\<lparr>df_Emails := filter (\<lambda>e. e \<notin> G) (df_Emails df)\<rparr>)" and G: "G \<subseteq> expired ec (df_Emails df)"
    using assms(3) e by (simp_all add: swept_def)
  have "V' (emlPath st x) = V (emlPath st x)" if "x \<in> set (df_Emails df)" "ec \<le> entry_InternalDate x" for x
    using swept_keeps [OF assms(1,3), of x] that assms(4) after_delete_mail [OF assms(1), of rc df V x] by (simp add: e emails_ok_def)
  with d G show "retained st rc ec df V V'"
    by (auto simp: retained_def retains_def delete_reports_def ended_before_def expired_def)
  show "G = expired ec (df_Emails df) \<Longrightarrow> collected_all st rc ec df V'"
    using d filter_cong [of "df_Emails df" "df_Emails df" "\<lambda>e. e \<notin> G" "\<lambda>e. ec \<le> entry_InternalDate e"]
    by (auto simp: collected_all_def delete_reports_def ended_before_def expired_def not_less)
qed

lemma vwp_joined_DeleteEmails:
  assumes "standard_store st" "data_of st V = Some df" "distinct (df_Emails df)"
  shows "vwp False (joined (DeleteEmailsBefore st ec))
    (\<lambda>_ V'. \<exists>G. swept st ec df G V V' \<and> (\<not> IsZero ec \<longrightarrow> G = expired ec (df_Emails df)))
    (\<lambda>_ V'. \<exists>G. swept st ec df G V V') (\<lambda>V'. \<exists>G. swept st ec df G V V') V"
  unfolding joined_def
  apply (rule vwp_bind, rule vwp_conseq [OF vwp_DeleteEmailsBefore [OF assms(1,2) data_of_version [OF assms(2)] assms(3)]])
  using swept_nothing [OF assms(1,2) only_removed_refl] by (auto intro!: vc)

lemma cwp_runDelete:
  assumes st: "standard_store (boot_Store boot)" "\<not> readOnly (boot_Store boot)" and data: "data_of (boot_Store boot) V = Some df" "emails_ok df"
  shows "cwp (runDelete env boot mailbox rc ec ic imapEnabled username password)
    (\<lambda>_ V' T'. retained (boot_Store boot) rc ec df V V' \<and> (\<not> IsZero ec \<longrightarrow> collected_all (boot_Store boot) rc ec df V'))
    (\<lambda>_ V' T'. retained (boot_Store boot) rc ec df V V') (\<lambda>V' T'. retained (boot_Store boot) rc ec df V V') V T"
proof -
  let ?st = "boot_Store boot" let ?V1 = "after_delete ?st rc df V" let ?df1 = "delete_reports rc df"
  have d1: "data_of ?st ?V1 = Some ?df1" by (rule after_delete_data [OF data(1)])
  have ok1: "distinct (df_Emails ?df1)" using data(2) by (simp add: delete_reports_def emails_ok_def distinct_map)
  have r1: "retained ?st rc ec df V ?V1"
    using retained_deleted(1) [OF st(1) data(1) swept_nothing [OF st(1) d1 only_removed_refl] data(2)] .
  have fin: "retained ?st rc ec df V V2" "(\<not> IsZero ec \<longrightarrow> G = expired ec (df_Emails ?df1)) \<Longrightarrow> \<not> IsZero ec \<Longrightarrow> collected_all ?st rc ec df V2"
    if "swept ?st ec ?df1 G ?V1 V2" for G V2
    using retained_deleted [OF st(1) data(1) that data(2)] by (simp_all add: delete_reports_def)
  have any: "sends (\<lambda>_. True) (DeleteOlderThan S False ic)" for S
    unfolding DeleteOlderThan_def uidSearchBefore_def by (intro sending) auto
  have imap: "cwp (if imapEnabled then deleteIMAPOlderThan env boot mailbox username password ic else ret 0) (\<lambda>_ V' T'. V' = V2) (\<lambda>_ V' T'. V' = V2) (\<lambda>V' T'. V' = V2) V2 T2" for V2 T2
    unfolding deleteIMAPOlderThan_def gcStep_def notifyGCSystemError_def
    by (auto intro!: cvc cwp_onImap [OF any])
  show ?thesis
    unfolding runDelete_def gcStep_def notifyGCSystemError_def
    apply (rule cwp_bind, rule cwp_bind, rule cwp_attempt, rule cwp_onStore [OF vwp_DeleteReportsBefore [OF standard_paths(5) [OF st(1)] st(2) data(1)]])
    subgoal
      apply (elim conjE, hypsubst, simp only: sum.case, rule cwp_pure, rule cwp_bind, rule cwp_bind, rule cwp_attempt)
      apply (rule cwp_onStore [OF vwp_joined_DeleteEmails [OF st(1) d1 ok1]])
      subgoal by (elim exE conjE, simp only: sum.case, rule cwp_pure, rule cwp_bind, rule cwp_conseq [OF imap]) (auto intro!: cvc fin)
      by (auto intro!: cvc intro: fin(1))
    using retained_refl [OF data(1)] r1 by (auto intro!: cvc)
qed

abbreviation report_cutoff :: "BootContext \<Rightarrow> cmd_state \<Rightarrow> gotime" where
  "report_cutoff boot s \<equiv> gcReportCutoff (boot_Options boot) (boot_Config boot) (clock (cs_world s))"

abbreviation email_cutoff :: "BootContext \<Rightarrow> cmd_state \<Rightarrow> gotime" where
  "email_cutoff boot s \<equiv> gcEmailCutoff (boot_Options boot) (boot_Config boot) (clock (cs_world s))"

text \<open>
  C10. Collecting old data keeps what is recent, under every schedule and whatever the server does: after a run of gc, complete or
  not, the data file is readable and has every report whose range ends at or after the cutoff of the options or the
  configuration, every entry of a mail received at or after its cutoff, with its file as it was, and nothing that was
  not there before; and a run that ends with success, not dry, has removed exactly the rest.
\<close>

theorem gcRun_retention:
  assumes "standard_store (boot_Store boot)" "\<not> readOnly (boot_Store boot)"
    "data_of (boot_Store boot) (view (cs_world s)) = Some df" "emails_ok df" "gcRun env boot s = (r, s')"
  shows "retained (boot_Store boot) (report_cutoff boot s) (email_cutoff boot s) df (view (cs_world s)) (view (cs_world s'))
    \<and> (r = Ok exitOK \<and> \<not> DryRun (boot_Options boot) \<and> \<not> IsZero (email_cutoff boot s) \<longrightarrow>
         collected_all (boot_Store boot) (report_cutoff boot s) (email_cutoff boot s) df (view (cs_world s')))"
proof (cases "DryRun (boot_Options boot)")
  case True
  with inert_gcRun [OF standard_paths(4,5) [OF assms(1)] True, of env] assms(5) have "view (cs_world s') = view (cs_world s)"
    unfolding kept_def inert_step_def by (metis snd_conv)
  with True retained_refl [OF assms(3)] show ?thesis by simp
next
  case False
  let ?st = "boot_Store boot" let ?V = "view (cs_world s)" let ?T = "trace (cs_client s)" let ?rc = "report_cutoff boot s" let ?ec = "email_cutoff boot s"
  let ?Q = "\<lambda>code V' T'. retained ?st ?rc ?ec df ?V V' \<and> (code = exitOK \<and> \<not> IsZero ?ec \<longrightarrow> collected_all ?st ?rc ?ec df V')"
  let ?E = "\<lambda>_ V' T'. retained ?st ?rc ?ec df ?V V'" let ?C = "\<lambda>V' T'. retained ?st ?rc ?ec df ?V V'"
  note same = retained_refl [OF assms(3), of ?rc ?ec]
  have del: "cwp (runDelete env boot mailbox ?rc ?ec ic en u p) ?Q ?E ?C ?V T" for mailbox ic en u p T
    by (rule cwp_conseq [OF cwp_runDelete [OF assms(1-4)]]) auto
  have "cwp (gcAt env boot (clock (cs_world s))) ?Q ?E ?C ?V ?T"
    unfolding gcAt_def gcStep_def notifyGCSystemError_def Let_def
    apply (rule cwp_bind, rule cwp_bind, rule cwp_attempt, rule cwp_onStore [OF vwp_LoadRecoveryRequired_pure [OF standard_paths(4) [OF assms(1)]]])
    using same del False by (auto intro!: cvc simp: exitError_def exitOK_def)
  moreover have "gcRun env boot s = gcAt env boot (clock (cs_world s)) s"
    by (simp add: gcRun_def bindIO_def onStore_def getNow_def)
  ultimately show ?thesis using cwp_run [of "gcAt env boot (clock (cs_world s))" ?Q ?E ?C s r s'] assms(5) by (auto split: outcome.splits)
qed

theorem gcRun_retention_witness:
  "retained sample_store (report_cutoff (sample_boot False) (sample_state sample_mail_world)) (email_cutoff (sample_boot False) (sample_state sample_mail_world))
     sample_mail_data (view sample_mail_world) (view (cs_world (snd (gcRun (sample_env False) (sample_boot False) (sample_state sample_mail_world)))))"
proof -
  obtain r s' where run: "gcRun (sample_env False) (sample_boot False) (sample_state sample_mail_world) = (r, s')" by fastforce
  have d: "data_of sample_store (view sample_mail_world) = Some sample_mail_data" "emails_ok sample_mail_data"
    by (simp_all add: sample_store_def data_of_def visible_def sample_mail_world_def sample_mail_data_def DataFileVersion_def emails_ok_def entry_key_def)
  from gcRun_retention [of "sample_boot False" "sample_state sample_mail_world", OF _ _ _ d(2) run] d(1) run sample_facts(2) sample_run_facts
  show ?thesis by simp
qed

section \<open>Seen messages with a stored mail\<close>

lemma cwp_onImap_result:
  assumes "sends P m" "\<And>a cs c. list_all P cs \<Longrightarrow> fst (m c) = Inr a \<Longrightarrow> Q a V (T @ cs)" "\<And>e cs. list_all P cs \<Longrightarrow> E e V (T @ cs)"
  shows "cwp (onImap m) Q E C V T"
  unfolding cwp_def
proof (intro allI impI)
  fix s :: cmd_state assume s: "view (cs_world s) = V \<and> trace (cs_client s) = T"
  obtain r c where r: "m (cs_client s) = (r, c)" by fastforce
  from assms(1) r s obtain cs where cs: "trace c = T @ cs" "list_all P cs" unfolding sends_def by (metis snd_conv)
  have ok: "Q a V (T @ cs)" if "r = Inr a" for a using assms(2) [OF cs(2), of "cs_client s" a] r that by simp
  from s cs ok assms(3) [OF cs(2)] show "wp (onImap m) (\<lambda>a s'. Q a (view (cs_world s')) (trace (cs_client s'))) (\<lambda>e s'. E e (view (cs_world s')) (trace (cs_client s')))
       (\<lambda>s'. C (view (cs_world s')) (trace (cs_client s'))) s"
    by (auto simp: wp_def onImap_def r split: sum.split)
qed

text \<open>Every message the server lists is seen, and its mail is stored under every validity the server reports.\<close>

definition all_stored_seen :: "imap_server \<Rightarrow> fileStore \<Rightarrow> store_view \<Rightarrow> bool" where
  "all_stored_seen S st V \<longleftrightarrow> (\<forall>h h' msg status. on_Select S h = Inr status \<and> Some msg \<in> set (fst (on_Fetch S h')) \<longrightarrow>
     SeenFlag \<in> set (msg_Flags msg) \<and> (\<exists>m c. V (buildEmailPath (rootDir st) (msg_Uid msg) (UidValidity status) (msg_InternalDate msg)) = Some (Reg m c)))"

definition meta_of :: "imap_message \<Rightarrow> MessageMeta \<Rightarrow> bool" where
  "meta_of msg m \<longleftrightarrow> mm_UID m = msg_Uid msg \<and> mm_Date m = msg_InternalDate msg \<and> mm_Seen m = (SeenFlag \<in> set (msg_Flags msg))"

lemma meta_loop_from:
  "m \<in> set (meta_loop maxBytes msgs metas) \<Longrightarrow> m \<in> set metas \<or> (\<exists>msg. Some msg \<in> set msgs \<and> meta_of msg m)"
proof (induction msgs arbitrary: metas)
  case (Cons x msgs)
  show ?case
  proof (cases x)
    case (Some msg)
    with Cons.prems Cons.IH show ?thesis
      by (auto simp: Let_def split: if_splits option.splits) (fastforce simp: meta_of_def)
  qed (use Cons in auto)
qed simp

lemma FetchMeta_result:
  assumes "fst (FetchMeta S False since c) = Inr res"
  obtains h h' status where "on_Select S h = Inr status" "res_UIDValidity res = UidValidity status"
    "\<And>m. m \<in> set (Messages res) \<Longrightarrow> \<exists>msg. Some msg \<in> set (fst (on_Fetch S h')) \<and> meta_of msg m"
proof -
  let ?h1 = "trace c @ [Select (conf_Mailbox (conf c)) True]" let ?h2 = "?h1 @ [UidSearch (Some (truncateToDate since)) None]"
  note eval = FetchMeta_def examine_def bindI_def wrapI_def ask_def retI_def failI_def Let_def
  obtain status where status: "on_Select S ?h1 = Inr status" using assms by (cases "on_Select S ?h1") (auto simp: eval)
  obtain uids where uids: "on_Search S ?h2 = Inr uids" using assms status by (cases "on_Search S ?h2") (auto simp: eval)
  have "Messages res = [] \<or> (\<exists>n. Messages res = meta_loop n (fst (on_Fetch S (?h2 @ [UidFetch uids False]))) [])"
    "res_UIDValidity res = UidValidity status"
    using assms status uids by (auto simp: eval split: if_splits option.splits prod.splits)
  with that [OF status, of "?h2 @ [UidFetch uids False]"] meta_loop_from [where metas = "[]"] show ?thesis by auto
qed

lemma fetchCollectReports_skips: "list_all (\<lambda>s. mm_Seen (st_meta s) \<and> emlExistedBefore s) states \<Longrightarrow> fetchCollectReports env boot states uv root = ret []"
  by (induction states) auto

abbreviation same_reports :: "fileStore \<Rightarrow> internalDataFile \<Rightarrow> store_view \<Rightarrow> bool" where
  "same_reports st df V' \<equiv> \<exists>df'. data_of st V' = Some df' \<and> df_Reports df' = df_Reports df"

lemma cwp_fetchCommit_seen:
  assumes st: "standard_store (boot_Store boot)" and data: "data_of (boot_Store boot) V = Some df" "reports_ok df"
    and seen: "list_all (\<lambda>s. mm_Seen (st_meta s) \<and> emlExistedBefore s) states"
  shows "cwp (fetchCommit env boot states uv) (\<lambda>_ V' T'. same_reports (boot_Store boot) df V')
    (\<lambda>_ V' T'. same_reports (boot_Store boot) df V') (\<lambda>V' T'. same_reports (boot_Store boot) df V') V T"
proof -
  let ?st = "boot_Store boot" let ?df1 = "save_metas df (buildEmailMetas states uv)" let ?V1 = "put_data ?st ?df1 V"
  note c = standard_paths(4,5) [OF st]
  have d1: "data_of ?st ?V1 = Some ?df1" using data_of_version [OF data(1)] by (simp add: data_of_put save_metas_def)
  have ok1: "reports_ok ?df1" using data(2) by (simp add: reports_ok_def save_metas_def)
  have none: "collectUnseenUIDs states = []" using seen by (auto simp: collectUnseenUIDs_def filter_empty_conv list_all_iff)
  have d2: "data_of ?st (put_data ?st (save_reports ?df1 []) ?V1) = Some ?df1"
    using data_of_version [OF d1] by (simp add: data_of_put save_reports_def)
  have r: "df_Reports ?df1 = df_Reports df" by (simp add: save_metas_def)
  show ?thesis
    unfolding fetchCommit_def fetchCollectReports_skips [OF seen] fetchMarkSeen_def none Let_def
    apply (rule cwp_bind, rule cwp_mapErr, rule cwp_onStore [OF vwp_SaveEmailMetas [OF c(2) data(1)]])
    subgoal
      apply (elim conjE, hypsubst, rule cwp_bind, rule cwp_pure, rule cwp_bind, rule cwp_mapErr)
      apply (rule cwp_onStore [OF vwp_SaveReports [OF c(2) _ d1 ok1]], assumption)
      subgoal
        apply (hypsubst, rule cwp_bind, rule cwp_mapErr, rule cwp_Flush, simp only: simp_thms if_True, rule cwp_bind, rule cwp_pure)
          apply (rule cwp_bind, rule cwp_mapErr, rule cwp_onStore [OF vwp_SaveUIDValidity_frame [OF c(1)]])
        by (auto intro!: cvc simp: data_of_sentinel [OF st] d2 r)
      using d1 d2 r by auto
    using data(1) d1 r by auto
qed

lemma listed_seen:
  assumes "all_stored_seen (env_server env) st V" "sentinel_only st V V1" "fst (FetchMeta (env_server env) False since client) = Inr res" "m \<in> set (Messages res)"
  shows "mm_Seen m \<and> (\<exists>k c. V1 (buildEmailPath (rootDir st) (mm_UID m) (res_UIDValidity res) (mm_Date m)) = Some (Reg k c))"
proof -
  obtain h h' status msg where "on_Select (env_server env) h = Inr status" "res_UIDValidity res = UidValidity status"
    "Some msg \<in> set (fst (on_Fetch (env_server env) h'))" "meta_of msg m"
    using FetchMeta_result [OF assms(3)] assms(4) by metis
  with assms(1) show ?thesis by (auto simp: all_stored_seen_def meta_of_def mail_sentinel_only [OF assms(2)])
qed

lemma cwp_fetchSession_seen:
  assumes st: "standard_store (boot_Store boot)" and data: "data_of (boot_Store boot) V = Some df" "reports_ok df"
    and seen: "all_stored_seen (env_server env) (boot_Store boot) V"
  shows "cwp (fetchSession env boot now mailbox) (\<lambda>_ V' T'. same_reports (boot_Store boot) df V')
    (\<lambda>_ V' T'. same_reports (boot_Store boot) df V') (\<lambda>V' T'. same_reports (boot_Store boot) df V') V T"
proof -
  note c = standard_paths(4) [OF st]
  let ?E = "\<lambda>_ V' T'. same_reports (boot_Store boot) df V'" let ?C = "\<lambda>V' T'. same_reports (boot_Store boot) df V'"
  have msgs: "cwp (bindIO (buildFetchStates env (Messages res) (res_UIDValidity res) (rootDir (boot_Store boot))) (\<lambda>states.
             if DryRun (boot_Options boot) then fetchDryRunExit env
             else bindIO (fetchDownloadAndSave env boot states (res_UIDValidity res) mailbox) (\<lambda>states'. fetchCommit env boot states' (res_UIDValidity res))))
       ?E ?E ?C V1 T1"
    if res: "fst (FetchMeta (env_server env) False since client) = Inr res"
      and V1: "sentinel_only (boot_Store boot) V V1" for res since client V1 T1
  proof -
    have d: "data_of (boot_Store boot) V1 = Some df" using data_of_sentinel_only [OF st V1] data(1) by simp
    note mails = listed_seen [OF seen V1 res]
    show ?thesis
      apply (rule cwp_bind, rule cwp_conseq [OF cwp_buildFetchStates [OF c]])
      subgoal premises prems for states V2 T2
      proof -
        have p: "V2 = V1" "map st_meta states = Messages res"
          "\<forall>s \<in> set states. emlExistedBefore s \<longleftrightarrow> (\<exists>m c. V1 (mail_path (boot_Store boot) (res_UIDValidity res) s) = Some (Reg m c))"
          using prems by blast+
        have "mm_Seen (st_meta s) \<and> emlExistedBefore s" if "s \<in> set states" for s
          using p(3) that mails [of "st_meta s"] by (simp flip: p(2))
        then have all: "list_all (\<lambda>s. mm_Seen (st_meta s) \<and> emlExistedBefore s) states" by (simp add: list_all_iff)
        then have skip: "fetchDownloadAndSave env boot states (res_UIDValidity res) mailbox = ret states"
          by (auto simp: fetchDownloadAndSave_def list_all_iff filter_empty_conv)
        show ?thesis
          unfolding p(1) skip fetchDryRunExit_def
          apply (rule cwp_if)
          subgoal using d by (auto intro!: cvc)
          by (rule cwp_bind, rule cwp_pure, rule cwp_conseq [OF cwp_fetchCommit_seen [OF st d data(2) all]]) simp_all
      qed
      using d by auto
  qed
  have d: "same_reports (boot_Store boot) df V1" if "sentinel_only (boot_Store boot) V V1" for V1
    using data_of_sentinel_only [OF st that] data(1) by simp
  show ?thesis
    unfolding fetchSession_def Let_def notifyFetchSystemError_def
    apply (rule cwp_bind, rule cwp_attempt, rule cwp_onImap_result [OF reading_ops(1)])
    subgoal
      apply (simp only: sum.case, rule cwp_bind, rule cwp_conseq [OF cwp_fetchValidateUID [OF c]])
      subgoal by (elim conjE, rule cwp_cases) (erule msgs, assumption, rule cwp_pure, erule d)
      using d by blast+
    using data(1) by (auto intro!: cvc)
qed

text \<open>
  C40. The reports of a seen message whose mail is already stored are never collected: when every listed message is
  seen and has its mail on disk, a run of fetch leaves the stored reports as they are, however it ends and whether or not they
  contain those of the mails. A run that stores such a mail and stops before it has saved the reports (a crash, or an
  error while parsing or saving) therefore loses them for every later run of fetch.
\<close>

theorem fetchRun_skips_seen_stored:
  assumes "standard_store (boot_Store boot)" "data_of (boot_Store boot) (view (cs_world s)) = Some df" "reports_ok df"
    "all_stored_seen (env_server env) (boot_Store boot) (view (cs_world s))" "fetchRun env boot s = (r, s')"
  shows "\<exists>df'. data_of (boot_Store boot) (view (cs_world s')) = Some df' \<and> df_Reports df' = df_Reports df"
proof -
  let ?V = "view (cs_world s)" let ?T = "trace (cs_client s)"
  let ?E = "\<lambda>_ V' T'. same_reports (boot_Store boot) df V'" let ?C = "\<lambda>V' T'. same_reports (boot_Store boot) df V'"
  have close: "cwp (onImap (Close (env_server env))) ?E ?E ?C V' T'" if "same_reports (boot_Store boot) df V'" for V' T'
    using that by (intro cwp_Close) auto
  have "cwp (fetchRun env boot) ?E ?E ?C ?V ?T"
    unfolding fetchRun_def Let_def notifyFetchSystemError_def
    apply (rule cwp_bind, rule cwp_onStore [where Q' = "\<lambda>_ V'. V' = ?V" and E' = "\<lambda>_ _. False" and C' = "\<lambda>_. False"])
       apply (auto intro!: vc)[1]
      apply (hypsubst, rule cwp_bind, rule cwp_attempt, rule cwp_onStore [OF vwp_LoadRecoveryRequired_pure [OF standard_paths(4) [OF assms(1)]]])
        apply (hypsubst, simp only: sum.case, rule cwp_cases)
    subgoal
      apply (rule cwp_if)
      subgoal using assms(2) by (auto intro!: cvc)
      apply (rule cwp_bind, rule cwp_attempt, rule cwp_connect, intro conjI allI)
      subgoal
        apply (simp only: sum.case, rule cwp_defer, rule cwp_conseq [OF cwp_fetchSession_seen [OF assms(1-4)]])
        by (rule close, assumption)+
      using assms(2) by (auto intro!: cvc)
    using assms(2) by (auto intro!: cvc)
  from cwp_run [OF this assms(5)] show ?thesis by (simp split: outcome.splits)
qed

text \<open>The files right after the first run has stored the mail.\<close>

definition sample_stored_world :: "content world" where
  "sample_stored_world = snd (SaveEmail sample_store 2 7 (739053 * nanos_per_day) ''abc'' sample_world)"

lemma sample_stored_files:
  "view sample_stored_world [''s'', ''emails'', ''7'', ''202406'', ''0000000002.eml''] = Some (Reg 384 (CRaw ''abc''))"
  "view sample_stored_world (dataPath sample_store) = Some (Reg 384 (CData sample_data))"
  by code_simp+

lemma sample_mail_path: "buildEmailPath (rootDir sample_store) 2 7 (739053 * nanos_per_day) = [''s'', ''emails'', ''7'', ''202406'', ''0000000002.eml'']"
  by code_simp

lemma sample_reports: "reports_in (sample_env True) 10 ''abc'' = [sample_report 7 60]"
proof -
  have "to_lower ''application/tlsrpt+json'' = ''application/tlsrpt+json''" by code_simp
  moreover have "trim [] = []" by (simp add: trim_def skip_space.simps)
  moreover have "has_prefix ''application/tlsrpt+json'' ''multipart/'' = False" by code_simp
  ultimately show ?thesis
    by (simp add: reports_in_def sample_env_def sample_lib_def ExtractAttachments_def leafAttachment_def decodeContent_def isAttachment_def
        parseTLSRPTAttachment_def ParseJSON_def parseJSON_def maxDecompressedSize_def sample_report_def wrap64_def map_filter_simps to_lower_def IsZero_def)
qed

theorem fetchRun_skips_seen_stored_witness:
  "reports_in (sample_env True) 10 ''abc'' = [sample_report 7 60] \<and> sample_report 7 60 \<notin> set (df_Reports sample_data)
   \<and> (\<exists>df'. data_of sample_store (view (cs_world (snd (fetchRun (sample_env True) (sample_boot False) (sample_state sample_stored_world))))) = Some df'
         \<and> df_Reports df' = df_Reports sample_data)"
proof (intro conjI)
  show "reports_in (sample_env True) 10 ''abc'' = [sample_report 7 60]" by (rule sample_reports)
  show "sample_report 7 60 \<notin> set (df_Reports sample_data)" by (simp add: sample_defs)
  obtain r s' where run: "fetchRun (sample_env True) (sample_boot False) (sample_state sample_stored_world) = (r, s')" by fastforce
  have d: "data_of (boot_Store (sample_boot False)) (view (cs_world (sample_state sample_stored_world))) = Some sample_data"
    using sample_stored_files(2) sample_facts(5) by (simp add: sample_run_facts data_of_def)
  have a: "all_stored_seen (env_server (sample_env True)) (boot_Store (sample_boot False)) (view (cs_world (sample_state sample_stored_world)))"
    using sample_stored_files(1) by (simp add: all_stored_seen_def sample_run_facts sample_env_def sample_server_def sample_mail_path)
  from fetchRun_skips_seen_stored [OF sample_run_facts(1) d sample_facts(4) a run] run
  show "\<exists>df'. data_of sample_store (view (cs_world (snd (fetchRun (sample_env True) (sample_boot False) (sample_state sample_stored_world))))) = Some df'
         \<and> df_Reports df' = df_Reports sample_data"
    by (simp add: sample_run_facts)
qed

section \<open>Kinds of connection failures\<close>

lemma sublist_middle: "sublist x y \<Longrightarrow> sublist x (a @ y @ b)"
  by (meson sublist_appendI sublist_order.order.trans)

lemma sublist_JoinHostPort: "sublist x host \<Longrightarrow> sublist x (JoinHostPort host port)"
  using sublist_middle [of x host "''[''" "'']:'' @ port"] sublist_middle [of x host "[]" "'':'' @ port"] by (simp add: JoinHostPort_def)

text \<open>
  How a failure to connect is reported: a refused login always counts as an authentication failure, but so does every failure to
  reach a host whose name contains the word login, because the text of the error contains the address.
\<close>

theorem connect_failure_kind:
  assumes "NewIMAPClient rd pem dial S cfg h = (Inl err, h')" "buildTLSConfig rd pem cfg = Inr tls"
  shows "(dial (JoinHostPort (conf_Host cfg) (dec_int (conf_Port cfg))) tls = None \<longrightarrow> classifyIMAPClientError (error_text err) = SystemErrorKindIMAPAuthFailed)
    \<and> (dial (JoinHostPort (conf_Host cfg) (dec_int (conf_Port cfg))) tls \<noteq> None \<and> sublist ''login'' (conf_Host cfg) \<longrightarrow>
        classifyIMAPClientError (error_text err) = SystemErrorKindIMAPAuthFailed \<and> h' = h)"
proof -
  let ?a = "JoinHostPort (conf_Host cfg) (dec_int (conf_Port cfg))"
  have l: "sublist ''login'' (''imap: '' @ ''login'' @ t)" for t by (rule sublist_middle) simp
  have host: "sublist ''login'' ((''imap: connect to '' @ ?a) @ t)" if "sublist ''login'' (conf_Host cfg)" for t
    using sublist_middle [OF sublist_JoinHostPort [OF that], of "''imap: connect to ''" _ t] by simp
  show ?thesis
  proof (cases "dial ?a tls")
    case None
    with assms have "\<exists>t. error_text err = ''imap: '' @ ''login'' @ t"
      by (auto simp: NewIMAPClient_def Let_def split: option.splits)
    with None l show ?thesis by (auto simp: classifyIMAPClientError_def)
  next
    case (Some e)
    with assms have "err = Wrap (''imap: connect to '' @ ?a) (ErrIMAP e)" "h' = h"
      by (auto simp: NewIMAPClient_def Let_def)
    with Some host show ?thesis by (simp add: classifyIMAPClientError_def)
  qed
qed

theorem connect_failure_kind_witness:
  "\<exists>err. fst (NewIMAPClient (\<lambda>_. Inl []) (\<lambda>_. False) (\<lambda>_ _. Some ''connection refused'') toy_server (conf (toy_client ''login.example.org'' 0)) []) = Inl err
    \<and> classifyIMAPClientError (error_text err) = SystemErrorKindIMAPAuthFailed"
proof -
  let ?n = "NewIMAPClient (\<lambda>_. Inl []) (\<lambda>_. False) (\<lambda>_ _. Some ''connection refused'') toy_server (conf (toy_client ''login.example.org'' 0)) []"
  obtain err h' tls where run: "?n = (Inl err, h')" "buildTLSConfig (\<lambda>_. Inl []) (\<lambda>_. False) (conf (toy_client ''login.example.org'' 0)) = Inr tls"
    by (simp add: NewIMAPClient_def buildTLSConfig_def toy_client_def Let_def)
  have "sublist ''login'' (conf_Host (conf (toy_client ''login.example.org'' 0)))"
    by (simp add: toy_client_def sublist_code)
  with connect_failure_kind [OF run] run(1) show ?thesis by simp
qed

end
