(* ===== verification/Cli_Safety.thy ===== *)
theory Cli_Safety
  imports Store_Invariant Runner_Safety
begin

text \<open>
  What holds of the whole program, from the command line: along every history of invocations the documents of the store are valid, so
  that a fetch never marks a message whose reports are not stored; and a dry invocation leaves files, mailbox and network alone.
\<close>

section \<open>Histories\<close>

text \<open>
  The configuration files that load on a host all name one root directory. Between two runs the schedule of faults and crashes,
  the clock and the answers of the network are arbitrary; the files are what the last run left.
\<close>

definition on_root :: "path \<Rightarrow> 'b host \<Rightarrow> bool" where
  "on_root root host \<longleftrightarrow> (\<forall>p cfg. loadConfig host p = Inr cfg \<longrightarrow> storeRoot cfg = root)"

inductive cli_history :: "'b host set \<Rightarrow> path \<Rightarrow> cmd_state \<Rightarrow> cmd_state \<Rightarrow> bool" for hosts root s where
  no_run: "cli_history hosts root s s"
| one_more: "cli_history hosts root s s1 \<Longrightarrow> host \<in> hosts \<Longrightarrow> on_root root host \<Longrightarrow> fs w = fs (cs_world s1) \<Longrightarrow>
    runCLI host args (s1\<lparr>cs_world := w, cs_net := n\<rparr>) = (r, s2) \<Longrightarrow> cli_history hosts root s s2"

lemma cmd_ok_CLI: "clean root \<Longrightarrow> on_root root host \<Longrightarrow> kept (cmd_ok root) (runCLI host args)"
  unfolding runCLI_def by (cases "parseCLI args") (auto intro!: cmd_keeping cmd_ok_invocation simp: on_root_def)

lemma history_ok:
  assumes "cli_history hosts root s s'" "clean root" "store_ok root (view (cs_world s))"
  shows "store_ok root (view (cs_world s'))"
  using assms(1)
proof induction
  case no_run
  then show ?case using assms(3) .
next
  case (one_more s1 host w args n r s2)
  have "cmd_ok root (s1\<lparr>cs_world := w, cs_net := n\<rparr>) s2"
    using cmd_ok_CLI [OF assms(2) one_more(3), of args] one_more(5) unfolding kept_def by (metis snd_conv)
  with one_more(4,6) show ?case by (simp add: cmd_ok_def ok_step_def)
qed

text \<open>
  C2. No history of the program corrupts its store. From any state whose documents are valid, such as a file system without a store, any
  sequence of invocations of the command line on hosts that share the root directory, with any arguments, mail servers, networks, and
  schedules of faults and crashes, leaves the data file, the sentinel and the manifest of a reset each absent or a complete document of the current
  version, with no report and no mail listed twice; so every later read of the store gets its data.
\<close>

theorem documents_always_valid:
  assumes "cli_history hosts root s s'" "clean root" "store_ok root (view (cs_world s))"
  shows "store_ok root (view (cs_world s'))
    \<and> (\<exists>df. data_of (newFileStore root ident m) (view (cs_world s')) = Some df \<and> reports_ok df \<and> emails_ok df)"
proof
  show ok: "store_ok root (view (cs_world s'))" using history_ok [OF assms] .
  have "standard_store (newFileStore root ident m)" "rootDir (newFileStore root ident m) = root"
    using assms(2) by (simp_all add: standard_store_def newFileStore_def)
  from store_ok_data [of "newFileStore root ident m", unfolded this(2), OF ok this(1)]
  show "\<exists>df. data_of (newFileStore root ident m) (view (cs_world s')) = Some df \<and> reports_ok df \<and> emails_ok df"
    by (auto simp: data_ok_def)
qed

text \<open>A machine on which every configuration file loads and puts the store below \<^verbatim>\<open>/s\<close>.\<close>

definition sample_host :: "string host" where
  "sample_host = \<lparr>host_env = (sample_env False)\<lparr>env_osReadFile := \<lambda>_. Inr []\<rparr>, host_decode =
       (\<lambda>_. Some ((minimal_raw ''imap.example.org'' 993)\<lparr>raw_Notify := \<lparr>raw_Slack = \<lparr>raw_AllowedHost = Some ''hooks.slack.com''\<rparr>\<rparr>\<rparr>)),
     host_absPath = (\<lambda>_. Some ''/s''),
     host_urlParse = (\<lambda>_. Some \<lparr>url_Scheme = ''https'', url_Host = ''hooks.slack.com'', url_Hostname = ''hooks.slack.com''\<rparr>),
     host_successURL = [], host_errorURL = ''https://hooks.slack.com/x'', host_runID = [], host_lockHeld = False\<rparr>"

lemma sample_on_root: "on_root [''s''] sample_host"
  by (auto simp: on_root_def loadConfig_def LoadFile_def sample_host_def storeRoot_def path_of_def split: if_splits option.splits sum.splits)

lemma sample_empty: "store_ok [''s''] (view (cs_world (sample_state \<lparr>fs = [([], Dir 493)], sched = [], clock = 100\<rparr>)))"
  by (auto simp: store_ok_def sample_state_def visible_def file_at_def path_defs)

theorem documents_always_valid_witness:
  "store_ok [''s''] (view (cs_world (snd (runCLI sample_host [''--config'', ''c'', ''fetch'', ''--since'', ''7d'']
     (sample_state \<lparr>fs = [([], Dir 493)], sched = [Pass, Pass, Halt []], clock = 100\<rparr>)))))"
proof -
  let ?s = "sample_state \<lparr>fs = [([], Dir 493)], sched = [], clock = 100\<rparr>"
  let ?w = "\<lparr>fs = [([], Dir 493)], sched = [Pass, Pass, Halt []], clock = 100\<rparr>"
  let ?args = "[''--config'', ''c'', ''fetch'', ''--since'', ''7d'']"
  obtain r s' where run: "runCLI sample_host ?args (?s\<lparr>cs_world := ?w, cs_net := cs_net ?s\<rparr>) = (r, s')" by fastforce
  have "cli_history {sample_host} [''s''] ?s s'"
    by (rule one_more [OF no_run _ sample_on_root _ run]) (simp_all add: sample_state_def)
  from documents_always_valid [OF this _ sample_empty] run show ?thesis by (simp add: sample_state_def)
qed

section \<open>Fetching\<close>

text \<open>Start-up talks to no mail server.\<close>

definition unsent :: "cmd_state \<Rightarrow> cmd_state \<Rightarrow> bool" where
  "unsent s s' \<longleftrightarrow> trace (cs_client s') = trace (cs_client s)"

interpretation unsent: step_relation unsent
  by unfold_locales (auto simp: unsent_def)

lemma unsent_startUp: "kept unsent (startUp host subcmd opt)"
proof -
  have leaves: "kept unsent (onStore m)" "kept unsent (sink_each f)" "kept unsent (sink_Flush env)" "kept unsent (useSink sink)"
    for m :: "'d store_io" and f env and sink :: notificationSink
    by (auto simp: kept_def unsent_def onStore_def sink_each_def sink_Flush_def useSink_def split: prod.split option.split)
  show ?thesis
    unfolding startUp_def bootNotifier_def acquireWriterLock_def openStore_def notifySystemError_def notifyComponent_def sink_LogSystemError_def
    by (intro unsent.kept_rules leaves)
qed

lemma exitCode_state: "exitCode m s = (r, s') \<Longrightarrow> \<exists>r'. m s = (r', s')"
  by (auto simp: exitCode_def bindIO_def attempt_def ret_def split: prod.splits outcome.splits sum.splits)

text \<open>An accepted command line starts up and, if that succeeds, runs the subcommand in the context it got.\<close>

lemma runCLI_cases:
  assumes "parseCLI args = Inr iv" "loadConfig host (ConfigPath (inv_Options iv)) = Inr cfg" "runCLI host args s = (r, s')"
  obtains (stopped) e where "startUp host (inv_Subcommand iv) (inv_Options iv) (s\<lparr>cs_sink := nopSink\<rparr>) = (e, s')"
  | (ran) boot guard s1 r' where "startUp host (inv_Subcommand iv) (inv_Options iv) (s\<lparr>cs_sink := nopSink\<rparr>) = (Ok (boot, guard), s1)"
      "booted (inv_Subcommand iv) (inv_Options iv) cfg boot" "runSubcommand host (inv_Subcommand iv) boot guard s1 = (r', s')"
proof (cases "startUp host (inv_Subcommand iv) (inv_Options iv) (s\<lparr>cs_sink := nopSink\<rparr>)")
  case (Pair r1 s1)
  show thesis
  proof (cases r1)
    case (Ok x)
    obtain boot guard where x: "x = (boot, guard)" by (cases x)
    have "booted (inv_Subcommand iv) (inv_Options iv) cfg boot"
      using startUp_returns [OF assms(2), of "inv_Subcommand iv"] Pair Ok x unfolding returns_def by fastforce
    moreover have "exitCode (runSubcommand host (inv_Subcommand iv) boot guard) s1 = (r, s')"
      using assms(1,3) Pair Ok x by (simp add: runCLI_def useSink_def bindIO_def runInvocation_def attempt_def)
    ultimately show thesis using ran [of boot guard s1] exitCode_state Pair Ok x by blast
  qed (use stopped assms(1,3) Pair in \<open>auto simp: runCLI_def useSink_def bindIO_def runInvocation_def attempt_def ret_def\<close>)
qed

lemma careful_all:
  "list_all (careful env boot uv V) cs \<longleftrightarrow> (\<forall>uids. UidExpunge uids \<notin> set cs) \<and>
     (\<forall>uids flag. UidStore uids flag \<in> set cs \<longrightarrow> flag = SeenFlag \<and> (\<forall>uid \<in> set uids. safely_stored env boot uv V uid))"
  by (force simp: list_all_iff careful_def split: imap_cmd.splits)

text \<open>
  C3. A fetch marks a message as seen only when it can never be lost. In every history of the program, whatever the server answers and
  under every schedule of faults and crashes, every change of flags that an invocation of \<^verbatim>\<open>fetch\<close> sends sets the seen flag, and for
  every message it names, the files at the end hold the mail under the validity of the mailbox and the data
  file has every report that can be extracted from it. It expunges nothing. A message that is not
  marked is fetched again, so every report is processed at least once.
\<close>

theorem fetch_marks_only_stored:
  assumes "cli_history hosts root s0 s" "clean root" "store_ok root (view (cs_world s0))"
    and "parseCLI args = Inr \<lparr>inv_Subcommand = subcommandFetch, inv_Options = opt\<rparr>"
    and "loadConfig host (ConfigPath opt) = Inr cfg" "storeRoot cfg = root"
    and "runCLI host args s = (r, s')" and "booted subcommandFetch opt cfg boot"
  shows "\<exists>uv cs. trace (cs_client s') = trace (cs_client s) @ cs \<and> (\<forall>uids. UidExpunge uids \<notin> set cs) \<and>
    (\<forall>uids flag. UidStore uids flag \<in> set cs \<longrightarrow>
       flag = SeenFlag \<and> (\<forall>uid \<in> set uids. safely_stored (host_env host) boot uv (view (cs_world s')) uid))"
proof -
  let ?iv = "\<lparr>inv_Subcommand = subcommandFetch, inv_Options = opt\<rparr>" and ?env = "host_env host"
  let ?start = "startUp host subcommandFetch opt" and ?s = "s\<lparr>cs_sink := nopSink\<rparr>"
  have config: "loadConfig host (ConfigPath (inv_Options ?iv)) = Inr cfg" using assms(5) by simp
  have kept: "store_ok root (view (cs_world s1)) \<and> trace (cs_client s1) = trace (cs_client s)" if "?start ?s = (x, s1)" for x s1
  proof -
    have "kept (cmd_ok root) ?start" using assms(2,5,6) by (intro cmd_ok_startUp) auto
    then show ?thesis
      using unsent_startUp [of host subcommandFetch opt] that history_ok [OF assms(1-3)]
      unfolding kept_def cmd_ok_def ok_step_def unsent_def by (metis cmd_state.select_convs(1,4) cmd_state.surjective cmd_state.update_convs(3) snd_conv)
  qed
  from assms(4) config assms(7) have "fetched ?env boot (trace (cs_client s)) (view (cs_world s')) (trace (cs_client s'))"
  proof (cases rule: runCLI_cases)
    case (stopped e)
    then have "trace (cs_client s') = trace (cs_client s)" using kept by simp
    then show ?thesis by (intro exI [of _ 0] exI [of _ "[]"]) simp
  next
    case (ran boot' guard s1 r')
    then have "boot' = boot" using assms(8) by (simp add: booted_def)
    have st: "standard_store (boot_Store boot)" "rootDir (boot_Store boot) = root" using booted_standard [OF assms(8)] assms(2,6) by auto
    have s1: "store_ok root (view (cs_world s1))" "trace (cs_client s1) = trace (cs_client s)" using kept ran(1) by auto
    from s1(1) st obtain df where "data_of (boot_Store boot) (view (cs_world s1)) = Some df" "data_ok df"
      using store_ok_data by metis
    then have "cwp (fetchRun ?env boot) (\<lambda>_. fetched ?env boot (trace (cs_client s1))) (\<lambda>_. fetched ?env boot (trace (cs_client s1)))
        (fetched ?env boot (trace (cs_client s1))) (view (cs_world s1)) (trace (cs_client s1))"
      using cwp_fetchRun [OF st(1)] by (auto simp: data_ok_def)
    from cwp_run [OF this, of r' s'] ran(3) s1(2) \<open>boot' = boot\<close> show ?thesis by (simp split: outcome.splits)
  qed
  then show ?thesis by (simp only: careful_all)
qed

lemma sample_config_loads: "\<exists>cfg. loadConfig sample_host ''c'' = Inr cfg \<and> storeRoot cfg = [''s'']"
proof -
  have "Load (host_decode sample_host) (\<lambda>_. Some []) (\<lambda>_. False) [] = Inr (applyDefaults (the (host_decode sample_host [])))" by code_simp
  then show ?thesis
    by (simp add: loadConfig_def LoadFile_def sample_host_def sample_env_def storeRoot_def path_of_def)
qed

definition sample_options :: "bool \<Rightarrow> cliOptions" where
  "sample_options dry = (newOptions ''c'')\<lparr>DryRun := dry\<rparr>"

lemma sample_parses:
  "parseCLI [''--config'', ''c'', ''fetch''] = Inr \<lparr>inv_Subcommand = subcommandFetch, inv_Options = sample_options False\<rparr>"
  "parseCLI [''--config'', ''c'', ''gc'', ''-n''] = Inr \<lparr>inv_Subcommand = subcommandGC, inv_Options = sample_options True\<rparr>"
  by code_simp+

lemma sample_world_ok: "store_ok [''s''] (view (cs_world (sample_state sample_world)))"
  by (auto simp: store_ok_def sample_state_def sample_defs visible_def file_at_def path_defs data_ok_def reports_ok_def emails_ok_def DataFileVersion_def
      strict_prefix_def prefix_def Cons_eq_append_conv)

theorem fetch_marks_only_stored_witness:
  "\<exists>boot uv. booted subcommandFetch (sample_options False) (projr (loadConfig sample_host ''c'')) boot
    \<and> (let s' = snd (runCLI sample_host [''--config'', ''c'', ''fetch''] (sample_state sample_world)) in
       list_all (careful (host_env sample_host) boot uv (view (cs_world s'))) (trace (cs_client s')))"
proof -
  let ?s = "sample_state sample_world" and ?args = "[''--config'', ''c'', ''fetch'']"
  obtain cfg where cfg: "loadConfig sample_host ''c'' = Inr cfg" "storeRoot cfg = [''s'']" using sample_config_loads by blast
  obtain r s' where run: "runCLI sample_host ?args ?s = (r, s')" by fastforce
  define boot where "boot = \<lparr>boot_Config = cfg, boot_Options = sample_options False,
    boot_Store = newFileStore (storeRoot cfg) (storeIdentity cfg) (openMode subcommandFetch (sample_options False))\<rparr>"
  have booted: "booted subcommandFetch (sample_options False) cfg boot" by (simp add: booted_def boot_def)
  have path: "loadConfig sample_host (ConfigPath (sample_options False)) = Inr cfg" using cfg(1) by (simp add: sample_options_def newOptions_def)
  have "clean [''s'']" by simp
  from fetch_marks_only_stored [OF no_run this sample_world_ok sample_parses(1) path cfg(2) run booted]
  obtain uv where "list_all (careful (host_env sample_host) boot uv (view (cs_world s'))) (trace (cs_client s'))"
    by (auto simp only: careful_all [symmetric] sample_run_facts append_Nil)
  with run cfg(1) booted show ?thesis by (intro exI [of _ boot] exI [of _ uv]) simp
qed

section \<open>Dry runs\<close>

text \<open>Programs of the store that only read.\<close>

definition frozen :: "content world \<Rightarrow> content world \<Rightarrow> bool" where
  "frozen w w' \<longleftrightarrow> fs w' = fs w"

interpretation frozen: step_relation frozen
  by unfold_locales (auto simp: frozen_def)

lemma frozen_reads: "kept frozen nop" "kept frozen (stat p)" "kept frozen (readFile p)" "kept frozen getNow"
  by (auto simp: kept_def frozen_def nop_def stat_def readFile_def getNow_def sys_def run_call_def no_part_def
      split: list.split fault.split option.split node.split)

lemma frozen_loads: "kept frozen (loadSentinel root)" "kept frozen (loadDataFile st)"
  unfolding loadSentinel_def loadDataFile_def
  by (intro frozen.kept_rules frozen_reads | simp split: content.split add: frozen.kept_rules)+

lemma frozen_store:
  "kept frozen (Open root ident OpenReadOnly)" "kept frozen (CheckRecoveryRequired guard)" "kept frozen (GenerateSummary ctxErr st a b)"
proof -
  have never: "kept frozen (if OpenReadOnly \<noteq> OpenReadOnly then m else ret ())" for m :: "unit store_io" by (simp add: frozen.kept_rules)
  show "kept frozen (Open root ident OpenReadOnly)"
    unfolding Open_def prepareStore_def bindIdentity_def checkFilePermissions_def by simp (intro frozen.kept_rules frozen_reads frozen_loads never)
  show "kept frozen (CheckRecoveryRequired guard)"
    unfolding CheckRecoveryRequired_def by (cases guard) (simp_all, (intro frozen.kept_rules frozen_loads)+)
  show "kept frozen (GenerateSummary ctxErr st a b)"
    unfolding GenerateSummary_def GetAllReports_def by (intro frozen.kept_rules frozen_loads)
qed

text \<open>A dry invocation: apart from the guard file of \<^verbatim>\<open>summary\<close>, files, mailbox and network stay.\<close>

definition dry_step :: "path \<Rightarrow> cmd_state \<Rightarrow> cmd_state \<Rightarrow> bool" where
  "dry_step root s s' \<longleftrightarrow> (\<forall>q. q \<noteq> guardFilePath root \<longrightarrow> view (cs_world s') q = view (cs_world s) q)
     \<and> (\<exists>cs. trace (cs_client s') = trace (cs_client s) @ cs \<and> list_all harmless cs) \<and> silent_step s s'"

interpretation dry: step_relation "dry_step root" for root
proof
  fix s t u
  show "dry_step root s s" by (simp add: dry_step_def silent.R_refl)
  assume "dry_step root s t" "dry_step root t u"
  then show "dry_step root s u" unfolding dry_step_def using silent.R_trans [of s t u] by auto
qed

lemma dry_frozen: "kept frozen m \<Longrightarrow> kept (dry_step root) (onStore m)"
  unfolding kept_def frozen_def dry_step_def silent_step_def muted_def onStore_def by (auto split: prod.split) (metis snd_conv)

lemma dry_quiet: "kept silent_step m \<Longrightarrow> kept inert_step m \<Longrightarrow> kept (dry_step root) m"
  by (simp add: kept_def dry_step_def inert_step_def)

lemma dry_sinks:
  "kept (dry_step root) (sink_LogSummary sm)" "kept (dry_step root) (sink_Flush env)" "kept (dry_step root) (notifyComponent env component kind mailbox)"
proof -
  have summary: "kept inert_step (sink_LogSummary sm)" by (rule kept_cwp, intro cvc; simp)
  show "kept (dry_step root) (sink_LogSummary sm)" "kept (dry_step root) (sink_Flush env)" "kept (dry_step root) (notifyComponent env component kind mailbox)"
    by (intro dry_quiet silence inertness summary)+
qed

lemma dry_guard:
  assumes "clean (rootDir st)"
  shows "kept (dry_step (rootDir st)) (onStore (AcquireSummaryConsistencyGuard st))"
proof -
  have cond: "vwp False (AcquireSummaryConsistencyGuard st) (\<lambda>_ V'. \<forall>q. q \<noteq> guardFilePath (rootDir st) \<longrightarrow> V' q = V q)
      (\<lambda>_ V'. \<forall>q. q \<noteq> guardFilePath (rootDir st) \<longrightarrow> V' q = V q) (\<lambda>V'. \<forall>q. q \<noteq> guardFilePath (rootDir st) \<longrightarrow> V' q = V q) V" for V
    using assms unfolding AcquireSummaryConsistencyGuard_def by (auto intro!: vc simp: path_defs is_not_exist_def)
  have "\<forall>q. q \<noteq> guardFilePath (rootDir st) \<longrightarrow> view (snd (AcquireSummaryConsistencyGuard st w)) q = view w q" for w
    using vwp_cases [OF cond, of w "fst (AcquireSummaryConsistencyGuard st w)" "snd (AcquireSummaryConsistencyGuard st w)"]
    by (simp add: quiet_def split: outcome.splits)
  then show ?thesis
    unfolding kept_def dry_step_def silent_step_def muted_def onStore_def by (auto split: prod.split) (metis snd_conv)
qed

lemma buildNotifier_muted:
  assumes "buildNotifier host cfg True = Inr sink"
  shows "list_all (\<lambda>h. opt_IsDryRun (opts h)) (handlers sink)"
proof -
  let ?ops = "\<lparr>WebhookURL = [], AllowedHost = slack_AllowedHost (notify_Slack (cfg_Notify cfg)), RunID = host_runID host,
    opt_LevelMode = LevelModeOther [], opt_IsDryRun = True, opt_BackoffConfig = DefaultBackoffConfig\<rparr>"
  obtain hs where sink: "sink = \<lparr>handlers = hs, sink_dryRun = True\<rparr>"
    and hs: "BuildHandlers (host_urlParse host) (host_successURL host) (host_errorURL host) (slack_AllowedHost (notify_Slack (cfg_Notify cfg))) ?ops = Inr hs"
    using assms by (auto simp: buildNotifier_def setupNotifyHandlers_def split: sum.splits)
  from BuildHandlers_shape [OF hs] show ?thesis by (auto simp: sink dest!: NewSlackHandler_Inr)
qed

lemma dry_crash: "kept (dry_step root) crash"
  by (simp add: kept_def crash_def dry.R_refl)

lemma dry_useSink: "list_all (\<lambda>h. opt_IsDryRun (opts h)) (handlers sink) \<Longrightarrow> kept (dry_step root) (useSink sink)"
  by (simp add: kept_def dry_step_def silent_step_def muted_def useSink_def)

lemma onStore_distrib: "onStore (bindIO m f) = bindIO (onStore m) (\<lambda>a. onStore (f a))" "onStore (mapErr g n) = mapErr g (onStore n)" "onStore (ret a) = ret a"
  by (auto simp: fun_eq_iff onStore_def bindIO_def mapErr_def ret_def Let_def split: prod.split outcome.split)

lemma dry_startUp:
  assumes "DryRun opt" "subcmd \<noteq> subcommandRecover" "loadConfig host (ConfigPath opt) = Inr cfg" "clean (storeRoot cfg)"
  shows "kept (dry_step (if subcmd = subcommandSummary then storeRoot cfg else root)) (startUp host subcmd opt)"
proof (cases "subcmd = subcommandSummary")
  case True
  let ?open = "mapErr (Wrap ''open summary store'') (onStore (Open (storeRoot cfg) (storeIdentity cfg) OpenReadOnly))"
  have opened: "returns (\<lambda>st. rootDir st = storeRoot cfg) ?open"
    unfolding Open_def by (intro returns_rules returns_more) simp
  have kept: "kept (dry_step (storeRoot cfg)) ?open" by (intro dry.kept_rules dry_frozen frozen_store)
  have "kept (dry_step (storeRoot cfg)) (onStore (bootstrapSummary (storeRoot cfg) (storeIdentity cfg)))"
    unfolding bootstrapSummary_def onStore_distrib
    by (rule dry.kept_bind_result [OF kept opened], intro dry.kept_rules) (metis dry_guard assms(4))
  then show ?thesis unfolding startUp_def assms(3) True by (simp, intro dry.kept_rules)
next
  case False
  have sink: "kept (dry_step root) (bootNotifier host subcmd cfg True)"
    unfolding bootNotifier_def using assms(2) buildNotifier_muted [of host cfg]
    by (auto split: sum.split intro!: dry.kept_rules dry_useSink)
  have store: "kept (dry_step root) (openStore host cfg OpenReadOnly)"
    unfolding openStore_def notifySystemError_def by (intro dry.kept_rules dry_frozen frozen_store dry_sinks)
  show ?thesis
    using False assms(1,2) unfolding startUp_def assms(3)
    by (simp add: openMode_def storeOpenMode_def, intro dry.kept_rules sink store)
qed

lemma dry_summaryRun:
  assumes "DryRun (boot_Options boot)"
  shows "kept (dry_step root) (summaryRun env (defaultBuildSummaryNotifier host boot) guard boot)"
proof -
  have sink: "kept (dry_step root) (useNotifier (defaultBuildSummaryNotifier host boot))"
    using buildNotifier_muted [of host "boot_Config boot"] assms
    by (auto simp: kept_def dry_step_def silent_step_def muted_def useNotifier_def defaultBuildSummaryNotifier_def split: sum.split)
  show ?thesis
    unfolding summaryRun_def logSummarySystemError_def Let_def
    by (intro dry.kept_rules sink dry_frozen frozen_store frozen_reads dry_sinks)
qed

text \<open>
  C11. A dry invocation only observes. Under every schedule of faults and crashes and for every server, an accepted command line with \<^verbatim>\<open>--dry-run\<close>
  leaves every visible file as it is, except that \<^verbatim>\<open>summary\<close> may touch the guard file it locks; the only commands it sends are logins, logouts,
  selections of the mailbox for reading, searches, fetches and the closing of the mailbox; and it never uses the network for notifications,
  whatever webhooks are configured.
\<close>

theorem dry_invocation_observes:
  assumes "parseCLI args = Inr iv" "DryRun (inv_Options iv)" "loadConfig host (ConfigPath (inv_Options iv)) = Inr cfg" "clean (storeRoot cfg)"
    and "runCLI host args s = (r, s')"
  shows "(\<forall>q. view (cs_world s') q \<noteq> view (cs_world s) q \<longrightarrow> inv_Subcommand iv = subcommandSummary \<and> q = guardFilePath (storeRoot cfg))
    \<and> (\<exists>cs. trace (cs_client s') = trace (cs_client s) @ cs \<and> list_all harmless cs) \<and> cs_net s' = cs_net s"
proof -
  let ?sub = "inv_Subcommand iv" and ?s = "s\<lparr>cs_sink := nopSink\<rparr>"
  have sub: "?sub \<in> {subcommandFetch, subcommandSummary, subcommandGC}"
    using parseCLI_valid [OF assms(1)] assms(2) by (simp add: valid_invocation_def Let_def)
  have dry: "dry_step (if ?sub = subcommandSummary then storeRoot cfg else root) ?s s'" for root
  proof -
    let ?R = "dry_step (if ?sub = subcommandSummary then storeRoot cfg else root)"
    have start: "kept ?R (startUp host ?sub (inv_Options iv))" using assms(2-4) sub by (intro dry_startUp) auto
    from assms(1,3,5) show ?thesis
    proof (cases rule: runCLI_cases)
      case (stopped e)
      then show ?thesis using start unfolding kept_def by (metis snd_conv)
    next
      case (ran boot guard s1 r')
      have b: "DryRun (boot_Options boot)" using ran(2) assms(2) by (simp add: booted_def)
      have c: "clean (rootDir (boot_Store boot))" "clean (dataPath (boot_Store boot))"
        using booted_standard [OF ran(2) assms(4)] standard_paths by blast+
      have "kept ?R (runSubcommand host ?sub boot guard)"
        using sub dry_summaryRun [OF b] dry_quiet [OF silent_fetchRun inert_fetchRun [OF c b]] dry_quiet [OF silent_gcRun inert_gcRun [OF c b]]
        by (cases guard) (auto simp: dry_crash)
      with start ran show ?thesis unfolding kept_def by (metis dry.R_trans snd_conv)
    qed
  qed
  have "muted ?s" by (simp add: muted_def nopSink_def)
  then have quiet: "(\<exists>cs. trace (cs_client s') = trace (cs_client s) @ cs \<and> list_all harmless cs) \<and> cs_net s' = cs_net s"
    using dry [of "[]"] by (simp add: dry_step_def silent_step_def)
  moreover have "?sub = subcommandSummary \<and> q = guardFilePath (storeRoot cfg)" if "view (cs_world s') q \<noteq> view (cs_world s) q" for q
  proof (cases "?sub = subcommandSummary")
    case True
    with dry [of "[]"] that show ?thesis by (auto simp: dry_step_def)
  next
    case False
    have "q = guardFilePath root" for root using dry [of root] False that by (auto simp: dry_step_def)
    from this [of "[]"] this [of "[[]]"] show ?thesis by (simp add: path_defs)
  qed
  ultimately show ?thesis by blast
qed

theorem dry_invocation_observes_witness:
  "view (cs_world (snd (runCLI sample_host [''--config'', ''c'', ''gc'', ''-n''] (sample_state sample_world)))) = view sample_world
   \<and> cs_net (snd (runCLI sample_host [''--config'', ''c'', ''gc'', ''-n''] (sample_state sample_world))) = \<lparr>script = [], posts = [], sleeps = []\<rparr>"
proof -
  let ?args = "[''--config'', ''c'', ''gc'', ''-n'']"
  obtain r s' where run: "runCLI sample_host ?args (sample_state sample_world) = (r, s')" by fastforce
  obtain cfg where cfg: "loadConfig sample_host ''c'' = Inr cfg" "storeRoot cfg = [''s'']" using sample_config_loads by blast
  have "clean (storeRoot cfg)" by (simp add: cfg(2))
  from dry_invocation_observes [OF sample_parses(2) _ _ this run] cfg(1) run show ?thesis
    by (auto simp: sample_options_def newOptions_def fun_eq_iff) (simp_all add: sample_state_def)
qed

end
