(* ===== verification/Fetch_Alerts.thy ===== *)
theory Fetch_Alerts
  imports Cli_Safety
begin

text \<open>
  Alerts come before the seen flag: when \<^verbatim>\<open>fetch\<close> marks a message, every alert about a failing policy in a report of its mail has been posted to
  every handler that accepts alerts. The buffers of the handlers are described by the notifications logged since the
  last flush.
\<close>

section \<open>What the handlers hold\<close>

definition fresh :: "SlackHandler list \<Rightarrow> bool" where
  "fresh hs \<longleftrightarrow> list_all (\<lambda>h. buf h = [] \<and> safe_backoff (opt_BackoffConfig (opts h))) hs"

definition holding :: "'b env \<Rightarrow> SlackHandler list \<Rightarrow> notification list \<Rightarrow> cmd_state \<Rightarrow> bool" where
  "holding env hs N s \<longleftrightarrow> list_all well_keyed N \<and> handlers (cs_sink s) = map (fold (log_one (env_sort env)) N) hs"

definition posted :: "'b env \<Rightarrow> SlackHandler list \<Rightarrow> notification list \<Rightarrow> net \<Rightarrow> bool" where
  "posted env hs N n \<longleftrightarrow> (\<forall>h \<in> set hs. \<not> opt_IsDryRun (opts h) \<longrightarrow>
     (\<lambda>m. (WebhookURL (opts h), truncateMessage m)) ` set (due (env_sort env) h N) \<subseteq> set (posts n))"

lemma posted_Cons: "posted env (h # hs) N n \<longleftrightarrow> posted env [h] N n \<and> posted env hs N n"
  by (simp add: posted_def)

lemma posted_mono: "posted env hs N n \<Longrightarrow> set (posts n) \<subseteq> set (posts n') \<Longrightarrow> posted env hs N n'"
  unfolding posted_def by (meson order_trans)

lemma flush_all_holding:
  assumes "fresh hs" "list_all well_keyed N"
  shows "\<exists>errs n'. flush_all render (map (fold (log_one (env_sort env)) N) hs) n = Some (errs, n', hs)
    \<and> set (posts n) \<subseteq> set (posts n') \<and> (errs = [] \<longrightarrow> posted env hs N n')"
  using assms(1)
proof (induction hs arbitrary: n)
  case Nil
  then show ?case by (simp add: posted_def)
next
  case (Cons h hs)
  then obtain errs n1 where 1: "Flush render (fold (log_one (env_sort env)) N h) n = Some (errs, n1, h)"
      "set (posts n) \<subseteq> set (posts n1)" "errs = [] \<Longrightarrow> posted env [h] N n1"
    using flush_logged [OF assms(2), of h render "env_sort env" n] by (fastforce simp: fresh_def posted_def)
  from Cons obtain errs2 n2 where 2: "flush_all render (map (fold (log_one (env_sort env)) N) hs) n1 = Some (errs2, n2, hs)"
      "set (posts n1) \<subseteq> set (posts n2)" "errs2 = [] \<longrightarrow> posted env hs N n2"
    by (force simp: fresh_def)
  have "posted env (h # hs) N n2" if "errs @ errs2 = []"
    using 1(3) 2(2,3) that by (subst posted_Cons) (auto intro: posted_mono)
  with 1(1,2) 2(1,2) show ?case by auto
qed

lemma sink_Flush_holding:
  assumes "fresh hs" "holding env hs N s" "sink_Flush env s = (r, s')"
  shows "holding env hs [] s' \<and> cs_world s' = cs_world s \<and> cs_client s' = cs_client s \<and> set (posts (cs_net s)) \<subseteq> set (posts (cs_net s'))
    \<and> (r = Ok () \<longrightarrow> posted env hs N (cs_net s'))"
proof -
  obtain errs n' where f: "flush_all (env_render env) (handlers (cs_sink s)) (cs_net s) = Some (errs, n', hs)"
      "set (posts (cs_net s)) \<subseteq> set (posts n')" "errs = [] \<longrightarrow> posted env hs N n'"
    using flush_all_holding [OF assms(1), of N "env_render env" env "cs_net s"] assms(2) by (auto simp: holding_def)
  have "map (fold (log_one (env_sort env)) []) hs = hs" by simp
  with f assms(3) show ?thesis by (auto simp: sink_Flush_def holding_def)
qed

section \<open>Logging\<close>

text \<open>Programs that, when they succeed, have logged a list of notifications of which a predicate holds.\<close>

definition logs :: "'b env \<Rightarrow> 'a cmd \<Rightarrow> ('a \<Rightarrow> notification list \<Rightarrow> bool) \<Rightarrow> bool" where
  "logs env m P \<longleftrightarrow> (\<forall>hs N s a s'. holding env hs N s \<longrightarrow> m s = (Ok a, s') \<longrightarrow> (\<exists>M. holding env hs (N @ M) s' \<and> P a M))"

lemma logs_pure: "P a [] \<Longrightarrow> logs env (ret a) P" "logs env (fail e) P"
  by (auto simp: logs_def ret_def fail_def intro!: exI [of _ "[]"])

lemma logs_bind:
  assumes "logs env m P" "\<And>a M. P a M \<Longrightarrow> logs env (f a) (\<lambda>b M'. Q b (M @ M'))"
  shows "logs env (bindIO m f) Q"
  unfolding logs_def
proof (intro allI impI)
  fix hs N s b s'
  assume h: "holding env hs N s" and run: "bindIO m f s = (Ok b, s')"
  then obtain a s1 where 1: "m s = (Ok a, s1)" "f a s1 = (Ok b, s')" by (auto simp: bindIO_def split: prod.splits outcome.splits)
  with assms(1) h obtain M where M: "holding env hs (N @ M) s1" "P a M" unfolding logs_def by blast
  with assms(2) [OF M(2)] 1(2) obtain M' where "holding env hs ((N @ M) @ M') s'" "Q b (M @ M')" unfolding logs_def by blast
  then show "\<exists>M. holding env hs (N @ M) s' \<and> Q b M" by (intro exI [of _ "M @ M'"]) simp
qed

lemma logs_mono: "logs env m P \<Longrightarrow> (\<And>a M. P a M \<Longrightarrow> Q a M) \<Longrightarrow> logs env m Q"
  unfolding logs_def by blast

lemma logs_mapErr: "logs env m P \<Longrightarrow> logs env (mapErr g m) P"
  unfolding logs_def mapErr_def by (fastforce split: prod.splits outcome.splits)

lemma logs_onStore: "P [] \<Longrightarrow> logs env (onStore m) (\<lambda>_. P)"
  by (auto simp: logs_def onStore_def holding_def intro!: exI [of _ "[]"] split: prod.splits)

lemma logs_one: "P () [nt] \<Longrightarrow> well_keyed nt \<Longrightarrow> logs env (sink_each (log_one (env_sort env) nt)) P"
  by (auto simp: logs_def sink_each_def holding_def intro!: exI [of _ "[nt]"])

lemma logs_sinks:
  "P () [Alerting a] \<Longrightarrow> logs env (sink_LogAlert env a) P" "P () [Warn w] \<Longrightarrow> logs env (sink_LogWarning w) P"
proof -
  have "log_one (env_sort env) (Alerting a) = (\<lambda>h. LogAlert (env_sort env) h a)" "log_one (env_sort env) (Warn w) = (\<lambda>h. LogWarning h w)"
    by (simp_all add: log_one_def fun_eq_iff)
  then show "P () [Alerting a] \<Longrightarrow> logs env (sink_LogAlert env a) P" "P () [Warn w] \<Longrightarrow> logs env (sink_LogWarning w) P"
    using logs_one [of P "Alerting a" env] logs_one [of P "Warn w" env]
    by (simp_all add: sink_LogAlert_def sink_LogWarning_def well_keyed_def)
qed

text \<open>The alerts that are due for a report.\<close>

definition alerts_for :: "Report \<Rightarrow> notification set" where
  "alerts_for rep = {Alerting (policy_alert rep p) | p. p \<in> set (policy_records rep) \<and> 0 < TotalFailureSessionCount (policy_summary p)}"

lemma logs_logAlerts: "logs env (logAlerts env rep) (\<lambda>_ M. alerts_for rep \<subseteq> set M)"
proof -
  have "logs env (alert_loop env rep ps) (\<lambda>_ M. {Alerting (policy_alert rep p) | p. p \<in> set ps \<and> 0 < TotalFailureSessionCount (policy_summary p)} \<subseteq> set M)" for ps
  proof (induction ps)
    case (Cons p ps)
    show ?case
    proof (cases "TotalFailureSessionCount (policy_summary p) \<le> 0")
      case True
      then have "{Alerting (policy_alert rep q) | q. q \<in> set (p # ps) \<and> 0 < TotalFailureSessionCount (policy_summary q)}
          = {Alerting (policy_alert rep q) | q. q \<in> set ps \<and> 0 < TotalFailureSessionCount (policy_summary q)}" by auto
      with True Cons show ?thesis by simp
    next
      case False
      show ?thesis
        unfolding alert_loop.simps using False
        by simp (rule logs_bind [OF logs_sinks(1) [where P = "\<lambda>_ M. M = [Alerting (policy_alert rep p)]", OF refl]],
          rule logs_mono [OF Cons], auto)
    qed
  qed (simp add: logs_pure)
  then show ?thesis by (simp add: logAlerts_def alerts_for_def)
qed

lemma alerts_for_none: "\<not> HasFailure rep \<Longrightarrow> alerts_for rep = {}"
  by (auto simp: alerts_for_def HasFailure_def has_failure_loop_iff)

lemma logs_warn: "P () [Warn \<lparr>warning_Kind = k, warning_UID = u, warning_UIDValidity = v, warning_MessageID = mid\<rparr>] \<Longrightarrow> logs env (logWarn k u v mid) P"
  unfolding logWarn_def by (rule logs_sinks)

definition alerts_in :: "'b env \<Rightarrow> BootContext \<Rightarrow> string \<Rightarrow> notification set" where
  "alerts_in env boot raw = (\<Union>rep \<in> set (reports_in env (imap_MaxMessageBytes (cfg_IMAP (boot_Config boot))) raw). alerts_for rep)"

lemma logs_attachments:
  assumes "\<not> mm_Seen meta"
  shows "logs env (attachment_loop env meta uv atts)
    (\<lambda>_ M. (\<Union>rep \<in> set (List.map_filter (\<lambda>att. case parseTLSRPTAttachment env att of Some (Inr r) \<Rightarrow> Some r | _ \<Rightarrow> None) atts). alerts_for rep) \<subseteq> set M)"
proof (induction atts)
  case Nil
  then show ?case by (simp add: logs_pure map_filter_simps)
next
  case (Cons att atts)
  consider "parseTLSRPTAttachment env att = None" | e where "parseTLSRPTAttachment env att = Some (Inl e)" | rep where "parseTLSRPTAttachment env att = Some (Inr rep)"
    by (metis old.sum.exhaust option.exhaust)
  then show ?case
  proof cases
    case 1
    with Cons show ?thesis by (simp add: map_filter_simps)
  next
    case 2
    then show ?thesis
      by (simp add: map_filter_simps) (rule logs_bind [OF logs_warn [where P = "\<lambda>_ _. True"]], simp, rule logs_mono [OF Cons], auto)
  next
    case 3
    have "logs env (if \<not> mm_Seen meta \<and> HasFailure rep then logAlerts env rep else ret ()) (\<lambda>_ M. alerts_for rep \<subseteq> set M)"
      using assms logs_logAlerts alerts_for_none by (auto intro: logs_pure)
    then show ?thesis
      using 3 by (simp add: map_filter_simps split del: if_split)
        (rule logs_bind, assumption, rule logs_bind [OF Cons], rule logs_pure, auto)
  qed
qed

lemma logs_collectMessage: "\<not> mm_Seen (st_meta x) \<Longrightarrow> logs env (collectMessage env boot x uv raw) (\<lambda>_ M. alerts_in env boot raw \<subseteq> set M)"
  unfolding collectMessage_def processAttachments_def alerts_in_def reports_in_def
  by (auto split: option.split sum.split intro!: logs_bind [OF logs_warn [where P = "\<lambda>_ _. True"]] logs_pure logs_attachments)

text \<open>Loops that log anything at all.\<close>

lemma logs_any:
  "logs env (logWarn k u v mid) (\<lambda>_ _. True)" "logs env (logAlerts env rep) (\<lambda>_ _. True)"
  "logs env (attachment_loop env meta uv atts) (\<lambda>_ _. True)" "logs env (collectMessage env boot x uv raw) (\<lambda>_ _. True)"
proof -
  show w: "logs env (logWarn k u v mid) (\<lambda>_ _. True)" for k u v mid by (rule logs_warn) simp
  show a: "logs env (logAlerts env rep) (\<lambda>_ _. True)" for rep using logs_logAlerts by (rule logs_mono) simp
  show l: "logs env (attachment_loop env meta uv atts) (\<lambda>_ _. True)" for meta atts
    by (induction atts) (auto split: option.split sum.split intro!: logs_pure logs_bind [OF w] logs_bind [OF a] logs_bind [where P = "\<lambda>_ _. True"])
  show "logs env (collectMessage env boot x uv raw) (\<lambda>_ _. True)"
    unfolding collectMessage_def processAttachments_def by (auto split: option.split sum.split intro!: logs_pure logs_bind [OF w] l)
qed

lemma bindIO_Ok: "bindIO m f s = (Ok b, s') \<longleftrightarrow> (\<exists>a s1. m s = (Ok a, s1) \<and> f a s1 = (Ok b, s'))"
  by (auto simp: bindIO_def split: prod.splits outcome.splits)

text \<open>The alerts due for the unseen messages whose mails are stored.\<close>

definition alerts_due :: "'b env \<Rightarrow> BootContext \<Rightarrow> u32 \<Rightarrow> notification list \<Rightarrow> store_view \<Rightarrow> fetchMsgState \<Rightarrow> bool" where
  "alerts_due env boot uv N V x \<longleftrightarrow> (\<exists>m c. V (mail_path (boot_Store boot) uv x) = Some (Reg m c) \<and> alerts_in env boot (content_bytes env c) \<subseteq> set N)"

text \<open>The mail of a message is the one that was downloaded or the file.\<close>

lemma mail_loaded:
  assumes "clean (rootDir (boot_Store boot))" "holds_mail env (boot_Store boot) uv x (view (cs_world s))"
    "(case rawEML x of Some raw \<Rightarrow> ret raw
      | None \<Rightarrow> wrapErr ctx (onStore (loadLocalEML env (rootDir (boot_Store boot)) (mm_UID (st_meta x)) uv (mm_Date (st_meta x))))) s = (Ok raw, s1)"
  shows "cs_sink s1 = cs_sink s \<and> view (cs_world s1) = view (cs_world s) \<and>
      (\<exists>m c. view (cs_world s) (mail_path (boot_Store boot) uv x) = Some (Reg m c) \<and> raw = content_bytes env c)"
proof (cases "rawEML x")
  case (Some r)
  with assms(2,3) show ?thesis by (auto simp: ret_def holds_mail_def)
next
  case None
  let ?m = "loadLocalEML env (rootDir (boot_Store boot)) (mm_UID (st_meta x)) uv (mm_Date (st_meta x))"
  from None assms(3) have ok: "?m (cs_world s) = (Ok raw, cs_world s1)" "cs_sink s1 = cs_sink s"
    by (auto simp: mapErr_def onStore_def split: prod.splits outcome.splits)
  from vwp_cases [OF vwp_loadLocalEML [OF assms(1)] _ ok(1)] ok(2) show ?thesis by (simp add: quiet_def)
qed

lemma collect_alerts:
  assumes "clean (rootDir (boot_Store boot))" "fetchCollectReports env boot states uv (rootDir (boot_Store boot)) s = (Ok reports, s')"
    "holding env hs N s" "stored env (boot_Store boot) uv states (view (cs_world s))"
  shows "\<exists>M. holding env hs (N @ M) s' \<and> (\<forall>x \<in> set states. \<not> mm_Seen (st_meta x) \<longrightarrow> alerts_due env boot uv (N @ M) (view (cs_world s)) x)"
  using assms(2-)
proof (induction states arbitrary: s N reports)
  case Nil
  then show ?case by (auto simp: ret_def intro!: exI [of _ "[]"])
next
  case (Cons x states)
  let ?load = "case rawEML x of Some raw \<Rightarrow> ret raw
    | None \<Rightarrow> wrapErr ''fetch: load local eml'' (onStore (loadLocalEML env (rootDir (boot_Store boot)) (mm_UID (st_meta x)) uv (mm_Date (st_meta x))))"
  have st: "emlExistedBefore x \<or> rawEML x \<noteq> None" "holds_mail env (boot_Store boot) uv x (view (cs_world s))" "stored env (boot_Store boot) uv states (view (cs_world s))"
    using Cons.prems(3) by (auto simp: stored_def)
  show ?case
  proof (cases "mm_Seen (st_meta x) \<and> (emlExistedBefore x \<or> rawEML x = None)")
    case True
    then have "fetchCollectReports env boot states uv (rootDir (boot_Store boot)) s = (Ok reports, s')"
      using Cons.prems(1) by (auto split: if_splits)
    from Cons.IH [OF this Cons.prems(2) st(3)] True show ?thesis by auto
  next
    case False
    with st(1) have go: "bindIO ?load (\<lambda>raw. bindIO (collectMessage env boot x uv raw) (\<lambda>reports.
        bindIO (fetchCollectReports env boot states uv (rootDir (boot_Store boot))) (\<lambda>reports'. ret (reports @ reports')))) s = (Ok reports, s')"
      using Cons.prems(1) by (auto split: if_splits)
    then obtain raw s1 rs1 s2 rs2 where run: "?load s = (Ok raw, s1)" "collectMessage env boot x uv raw s1 = (Ok rs1, s2)"
        "fetchCollectReports env boot states uv (rootDir (boot_Store boot)) s2 = (Ok rs2, s')"
      by (auto simp: bindIO_Ok ret_def)
    note load = mail_loaded [OF assms(1) st(2) run(1)]
    have h1: "holding env hs N s1" using load Cons.prems(2) by (simp add: holding_def)
    obtain M1 where M1: "holding env hs (N @ M1) s2" "\<not> mm_Seen (st_meta x) \<longrightarrow> alerts_in env boot raw \<subseteq> set M1"
      using logs_collectMessage [of x env boot uv raw] logs_any(4) [of env boot x uv raw] h1 run(2) unfolding logs_def by blast
    have v2: "view (cs_world s2) = view (cs_world s)"
      using cwp_run [OF cwp_collectMessage, of env boot x uv raw s1] run(2) load by auto
    obtain M2 where M2: "holding env hs ((N @ M1) @ M2) s'" "\<forall>x \<in> set states. \<not> mm_Seen (st_meta x) \<longrightarrow> alerts_due env boot uv ((N @ M1) @ M2) (view (cs_world s)) x"
      using Cons.IH [OF run(3) M1(1)] st(3) by (auto simp: v2)
    have "alerts_due env boot uv (N @ M1 @ M2) (view (cs_world s)) x" if "\<not> mm_Seen (st_meta x)"
      using M1(2) that load by (auto simp: alerts_due_def)
    with M2 show ?thesis by (intro exI [of _ "M1 @ M2"]) auto
  qed
qed

section \<open>Steps that keep the buffers\<close>

text \<open>The handlers hold some list of notifications, posts are never withdrawn, and only certain commands are sent.\<close>

definition moving :: "'b env \<Rightarrow> SlackHandler list \<Rightarrow> (imap_cmd \<Rightarrow> bool) \<Rightarrow> cmd_state \<Rightarrow> cmd_state \<Rightarrow> bool" where
  "moving env hs P s s' \<longleftrightarrow> (fresh hs \<and> (\<exists>N. holding env hs N s) \<longrightarrow> (\<exists>N. holding env hs N s') \<and> set (posts (cs_net s)) \<subseteq> set (posts (cs_net s')))
     \<and> (\<exists>cs. trace (cs_client s') = trace (cs_client s) @ cs \<and> list_all P cs)"

interpretation moving: step_relation "moving env hs P" for env hs P
proof
  fix s t u
  show "moving env hs P s s" by (simp add: moving_def)
  assume m: "moving env hs P s t" "moving env hs P t u"
  then obtain cs ds where "trace (cs_client t) = trace (cs_client s) @ cs" "list_all P cs" "trace (cs_client u) = trace (cs_client t) @ ds" "list_all P ds"
    unfolding moving_def by blast
  then have "\<exists>es. trace (cs_client u) = trace (cs_client s) @ es \<and> list_all P es" by (intro exI [of _ "cs @ ds"]) simp
  with m show "moving env hs P s u" unfolding moving_def by blast
qed

named_theorems move \<open>steps that keep the buffers\<close>

lemmas moving_rules [move] = moving.kept_rules

lemma moving_onStore [move]: "kept (moving env hs P) (onStore m)"
  by (auto simp: kept_def moving_def onStore_def holding_def split: prod.split)

lemma moving_sends: "sends Q m \<Longrightarrow> (\<And>cmd. Q cmd \<Longrightarrow> P cmd) \<Longrightarrow> kept (moving env hs P) (onImap m)"
  unfolding kept_def moving_def onImap_def sends_def holding_def list_all_iff by (auto split: prod.split sum.split) (metis snd_conv)+

lemma moving_each: "well_keyed nt \<Longrightarrow> kept (moving env hs P) (sink_each (log_one (env_sort env) nt))"
proof -
  assume nt: "well_keyed nt"
  have "holding env hs (N @ [nt]) (snd (sink_each (log_one (env_sort env) nt) s))" if "holding env hs N s" for N s
    using that nt by (simp add: holding_def sink_each_def)
  then show ?thesis unfolding kept_def moving_def by (auto simp: sink_each_def)
qed

lemma moving_logs [move]: "kept (moving env hs P) (sink_LogWarning w)" "kept (moving env hs P) (sink_LogSystemError e)" "kept (moving env hs P) (logWarn k u v mid)"
proof -
  have "log_one (env_sort env) (Warn w) = (\<lambda>h. LogWarning h w)" "log_one (env_sort env) (Failing e) = (\<lambda>h. LogSystemError h e)" for w e
    by (simp_all add: log_one_def fun_eq_iff)
  then show w: "kept (moving env hs P) (sink_LogWarning w)" and "kept (moving env hs P) (sink_LogSystemError e)" for w e
    using moving_each [of "Warn w" env hs P] moving_each [of "Failing e" env hs P]
    by (simp_all add: sink_LogWarning_def sink_LogSystemError_def well_keyed_def)
  show "kept (moving env hs P) (logWarn k u v mid)" unfolding logWarn_def by (rule w)
qed

lemma moving_Flush [move]: "kept (moving env hs P) (sink_Flush env)"
  unfolding kept_def
proof
  fix s
  obtain r s' where run: "sink_Flush env s = (r, s')" by fastforce
  have "cs_client s' = cs_client s" using run by (auto simp: sink_Flush_def split: option.splits prod.splits)
  moreover have "holding env hs [] s' \<and> set (posts (cs_net s)) \<subseteq> set (posts (cs_net s'))" if "fresh hs" "holding env hs N s" for N
    using sink_Flush_holding [OF that run] by simp
  ultimately show "moving env hs P s (snd (sink_Flush env s))" unfolding moving_def run by auto
qed

lemma moving_notify [move]: "kept (moving env hs P) (notifyComponent env component kind mailbox)"
  unfolding notifyComponent_def by (intro move)

lemma moving_alerts [move]: "kept (moving env hs P) (logAlerts env rep)"
proof -
  have "log_one (env_sort env) (Alerting a) = (\<lambda>h. LogAlert (env_sort env) h a)" for a by (simp add: log_one_def fun_eq_iff)
  then have a: "kept (moving env hs P) (sink_LogAlert env a)" for a
    using moving_each [of "Alerting a" env hs P] by (simp add: sink_LogAlert_def well_keyed_def)
  have "kept (moving env hs P) (alert_loop env rep ps)" for ps
    by (induction ps) (simp add: move, simp only: alert_loop.simps, intro move a)
  then show ?thesis by (simp add: logAlerts_def)
qed

lemma moving_loops [move]:
  "kept (moving env hs P) (buildFetchStates env msgs uv root)" "kept (moving env hs P) (save_loop env boot dl uv mailbox ss)"
  "kept (moving env hs P) (fetchCollectReports env boot ss uv root)"
proof -
  show "kept (moving env hs P) (buildFetchStates env msgs uv root)"
    by (induction msgs) (simp add: move, simp only: buildFetchStates.simps, intro move)
  show "kept (moving env hs P) (save_loop env boot dl uv mailbox ss)"
    by (induction ss) (simp add: move, simp only: save_loop.simps notifyFetchSystemError_def, intro move)
  have atts: "kept (moving env hs P) (attachment_loop env meta uv atts)" for meta atts
    by (induction atts) (simp add: move, simp only: attachment_loop.simps, intro move)
  show "kept (moving env hs P) (fetchCollectReports env boot ss uv root)"
    by (induction ss) (simp add: move, simp only: fetchCollectReports.simps collectMessage_def processAttachments_def, intro move atts)
qed

definition unmarked :: "imap_cmd \<Rightarrow> bool" where
  "unmarked cmd \<longleftrightarrow> (\<forall>uids flag. cmd \<noteq> UidStore uids flag)"

lemma moving_client [move]:
  "kept (moving env hs unmarked) (onImap (FetchMeta S c since))" "kept (moving env hs unmarked) (onImap (Download S c uids))"
  "kept (moving env hs unmarked) (connect env' cfg)"
proof -
  show "kept (moving env hs unmarked) (onImap (FetchMeta S c since))" "kept (moving env hs unmarked) (onImap (Download S c uids))"
    by (rule moving_sends [OF reading_ops(1)] moving_sends [OF reading_ops(2)], auto simp: unmarked_def reading_def)+
  show "kept (moving env hs unmarked) (connect env' cfg)"
    unfolding kept_def
  proof
    fix s
    have "\<exists>cs. trace (cs_client (snd (connect env' cfg s))) = trace (cs_client s) @ cs \<and> list_all unmarked cs"
      using cwp_run [OF cwp_connect [where Q = "\<lambda>_ V' T'. \<exists>cs. T' = trace (cs_client s) @ cs \<and> list_all unmarked cs"
          and E = "\<lambda>_ V' T'. \<exists>cs. T' = trace (cs_client s) @ cs \<and> list_all unmarked cs" and C = "\<lambda>V' T'. False"], of s env' cfg "fst (connect env' cfg s)" "snd (connect env' cfg s)"]
      by (fastforce simp: list_all_iff unmarked_def split: outcome.splits)
    then show "moving env hs unmarked s (snd (connect env' cfg s))"
      by (auto simp: moving_def connect_def holding_def split: prod.splits sum.splits)
  qed
qed

section \<open>Alerts before the flag\<close>

text \<open>The mail of a message is stored, and a batch with every alert about its reports has been posted.\<close>

definition alerted :: "'b env \<Rightarrow> BootContext \<Rightarrow> SlackHandler list \<Rightarrow> u32 \<Rightarrow> cmd_state \<Rightarrow> u32 \<Rightarrow> bool" where
  "alerted env boot hs uv s uid \<longleftrightarrow> (\<exists>date m c N. view (cs_world s) (buildEmailPath (rootDir (boot_Store boot)) uid uv date) = Some (Reg m c)
     \<and> alerts_in env boot (content_bytes env c) \<subseteq> set N \<and> posted env hs N (cs_net s))"

definition warned :: "'b env \<Rightarrow> BootContext \<Rightarrow> SlackHandler list \<Rightarrow> cmd_state \<Rightarrow> cmd_state \<Rightarrow> bool" where
  "warned env boot hs s s' \<longleftrightarrow> (\<exists>uv cs. trace (cs_client s') = trace (cs_client s) @ cs
     \<and> (\<forall>uids flag. UidStore uids flag \<in> set cs \<longrightarrow> (\<forall>uid \<in> set uids. alerted env boot hs uv s' uid)))"

definition warns :: "'b env \<Rightarrow> BootContext \<Rightarrow> SlackHandler list \<Rightarrow> 'a cmd \<Rightarrow> cmd_state \<Rightarrow> bool" where
  "warns env boot hs m s \<longleftrightarrow> (fresh hs \<and> (\<exists>N. holding env hs N s) \<longrightarrow> warned env boot hs s (snd (m s)))"

lemma unmarked_iff: "list_all unmarked cs \<longleftrightarrow> (\<forall>uids flag. UidStore uids flag \<notin> set cs)"
  by (auto simp: list_all_iff unmarked_def)

lemma warned_prefix:
  assumes "trace (cs_client s1) = trace (cs_client s) @ cs" "list_all unmarked cs" "warned env boot hs s1 s'"
  shows "warned env boot hs s s'"
proof -
  from assms(3) obtain uv ds where "trace (cs_client s') = trace (cs_client s1) @ ds"
      "\<forall>uids flag. UidStore uids flag \<in> set ds \<longrightarrow> (\<forall>uid \<in> set uids. alerted env boot hs uv s' uid)" unfolding warned_def by blast
  with assms(1,2) show ?thesis unfolding warned_def by (intro exI [of _ uv] exI [of _ "cs @ ds"]) (auto simp: unmarked_iff)
qed

lemma warned_unmarked: "trace (cs_client s') = trace (cs_client s) @ cs \<Longrightarrow> list_all unmarked cs \<Longrightarrow> warned env boot hs s s'"
  unfolding warned_def by (intro exI [of _ 0] exI [of _ cs]) (auto simp: unmarked_iff)

lemma warns_kept: "kept (moving env hs unmarked) m \<Longrightarrow> warns env boot hs m s"
  unfolding kept_def moving_def warns_def by (blast intro: warned_unmarked)

lemma warns_bind:
  assumes "kept (moving env hs unmarked) m" "\<And>a s1. m s = (Ok a, s1) \<Longrightarrow> warns env boot hs (f a) s1"
  shows "warns env boot hs (bindIO m f) s"
  unfolding warns_def
proof
  assume ready: "fresh hs \<and> (\<exists>N. holding env hs N s)"
  obtain r s1 where run: "m s = (r, s1)" by fastforce
  with assms(1) have mv: "moving env hs unmarked s s1" unfolding kept_def by (metis snd_conv)
  then obtain cs where cs: "trace (cs_client s1) = trace (cs_client s) @ cs" "list_all unmarked cs" unfolding moving_def by blast
  show "warned env boot hs s (snd (bindIO m f s))"
  proof (cases r)
    case (Ok a)
    then have "warned env boot hs s1 (snd (f a s1))" using assms(2) run mv ready unfolding warns_def moving_def by blast
    with Ok run show ?thesis by (simp add: bindIO_def warned_prefix [OF cs])
  qed (use run in \<open>simp_all add: bindIO_def warned_unmarked [OF cs]\<close>)
qed

lemma warns_if: "(b \<Longrightarrow> warns env boot hs m s) \<Longrightarrow> (\<not> b \<Longrightarrow> warns env boot hs n s) \<Longrightarrow> warns env boot hs (if b then m else n) s"
  by simp

lemma warns_cases:
  "(o' = None \<Longrightarrow> warns env boot hs m s) \<Longrightarrow> (\<And>y. o' = Some y \<Longrightarrow> warns env boot hs (f y) s) \<Longrightarrow> warns env boot hs (case o' of None \<Rightarrow> m | Some y \<Rightarrow> f y) s"
  "(\<And>e. r = Inl e \<Longrightarrow> warns env boot hs (g e) s) \<Longrightarrow> (\<And>y. r = Inr y \<Longrightarrow> warns env boot hs (f' y) s) \<Longrightarrow> warns env boot hs (case r of Inl e \<Rightarrow> g e | Inr y \<Rightarrow> f' y) s"
  by (simp_all split: option.split sum.split)

lemma mapErr_Ok: "mapErr g m s = (Ok a, s') \<longleftrightarrow> m s = (Ok a, s')"
  by (auto simp: mapErr_def split: prod.splits outcome.splits)

lemma attempt_Inr: "attempt m s = (Ok (Inr a), s') \<longleftrightarrow> m s = (Ok a, s')"
  by (auto simp: attempt_def split: prod.splits outcome.splits)

text \<open>Only the paths of mails matter.\<close>

definition same_mails :: "BootContext \<Rightarrow> store_view \<Rightarrow> store_view \<Rightarrow> bool" where
  "same_mails boot V V' \<longleftrightarrow> (\<forall>uid uv date. V' (buildEmailPath (rootDir (boot_Store boot)) uid uv date) = V (buildEmailPath (rootDir (boot_Store boot)) uid uv date))"

lemma same_mails_simps [simp]: "same_mails boot V V" "same_mails boot V (V(sentinelPath (rootDir (boot_Store boot)) \<mapsto> n))"
  by (simp_all add: same_mails_def buildEmailPath_neq)

lemma same_mails_put: "standard_store (boot_Store boot) \<Longrightarrow> same_mails boot V (put_data (boot_Store boot) df V)"
  by (simp add: same_mails_def mail_put_data)

lemma alerts_due_same: "same_mails boot V V' \<Longrightarrow> alerts_due env boot uv N V x \<Longrightarrow> alerts_due env boot uv N V' x"
  by (simp add: alerts_due_def same_mails_def)

lemma warns_flag:
  assumes "clean (rootDir (boot_Store boot))" "posted env hs N (cs_net s)"
    "\<forall>x \<in> set states. \<not> mm_Seen (st_meta x) \<longrightarrow> alerts_due env boot uv N (view (cs_world s)) x"
  shows "warns env boot hs (bindIO (fetchMarkSeen env states) (\<lambda>_.
    bindIO (wrapErr ''fetch: save uidvalidity'' (onStore (SaveUIDValidity (boot_Store boot) uv))) (\<lambda>_. ret exitOK))) s"
  (is "warns _ _ _ ?m _")
  unfolding warns_def
proof
  assume ready: "fresh hs \<and> (\<exists>N. holding env hs N s)"
  obtain r s' where run: "?m s = (r, s')" by fastforce
  have "kept (moving env hs (\<lambda>_. True)) ?m"
    unfolding fetchMarkSeen_def Let_def by (intro move moving_sends [OF MarkSeen_sends]) simp
  with run ready have posts: "set (posts (cs_net s)) \<subseteq> set (posts (cs_net s'))" unfolding kept_def moving_def by (metis snd_conv)
  let ?P = "\<lambda>V' T'. same_mails boot (view (cs_world s)) V' \<and>
    (\<exists>cs. T' = trace (cs_client s) @ cs \<and> list_all (\<lambda>cmd. (\<exists>m. cmd = Select m False) \<or> cmd = UidStore (collectUnseenUIDs states) SeenFlag) cs)"
  have "cwp ?m (\<lambda>_. ?P) (\<lambda>_. ?P) ?P (view (cs_world s)) (trace (cs_client s))"
    apply (rule cwp_bind, rule cwp_conseq [OF cwp_fetchMarkSeen [where P = "\<lambda>V' T'. V' = view (cs_world s) \<and> ?P V' T'"]])
    subgoal by simp
    subgoal by (elim conjE, hypsubst, rule cwp_bind, rule cwp_mapErr, rule cwp_onStore [OF vwp_SaveUIDValidity_frame [OF assms(1)]])
        (auto intro!: cvc)
    by blast+
  from cwp_run [OF this run] obtain cs where s': "same_mails boot (view (cs_world s)) (view (cs_world s'))" "trace (cs_client s') = trace (cs_client s) @ cs"
      "list_all (\<lambda>cmd. (\<exists>m. cmd = Select m False) \<or> cmd = UidStore (collectUnseenUIDs states) SeenFlag) cs"
    by (auto split: outcome.splits)
  have "alerted env boot hs uv s' uid" if uid: "uid \<in> set (collectUnseenUIDs states)" for uid
  proof -
    obtain x where x: "x \<in> set states" "\<not> mm_Seen (st_meta x)" "uid = mm_UID (st_meta x)" using uid by (auto simp: collectUnseenUIDs_def)
    with assms(3) s'(1) have "alerts_due env boot uv N (view (cs_world s')) x" by (blast intro: alerts_due_same)
    moreover have "posted env hs N (cs_net s')" using assms(2) posts by (rule posted_mono)
    ultimately show ?thesis unfolding x(3) alerts_due_def alerted_def by blast
  qed
  with s'(2,3) show "warned env boot hs s (snd (?m s))" unfolding warned_def run by (force simp: list_all_iff)
qed

lemma warns_flush:
  assumes "clean (rootDir (boot_Store boot))" "fresh hs" "holding env hs N s"
    "\<forall>x \<in> set states. \<not> mm_Seen (st_meta x) \<longrightarrow> alerts_due env boot uv N (view (cs_world s)) x"
  shows "warns env boot hs (bindIO (wrapErr ''fetch: flush'' (sink_Flush env)) (\<lambda>_. bindIO (fetchMarkSeen env states) (\<lambda>_.
    bindIO (wrapErr ''fetch: save uidvalidity'' (onStore (SaveUIDValidity (boot_Store boot) uv))) (\<lambda>_. ret exitOK)))) s"
proof (rule warns_bind)
  show "kept (moving env hs unmarked) (wrapErr ''fetch: flush'' (sink_Flush env))" by (intro move)
next
  fix a s1 assume "wrapErr ''fetch: flush'' (sink_Flush env) s = (Ok a, s1)"
  then have "sink_Flush env s = (Ok (), s1)" by (simp add: mapErr_Ok)
  from sink_Flush_holding [OF assms(2,3) this] have "posted env hs N (cs_net s1)" "cs_world s1 = cs_world s" by simp_all
  with assms(4) show "warns env boot hs (bindIO (fetchMarkSeen env states) (\<lambda>_.
    bindIO (wrapErr ''fetch: save uidvalidity'' (onStore (SaveUIDValidity (boot_Store boot) uv))) (\<lambda>_. ret exitOK))) s1"
    by (intro warns_flag [OF assms(1)]) simp_all
qed

lemma onStore_Ok:
  assumes "wrapErr msg (onStore m) s = (Ok a, s')" "vwp False m Q E C (view (cs_world s))"
  shows "Q a (view (cs_world s')) \<and> cs_sink s' = cs_sink s \<and> cs_client s' = cs_client s"
proof -
  from onStore_run [of m s "Ok a" s'] assms(1) have "m (cs_world s) = (Ok a, cs_world s')" "cs_sink s' = cs_sink s \<and> cs_client s' = cs_client s"
    by (simp_all add: mapErr_Ok)
  with vwp_cases [OF assms(2) _ this(1)] show ?thesis by (simp add: quiet_def)
qed

lemma warns_commit:
  assumes st: "standard_store (boot_Store boot)" and data: "data_of (boot_Store boot) (view (cs_world s)) = Some df" "reports_ok df"
    and stored: "stored env (boot_Store boot) uv states (view (cs_world s))"
  shows "warns env boot hs (fetchCommit env boot states uv) s"
proof (cases "fresh hs \<and> (\<exists>N. holding env hs N s)")
  case False
  then show ?thesis unfolding warns_def by blast
next
  case True
  then obtain N where N: "fresh hs" "holding env hs N s" by blast
  let ?st = "boot_Store boot" let ?df1 = "save_metas df (buildEmailMetas states uv)"
  note c = standard_paths(4,5) [OF st]
  show ?thesis
    unfolding fetchCommit_def
  proof (rule warns_bind, intro move)
    fix u s1 assume "wrapErr ''fetch: save email metas'' (onStore (SaveEmailMetas ?st (buildEmailMetas states uv))) s = (Ok u, s1)"
    from onStore_Ok [OF this vwp_SaveEmailMetas [OF c(2) data(1)]]
    have s1: "view (cs_world s1) = put_data ?st ?df1 (view (cs_world s))" "cs_sink s1 = cs_sink s" "\<not> readOnly ?st" by auto
    have d1: "data_of ?st (view (cs_world s1)) = Some ?df1" "reports_ok ?df1"
      using data_of_version [OF data(1)] data(2) by (simp_all add: s1 data_of_put save_metas_def reports_ok_def)
    have h1: "holding env hs N s1" using N(2) s1(2) by (simp add: holding_def)
    have m1: "stored env ?st uv states (view (cs_world s1))" using stored by (simp add: s1 stored_def holds_mail_def mail_put_data [OF st])
    show "warns env boot hs (bindIO (fetchCollectReports env boot states uv (rootDir ?st)) (\<lambda>reports.
        bindIO (wrapErr ''fetch: save reports'' (onStore (SaveReports ?st reports))) (\<lambda>_.
        bindIO (wrapErr ''fetch: flush'' (sink_Flush env)) (\<lambda>_. bindIO (fetchMarkSeen env states) (\<lambda>_.
        bindIO (wrapErr ''fetch: save uidvalidity'' (onStore (SaveUIDValidity ?st uv))) (\<lambda>_. ret exitOK)))))) s1"
    proof (rule warns_bind, intro move)
      fix reports s2 assume run: "fetchCollectReports env boot states uv (rootDir ?st) s1 = (Ok reports, s2)"
      from collect_alerts [OF c(1) run h1 m1] obtain M where M: "holding env hs (N @ M) s2"
        "\<forall>x \<in> set states. \<not> mm_Seen (st_meta x) \<longrightarrow> alerts_due env boot uv (N @ M) (view (cs_world s1)) x" by blast
      have v2: "view (cs_world s2) = view (cs_world s1)" using cwp_run [OF cwp_fetchCollectReports [OF c(1) m1] run] by simp
      show "warns env boot hs (bindIO (wrapErr ''fetch: save reports'' (onStore (SaveReports ?st reports))) (\<lambda>_.
        bindIO (wrapErr ''fetch: flush'' (sink_Flush env)) (\<lambda>_. bindIO (fetchMarkSeen env states) (\<lambda>_.
        bindIO (wrapErr ''fetch: save uidvalidity'' (onStore (SaveUIDValidity ?st uv))) (\<lambda>_. ret exitOK))))) s2"
      proof (rule warns_bind, intro move)
        fix v s3 assume "wrapErr ''fetch: save reports'' (onStore (SaveReports ?st reports)) s2 = (Ok v, s3)"
        from onStore_Ok [OF this vwp_SaveReports [OF c(2) s1(3)]] d1 v2
        have s3: "same_mails boot (view (cs_world s1)) (view (cs_world s3))" "cs_sink s3 = cs_sink s2" using same_mails_put [OF st] by auto
        then have "holding env hs (N @ M) s3" using M(1) by (simp add: holding_def)
        from warns_flush [OF c(1) N(1) this] M(2) alerts_due_same [OF s3(1)]
        show "warns env boot hs (bindIO (wrapErr ''fetch: flush'' (sink_Flush env)) (\<lambda>_. bindIO (fetchMarkSeen env states) (\<lambda>_.
            bindIO (wrapErr ''fetch: save uidvalidity'' (onStore (SaveUIDValidity ?st uv))) (\<lambda>_. ret exitOK)))) s3" by blast
      qed
    qed
  qed
qed

section \<open>The run\<close>

lemma warns_messages:
  assumes st: "standard_store (boot_Store boot)" and data: "data_of (boot_Store boot) (view (cs_world s)) = Some df" "reports_ok df"
  shows "warns env boot hs (bindIO (buildFetchStates env msgs uv (rootDir (boot_Store boot))) (\<lambda>states.
    if DryRun (boot_Options boot) then fetchDryRunExit env
    else bindIO (fetchDownloadAndSave env boot states uv mailbox) (\<lambda>states'. fetchCommit env boot states' uv))) s"
proof (rule warns_bind, intro move)
  fix states s1 assume "buildFetchStates env msgs uv (rootDir (boot_Store boot)) s = (Ok states, s1)"
  from cwp_run [OF cwp_buildFetchStates [OF standard_paths(4) [OF st]] this]
  have s1: "view (cs_world s1) = view (cs_world s)" and states: "\<forall>x \<in> set states. rawEML x = None \<and>
      (emlExistedBefore x \<longleftrightarrow> (\<exists>m c. view (cs_world s1) (mail_path (boot_Store boot) uv x) = Some (Reg m c)))" by auto
  show "warns env boot hs (if DryRun (boot_Options boot) then fetchDryRunExit env
    else bindIO (fetchDownloadAndSave env boot states uv mailbox) (\<lambda>states'. fetchCommit env boot states' uv)) s1"
  proof (rule warns_if)
    show "warns env boot hs (fetchDryRunExit env) s1" unfolding fetchDryRunExit_def by (intro warns_kept move)
    show "warns env boot hs (bindIO (fetchDownloadAndSave env boot states uv mailbox) (\<lambda>states'. fetchCommit env boot states' uv)) s1"
    proof (rule warns_bind)
      show "kept (moving env hs unmarked) (fetchDownloadAndSave env boot states uv mailbox)"
        unfolding fetchDownloadAndSave_def notifyFetchSystemError_def Let_def by (intro move)
      fix states' s2 assume "fetchDownloadAndSave env boot states uv mailbox s1 = (Ok states', s2)"
      from cwp_run [OF cwp_fetchDownloadAndSave [OF st refl states] this] data(1) s1
      have "data_of (boot_Store boot) (view (cs_world s2)) = Some df" "stored env (boot_Store boot) uv states' (view (cs_world s2))" by auto
      with warns_commit [OF st _ data(2)] show "warns env boot hs (fetchCommit env boot states' uv) s2" by blast
    qed
  qed
qed

lemma warns_session:
  assumes st: "standard_store (boot_Store boot)" and data: "data_of (boot_Store boot) (view (cs_world s)) = Some df" "reports_ok df"
  shows "warns env boot hs (fetchSession env boot now mailbox) s"
proof -
  have meta: "cs_world s1 = cs_world s" if "attempt (onImap m) s = (Ok r, s1)" for m :: "'d imap_op" and r s1
    using that by (auto simp: attempt_def onImap_def split: prod.splits sum.splits)
  have "data_of (boot_Store boot) (view (cs_world s2)) = Some df"
    if "cs_world s1 = cs_world s" "fetchValidateUID env boot now uv mailbox s1 = (Ok code, s2)" for uv code s1 s2
  proof -
    have "sentinel_only (boot_Store boot) (view (cs_world s)) (view (cs_world s2))"
      using cwp_run [OF cwp_fetchValidateUID [OF standard_paths(4) [OF st]] that(2)] by (simp add: that(1))
    from data_of_sentinel_only [OF st this] data(1) show ?thesis by simp
  qed
  note msgs = warns_messages [OF st this data(2)]
  show ?thesis
    unfolding fetchSession_def Let_def notifyFetchSystemError_def
    apply (rule warns_bind, intro move, rule warns_cases)
    subgoal by (intro warns_kept move)
    subgoal
      apply (rule warns_bind)
      subgoal unfolding fetchValidateUID_def notifyFetchSystemError_def by (intro move)
      apply (rule warns_cases)
      subgoal by (rule msgs, erule meta, assumption)
      by (intro warns_kept move)
    done
qed

lemma warns_defer:
  assumes "warns env boot hs m s"
  shows "warns env boot hs (deferIO (onImap (Close S)) m) s"
  unfolding warns_def
proof
  assume "fresh hs \<and> (\<exists>N. holding env hs N s)"
  with assms have w: "warned env boot hs s (snd (m s))" unfolding warns_def by blast
  have closed: "warned env boot hs s (snd (onImap (Close S) s1))" if "warned env boot hs s s1" for s1
  proof -
    obtain r s2 where run: "onImap (Close S) s1 = (r, s2)" by fastforce
    then have same: "cs_world s2 = cs_world s1" "cs_net s2 = cs_net s1" by (auto simp: onImap_def split: prod.splits)
    have "\<exists>ds. trace (cs_client s2) = trace (cs_client s1) @ ds \<and> set ds \<subseteq> {CloseMailbox, Logout}"
      using cwp_run [OF cwp_Close [where Q = "\<lambda>_ _ T'. \<exists>ds. T' = trace (cs_client s1) @ ds \<and> set ds \<subseteq> {CloseMailbox, Logout}"
        and E = "\<lambda>_ _ T'. \<exists>ds. T' = trace (cs_client s1) @ ds \<and> set ds \<subseteq> {CloseMailbox, Logout}" and C = "\<lambda>_ _. False"] run]
      by (auto split: outcome.splits)
    then obtain ds where ds: "trace (cs_client s2) = trace (cs_client s1) @ ds" "set ds \<subseteq> {CloseMailbox, Logout}" by blast
    from that obtain uv cs where "trace (cs_client s1) = trace (cs_client s) @ cs"
        "\<forall>uids flag. UidStore uids flag \<in> set cs \<longrightarrow> (\<forall>uid \<in> set uids. alerted env boot hs uv s1 uid)" unfolding warned_def by blast
    with ds same run show ?thesis
      unfolding warned_def by (intro exI [of _ uv] exI [of _ "cs @ ds"]) (auto simp: alerted_def)
  qed
  obtain r s1 where run: "m s = (r, s1)" by fastforce
  obtain r2 s2 where close: "onImap (Close S) s1 = (r2, s2)" by fastforce
  have "warned env boot hs s s2" using closed [of s1] w by (simp add: run close)
  with w show "warned env boot hs s (snd (deferIO (onImap (Close S)) m s))"
    by (cases r; cases r2) (simp_all add: deferIO_def run close)
qed

lemma warns_fetchRun:
  assumes st: "standard_store (boot_Store boot)" and data: "data_of (boot_Store boot) (view (cs_world s)) = Some df" "reports_ok df"
  shows "warns env boot hs (fetchRun env boot) s"
proof -
  have "view (cs_world s3) = view (cs_world s)"
    if "onStore getNow s = (Ok now, s1)" "attempt (onStore (LoadRecoveryRequired (boot_Store boot))) s1 = (Ok r, s2)" "attempt (connect env cfg) s2 = (Ok c, s3)"
    for now s1 r s2 cfg c s3
  proof -
    have "cwp (attempt (onStore (LoadRecoveryRequired (boot_Store boot)))) (\<lambda>_ V' _. V' = view (cs_world s1)) (\<lambda>_ _ _. True) (\<lambda>_ _. True)
        (view (cs_world s1)) (trace (cs_client s1))"
      by (rule cwp_attempt, rule cwp_onStore [OF vwp_LoadRecoveryRequired_pure [OF standard_paths(4) [OF st]]]) auto
    from cwp_run [OF this that(2)] have "view (cs_world s2) = view (cs_world s1)" by simp
    moreover have "cs_world s1 = cs_world s" using that(1) by (auto simp: onStore_def getNow_def)
    moreover have "cs_world s3 = cs_world s2" using that(3) by (auto simp: attempt_def connect_def split: prod.splits sum.splits)
    ultimately show ?thesis by simp
  qed
  then have session: "warns env boot hs (deferIO (onImap (Close (env_server env))) (fetchSession env boot now mailbox)) s3"
    if "onStore getNow s = (Ok now', s1)" "attempt (onStore (LoadRecoveryRequired (boot_Store boot))) s1 = (Ok r, s2)" "attempt (connect env cfg) s2 = (Ok c, s3)"
    for now now' mailbox s1 r s2 cfg c s3
    using that data by (intro warns_defer warns_session [OF st]) auto
  show ?thesis
    unfolding fetchRun_def Let_def notifyFetchSystemError_def
    apply (rule warns_bind, intro move, rule warns_bind, intro move, rule warns_cases)
    subgoal by (intro warns_kept move)
    apply (rule warns_cases, rule warns_if)
    subgoal by (intro warns_kept move)
    subgoal
      apply (rule warns_bind, intro move, rule warns_cases)
      subgoal by (intro warns_kept move)
      by (rule session)
    by (intro warns_kept move)
qed

section \<open>From the command line\<close>

text \<open>A run that may send has a handler for warnings and errors, with empty buffers and the default schedule of retries.\<close>

lemma buildNotifier_handlers:
  assumes "buildNotifier host cfg False = Inr sink"
  shows "fresh (handlers sink) \<and> (\<exists>h \<in> set (handlers sink). WebhookURL (opts h) = host_errorURL host \<and> RunID (opts h) = host_runID host
    \<and> \<not> opt_IsDryRun (opts h) \<and> (\<forall>nt. Enabled h (level_of nt) \<longleftrightarrow> level_of nt \<noteq> LevelInfo))"
proof -
  let ?ops = "\<lparr>WebhookURL = [], AllowedHost = slack_AllowedHost (notify_Slack (cfg_Notify cfg)), RunID = host_runID host,
    opt_LevelMode = LevelModeOther [], opt_IsDryRun = False, opt_BackoffConfig = DefaultBackoffConfig\<rparr>"
  obtain hs where sink: "sink = \<lparr>handlers = hs, sink_dryRun = False\<rparr>" "host_successURL host \<noteq> [] \<or> host_errorURL host \<noteq> []"
    and hs: "BuildHandlers (host_urlParse host) (host_successURL host) (host_errorURL host) (slack_AllowedHost (notify_Slack (cfg_Notify cfg))) ?ops = Inr hs"
    using assms by (auto simp: buildNotifier_def setupNotifyHandlers_def split: sum.splits if_splits)
  have "level_of nt \<ge> LevelWarn \<longleftrightarrow> level_of nt \<noteq> LevelInfo" for nt by (simp add: level_of_def level_defs split: notification.split)
  then have "WebhookURL (opts h) = u \<and> RunID (opts h) = host_runID host \<and> \<not> opt_IsDryRun (opts h) \<and> buf h = [] \<and> safe_backoff (opt_BackoffConfig (opts h))
      \<and> (lm = LevelModeWarnAndAbove \<longrightarrow> (\<forall>nt. Enabled h (level_of nt) \<longleftrightarrow> level_of nt \<noteq> LevelInfo))"
    if "NewSlackHandler (host_urlParse host) (?ops\<lparr>WebhookURL := u, opt_LevelMode := lm\<rparr>) = Inr h" for u lm h
    using NewSlackHandler_Inr [OF that] by (simp add: Enabled_modes safe_backoff_def DefaultBackoffConfig_def nanos_per_second_def)
  note shape = this
  from BuildHandlers_shape [OF hs] show ?thesis
  proof (elim disjE exE conjE, goal_cases)
    case 1
    with sink(2) show ?case by simp
  next
    case (2 he)
    from 2(2,3) sink(2) shape [OF 2(1)] show ?case by (simp add: fresh_def sink(1))
  next
    case (3 he hi)
    from 3(2,3) sink(2) shape [OF 3(1)] shape [OF 3(4)] show ?case by (simp add: fresh_def sink(1))
  qed
qed

lemma start_holding:
  assumes "loadConfig host (ConfigPath opt) = Inr cfg" "\<not> DryRun opt" "startUp host subcommandFetch opt s = (Ok x, s1)"
  obtains sink N where "buildNotifier host cfg False = Inr sink" "holding (host_env host) (handlers sink) N s1"
proof -
  let ?rest = "bindIO (acquireWriterLock host cfg) (\<lambda>_. bindIO (openStore host cfg (openMode subcommandFetch opt)) (\<lambda>st.
    ret (\<lparr>boot_Config = cfg, boot_Options = opt, boot_Store = st\<rparr>, None)))"
  from assms obtain sink s2 where sink: "buildNotifier host cfg False = Inr sink" "?rest (s2\<lparr>cs_sink := sink\<rparr>) = (Ok x, s1)"
    by (auto simp: startUp_def bindIO_Ok bootNotifier_def useSink_def fail_def split: sum.splits) blast
  have "holding (host_env host) (handlers sink) [] (s2\<lparr>cs_sink := sink\<rparr>)" by (simp add: holding_def)
  moreover have "kept (moving (host_env host) (handlers sink) (\<lambda>_. True)) ?rest"
    unfolding acquireWriterLock_def openStore_def notifySystemError_def by (intro move)
  ultimately have "\<exists>N. holding (host_env host) (handlers sink) N s1"
    using sink(2) buildNotifier_handlers [OF sink(1)] unfolding kept_def moving_def by (metis snd_conv)
  with sink(1) that show thesis by blast
qed

definition alert_sent :: "'b host \<Rightarrow> BootContext \<Rightarrow> u32 \<Rightarrow> cmd_state \<Rightarrow> u32 \<Rightarrow> bool" where
  "alert_sent host boot uv s uid \<longleftrightarrow> (\<exists>date m c N. view (cs_world s) (buildEmailPath (rootDir (boot_Store boot)) uid uv date) = Some (Reg m c)
     \<and> alerts_in (host_env host) boot (content_bytes (host_env host) c) \<subseteq> set N
     \<and> (\<forall>msg \<in> set (notified (env_sort (host_env host)) (filter (\<lambda>nt. level_of nt \<noteq> LevelInfo) N) (host_runID host)).
          (host_errorURL host, truncateMessage msg) \<in> set (posts (cs_net s))))"

lemma alerted_sent:
  assumes "buildNotifier host cfg False = Inr sink" "alerted (host_env host) boot (handlers sink) uv s uid"
  shows "alert_sent host boot uv s uid"
proof -
  obtain h where h: "h \<in> set (handlers sink)" "WebhookURL (opts h) = host_errorURL host" "RunID (opts h) = host_runID host"
      "\<not> opt_IsDryRun (opts h)" "\<forall>nt. Enabled h (level_of nt) \<longleftrightarrow> level_of nt \<noteq> LevelInfo"
    using buildNotifier_handlers [OF assms(1)] by blast
  have due: "due (env_sort (host_env host)) h N = notified (env_sort (host_env host)) (filter (\<lambda>nt. level_of nt \<noteq> LevelInfo) N) (host_runID host)" for N
    using h(3,5) by (simp add: due_def)
  obtain date m c N where N: "view (cs_world s) (buildEmailPath (rootDir (boot_Store boot)) uid uv date) = Some (Reg m c)"
      "alerts_in (host_env host) boot (content_bytes (host_env host) c) \<subseteq> set N" "posted (host_env host) (handlers sink) N (cs_net s)"
    using assms(2) unfolding alerted_def by blast
  from N(3) h(1,4) have "(\<lambda>m. (WebhookURL (opts h), truncateMessage m)) ` set (due (env_sort (host_env host)) h N) \<subseteq> set (posts (cs_net s))"
    unfolding posted_def by blast
  with N(1,2) show ?thesis
    unfolding alert_sent_def due h(2) by blast
qed

text \<open>A run of \<^verbatim>\<open>fetch\<close> on a store whose documents are valid, seen from the command line.\<close>

lemma fetch_invocation_warns:
  assumes "clean root" "store_ok root (view (cs_world s))"
    and "parseCLI args = Inr \<lparr>inv_Subcommand = subcommandFetch, inv_Options = opt\<rparr>" "\<not> DryRun opt"
    and "loadConfig host (ConfigPath opt) = Inr cfg" "storeRoot cfg = root"
    and "runCLI host args s = (r, s')" and "booted subcommandFetch opt cfg boot"
  obtains cs where "trace (cs_client s') = trace (cs_client s) @ cs" "list_all unmarked cs"
  | sink s1 where "buildNotifier host cfg False = Inr sink" "trace (cs_client s1) = trace (cs_client s)" "warned (host_env host) boot (handlers sink) s1 s'"
proof -
  let ?iv = "\<lparr>inv_Subcommand = subcommandFetch, inv_Options = opt\<rparr>" and ?start = "startUp host subcommandFetch opt"
  have config: "loadConfig host (ConfigPath (inv_Options ?iv)) = Inr cfg" using assms(5) by simp
  have kept: "kept (cmd_ok root) ?start" using assms(1,5,6) by (intro cmd_ok_startUp) auto
  have trace: "trace (cs_client s1) = trace (cs_client s)" if "?start (s\<lparr>cs_sink := nopSink\<rparr>) = (x, s1)" for x s1
    using unsent_startUp [of host subcommandFetch opt] that unfolding kept_def unsent_def
    by (metis cmd_state.select_convs(4) cmd_state.surjective cmd_state.update_convs(3) snd_conv)
  from assms(3) config assms(7) show thesis
  proof (cases rule: runCLI_cases)
    case (stopped e)
    then show thesis using that(1) [of "[]"] trace by simp
  next
    case (ran boot' guard s1 r')
    have "boot' = boot" using ran(2) assms(8) by (simp add: booted_def)
    have st: "standard_store (boot_Store boot)" "rootDir (boot_Store boot) = root" using booted_standard [OF assms(8)] assms(1,6) by auto
    have "cmd_ok root (s\<lparr>cs_sink := nopSink\<rparr>) s1" using kept [unfolded kept_def, rule_format, of "s\<lparr>cs_sink := nopSink\<rparr>"] ran(1) by simp
    with assms(2) have "store_ok root (view (cs_world s1))" by (simp add: cmd_ok_def ok_step_def)
    with st obtain df where df: "data_of (boot_Store boot) (view (cs_world s1)) = Some df" "reports_ok df"
      using store_ok_data unfolding data_ok_def by metis
    from assms(5,4) ran(1) obtain sink N where sink: "buildNotifier host cfg False = Inr sink" "holding (host_env host) (handlers sink) N s1"
      by (auto elim: start_holding)
    have "warned (host_env host) boot (handlers sink) s1 (snd (fetchRun (host_env host) boot s1))"
      using warns_fetchRun [OF st(1) df] sink buildNotifier_handlers [OF sink(1)] unfolding warns_def by blast
    with that(2) [OF sink(1) trace] ran(1,3) \<open>boot' = boot\<close> show thesis by simp
  qed
qed

text \<open>
  C4. Alerts go out before a message is marked. In every history of the program, whatever the server and the network answer and under
  every schedule of faults and crashes, when an invocation of \<^verbatim>\<open>fetch\<close> has marked a message as seen, its mail is stored, and one batch of notifications
  with an alert for each failing policy of each report in that mail has been sent completely, one Slack message for the alerts of the batch
  among them, to the webhook for errors. A post is recorded when the request is made, and a run goes on to mark messages only if the flush reported no error; so a failed
  post stops it before the flag is set.
\<close>

theorem alerts_before_seen:
  assumes "cli_history hosts root s0 s" "clean root" "store_ok root (view (cs_world s0))"
    and "parseCLI args = Inr \<lparr>inv_Subcommand = subcommandFetch, inv_Options = opt\<rparr>" "\<not> DryRun opt"
    and "loadConfig host (ConfigPath opt) = Inr cfg" "storeRoot cfg = root"
    and "runCLI host args s = (r, s')" and "booted subcommandFetch opt cfg boot"
  shows "\<exists>uv cs. trace (cs_client s') = trace (cs_client s) @ cs \<and>
    (\<forall>uids flag. UidStore uids flag \<in> set cs \<longrightarrow> (\<forall>uid \<in> set uids. alert_sent host boot uv s' uid))"
proof (rule fetch_invocation_warns [OF assms(2) history_ok [OF assms(1-3)] assms(4-)])
  fix cs assume "trace (cs_client s') = trace (cs_client s) @ cs" "list_all unmarked cs"
  then show ?thesis by (auto simp: unmarked_iff)
next
  fix sink s1 assume sink: "buildNotifier host cfg False = Inr sink" and "trace (cs_client s1) = trace (cs_client s)" "warned (host_env host) boot (handlers sink) s1 s'"
  then show ?thesis unfolding warned_def by (metis alerted_sent [OF sink])
qed

text \<open>A machine whose mails carry a report with a failing policy, and a network that accepts every message.\<close>

definition failing_policy :: PolicyRecord where
  "failing_policy = \<lparr>policy = \<lparr>PolicyType = runes ''sts'', PolicyString = [], PolicyDomain = [], MXHost = []\<rparr>,
     policy_summary = \<lparr>TotalSuccessfulSessionCount = 1, TotalFailureSessionCount = 2\<rparr>, FailureDetails = []\<rparr>"

definition failing_report :: Report where
  "failing_report = (sample_report 7 60)\<lparr>Policies := Some [failing_policy]\<rparr>"

definition failing_host :: "string host" where
  "failing_host = sample_host\<lparr>host_env := (host_env sample_host)\<lparr>env_unmarshal := \<lambda>_. Some failing_report\<rparr>\<rparr>"

definition online_state :: cmd_state where
  "online_state = (sample_state sample_world)\<lparr>cs_net := \<lparr>script = replicate 5 (Reply 200 []), posts = [], sleeps = []\<rparr>\<rparr>"

lemma failing_alerts:
  assumes "3 \<le> imap_MaxMessageBytes (cfg_IMAP (boot_Config boot))"
  shows "Alerting (policy_alert failing_report failing_policy) \<in> alerts_in (host_env failing_host) boot ''abc''"
proof -
  have "to_lower ''application/tlsrpt+json'' = ''application/tlsrpt+json''" by code_simp
  moreover have "trim [] = []" by (simp add: trim_def skip_space.simps)
  moreover have "has_prefix ''application/tlsrpt+json'' ''multipart/'' = False" by code_simp
  ultimately have "reports_in (host_env failing_host) (imap_MaxMessageBytes (cfg_IMAP (boot_Config boot))) ''abc'' = [failing_report]"
    using assms
    by (simp add: reports_in_def failing_host_def failing_report_def sample_host_def sample_env_def sample_lib_def ExtractAttachments_def leafAttachment_def decodeContent_def isAttachment_def
      parseTLSRPTAttachment_def ParseJSON_def parseJSON_def maxDecompressedSize_def sample_report_def wrap64_def map_filter_simps to_lower_def IsZero_def)
  then show ?thesis
    by (simp add: alerts_in_def alerts_for_def failing_report_def policy_records_def failing_policy_def)
qed

lemma failing_config: "\<exists>cfg. loadConfig failing_host ''c'' = Inr cfg \<and> storeRoot cfg = [''s''] \<and> 3 \<le> imap_MaxMessageBytes (cfg_IMAP cfg)"
proof -
  have "Load (host_decode sample_host) (\<lambda>_. Some []) (\<lambda>_. False) [] = Inr (applyDefaults (the (host_decode sample_host [])))"
    "3 \<le> imap_MaxMessageBytes (cfg_IMAP (applyDefaults (the (host_decode sample_host []))))" by code_simp+
  then show ?thesis
    by (simp add: loadConfig_def LoadFile_def failing_host_def sample_host_def sample_env_def storeRoot_def path_of_def)
qed

theorem alerts_before_seen_witness:
  "\<exists>boot uv. booted subcommandFetch (sample_options False) (projr (loadConfig failing_host ''c'')) boot
    \<and> Alerting (policy_alert failing_report failing_policy) \<in> alerts_in (host_env failing_host) boot ''abc''
    \<and> (let s' = snd (runCLI failing_host [''--config'', ''c'', ''fetch''] online_state) in
       list_all (\<lambda>cmd. case cmd of UidStore uids flag \<Rightarrow> list_all (alert_sent failing_host boot uv s') uids | _ \<Rightarrow> True) (trace (cs_client s')))"
proof -
  let ?args = "[''--config'', ''c'', ''fetch'']"
  obtain cfg where cfg: "loadConfig failing_host ''c'' = Inr cfg" "storeRoot cfg = [''s'']" "3 \<le> imap_MaxMessageBytes (cfg_IMAP cfg)" using failing_config by blast
  obtain r s' where run: "runCLI failing_host ?args online_state = (r, s')" by fastforce
  define boot where "boot = \<lparr>boot_Config = cfg, boot_Options = sample_options False,
    boot_Store = newFileStore (storeRoot cfg) (storeIdentity cfg) (openMode subcommandFetch (sample_options False))\<rparr>"
  have booted: "booted subcommandFetch (sample_options False) cfg boot" by (simp add: booted_def boot_def)
  have opt: "loadConfig failing_host (ConfigPath (sample_options False)) = Inr cfg" "\<not> DryRun (sample_options False)"
    using cfg(1) by (simp_all add: sample_options_def newOptions_def)
  have start: "clean [''s'']" "store_ok [''s''] (view (cs_world online_state))" "trace (cs_client online_state) = []"
    using sample_world_ok by (simp_all add: online_state_def sample_run_facts)
  from alerts_before_seen [OF no_run start(1,2) sample_parses(1) opt(2,1) cfg(2) run booted]
  obtain uv where "\<forall>uids flag. UidStore uids flag \<in> set (trace (cs_client s')) \<longrightarrow> (\<forall>uid \<in> set uids. alert_sent failing_host boot uv s' uid)"
    by (auto simp only: start(3) append_Nil)
  then have "list_all (\<lambda>cmd. case cmd of UidStore uids flag \<Rightarrow> list_all (alert_sent failing_host boot uv s') uids | _ \<Rightarrow> True) (trace (cs_client s'))"
    by (auto simp: list_all_iff split: imap_cmd.split)
  moreover have "Alerting (policy_alert failing_report failing_policy) \<in> alerts_in (host_env failing_host) boot ''abc''"
    using cfg(3) by (intro failing_alerts) (simp add: boot_def)
  ultimately show ?thesis using run cfg(1) booted by (intro exI [of _ boot] exI [of _ uv]) simp
qed

end
