(* ===== verification/Reprocess_Safety.thy ===== *)
theory Reprocess_Safety
  imports Cli_Safety
begin

text \<open>
  What \<^verbatim>\<open>reprocess\<close> rebuilds: undisturbed, it leaves in the data file every report that can be extracted from a stored mail, next to the reports that were there,
  and nothing else.
\<close>

section \<open>Loading undisturbed\<close>

lemma calls_calm:
  assumes "sched w = []"
  shows "nop w = (Ok (), w)" "readFile p w = (case map_of (fs w) p of Some (Reg m c) \<Rightarrow> Ok c | Some (Dir m) \<Rightarrow> Err (OsError EISDIR)
    | None \<Rightarrow> Err (OsError (absent_errno (fs w) p)), w)"
  using assms by (simp_all add: nop_def readFile_def sys_def run_call_def split: option.split node.split)

text \<open>The mail that the loader makes of a file.\<close>

definition loads :: "(content \<Rightarrow> 'msg option) \<Rightarrow> path \<Rightarrow> (emailKey \<rightharpoonup> gotime) \<Rightarrow> content world \<Rightarrow> path \<Rightarrow> 'msg LoadedEmail \<Rightarrow> bool" where
  "loads readMessage dir dates w p e \<longleftrightarrow> loadEmailFile readMessage dir dates p w = (Ok (Inr e), w)"

definition load_failure :: "go_error \<Rightarrow> bool" where
  "load_failure e \<longleftrightarrow> (\<exists>p u v c. e = ErrLoadEmailFailed p u v c)"

lemma loadEmailFile_calm:
  assumes "sched w = []"
  obtains e where "loads readMessage dir dates w p e" | err where "loadEmailFile readMessage dir dates p w = (Ok (Inl err), w)" "load_failure err"
proof -
  have "\<exists>r. loadEmailFile readMessage dir dates p w = (Ok r, w) \<and> (\<forall>err. r = Inl err \<longrightarrow> load_failure err)"
    unfolding loadEmailFile_def Let_def load_failure_def
    by (auto simp: ret_def bindIO_def attempt_def calls_calm [OF assms] split: option.split sum.split node.split)
  then obtain r where r: "loadEmailFile readMessage dir dates p w = (Ok r, w)" "\<And>err. r = Inl err \<Longrightarrow> load_failure err" by blast
  then show thesis using that by (cases r) (auto simp: loads_def)
qed

lemma walk_calm:
  assumes "sched w = []"
  shows "\<exists>es fails. walk_emails readMessage dir dates None result errs entries w = (Ok (result @ es, errs @ fails), w) \<and> list_all load_failure fails
    \<and> set es = {e. \<exists>p n. (p, n) \<in> set entries \<and> \<not> is_dir n \<and> has_eml_ext p \<and> loads readMessage dir dates w p e}"
proof (induction entries arbitrary: result errs)
  case Nil
  then show ?case by (simp add: ret_def)
next
  case (Cons x entries)
  obtain p n where x: "x = (p, n)" by (cases x)
  let ?loaded = "\<lambda>xs. {e. \<exists>p n. (p, n) \<in> set xs \<and> \<not> is_dir n \<and> has_eml_ext p \<and> loads readMessage dir dates w p e}"
  show ?case
  proof (cases "is_dir n \<or> \<not> has_eml_ext p")
    case True
    then have "walk_emails readMessage dir dates None result errs (x # entries) w = walk_emails readMessage dir dates None result errs entries w"
      by (auto simp: x bindIO_def attempt_def calls_calm(1) [OF assms])
    moreover have "?loaded (x # entries) = ?loaded entries" using True by (auto simp: x)
    ultimately show ?thesis using Cons [of result errs] by simp
  next
    case False
    from assms show ?thesis
    proof (cases rule: loadEmailFile_calm [of w readMessage dir dates p])
      case (1 e)
      have step: "walk_emails readMessage dir dates None result errs (x # entries) w = walk_emails readMessage dir dates None (result @ [e]) errs entries w"
        using False 1 by (simp add: x loads_def bindIO_def)
      obtain es fails where "walk_emails readMessage dir dates None (result @ [e]) errs entries w = (Ok ((result @ [e]) @ es, errs @ fails), w)"
        "list_all load_failure fails" "set es = ?loaded entries" using Cons [of "result @ [e]" errs] by blast
      moreover have "?loaded (x # entries) = insert e (?loaded entries)" using False 1 by (auto simp: x loads_def)
      ultimately show ?thesis unfolding step by (intro exI [of _ "e # es"] exI [of _ fails]) simp
    next
      case (2 err)
      have step: "walk_emails readMessage dir dates None result errs (x # entries) w = walk_emails readMessage dir dates None result (errs @ [err]) entries w"
        using False 2 by (simp add: x bindIO_def)
      obtain es fails where "walk_emails readMessage dir dates None result (errs @ [err]) entries w = (Ok (result @ es, (errs @ [err]) @ fails), w)"
        "list_all load_failure fails" "set es = ?loaded entries" using Cons [of result "errs @ [err]"] by blast
      moreover have "?loaded (x # entries) = ?loaded entries" using False 2 by (auto simp: x loads_def)
      ultimately show ?thesis unfolding step using 2(2) by (intro exI [of _ es] exI [of _ "err # fails"]) simp
    qed
  qed
qed

text \<open>Every mail below the mail directory is loaded, and nothing else.\<close>

lemma walk_entries_set: "(p, n) \<in> set (walk_entries d xs) \<longleftrightarrow> prefix d p \<and> map_of xs p = Some n"
proof -
  let ?ps = "map fst (filter (\<lambda>e. prefix d (fst e)) xs)"
  have "p \<in> set ?ps \<longleftrightarrow> prefix d p \<and> p \<in> fst ` set xs" by auto
  also have "p \<in> fst ` set xs \<longleftrightarrow> map_of xs p \<noteq> None" by (simp add: map_of_eq_None_iff)
  finally have "p \<in> set ?ps \<longleftrightarrow> prefix d p \<and> map_of xs p \<noteq> None" .
  moreover have "(p, n) \<in> set (walk_entries d xs) \<longleftrightarrow> p \<in> set ?ps \<and> n = the (map_of xs p)"
    unfolding walk_entries_def set_map [of "\<lambda>p. (p, the (map_of xs p))"] set_sort set_remdups by blast
  ultimately show ?thesis by auto
qed

lemma loads_message:
  assumes "sched w = []" "loads readMessage dir dates w p e"
  shows "\<exists>m c. map_of (fs w) p = Some (Reg m c) \<and> readMessage c = Some (loaded_Message e)"
  using assms unfolding loads_def loadEmailFile_def Let_def
  by (auto simp: ret_def bindIO_def attempt_def calls_calm split: option.splits sum.splits node.splits)

lemma loads_mail:
  assumes "sched w = []" "p = buildEmailPath root uid uv t" "0 \<le> year_of t" "year_of t \<le> 9999" "map_of (fs w) p = Some (Reg m c)" "readMessage c = Some msg"
  shows "\<exists>e. loads readMessage (emailsPath root) dates w p e \<and> loaded_Message e = msg"
proof -
  have "parseEmailPath (drop (length (emailsPath root)) p) = Some (uid, uv)" "internalDateFromEmailPath (drop (length (emailsPath root)) p) = Inr (month_start t)"
    using format_200601_parse [OF assms(3,4)] by (simp_all add: assms(2) relative_email_path parseEmailPath_build internalDateFromEmailPath_def email_month_def)
  then show ?thesis
    using assms(1,5,6) unfolding loads_def loadEmailFile_def Let_def
    by (auto simp: ret_def bindIO_def attempt_def calls_calm split: option.split)
qed

lemma mail_path_facts: "prefix (emailsPath root) (buildEmailPath root uid uv t)" "has_eml_ext (buildEmailPath root uid uv t)"
  by (simp_all add: buildEmailPath_def emailsPath_def has_eml_ext_def email_file_def has_suffix_def suffix_def)

lemma LoadEmails_calm:
  assumes "standard_store st" "sched w = []" "view w (emailsDirPath st) = Some (Dir m)"
  shows "\<exists>es fails dates. LoadEmails readMessage st w = (Ok (es, fails), w) \<and> list_all load_failure fails
    \<and> set es = {e. \<exists>p m c. prefix (emailsDirPath st) p \<and> map_of (fs w) p = Some (Reg m c) \<and> has_eml_ext p \<and> loads readMessage (emailsDirPath st) dates w p e}"
proof -
  have "map_of (fs w) (emailsDirPath st) = Some (Dir m)" using assms(3) by (simp add: visible_def split: if_splits)
  then have dir: "validateEmailsDir (emailsDirPath st) w = (Ok True, w)"
    using assms(2) by (simp add: validateEmailsDir_def stat_def sys_def run_call_def bindIO_def attempt_def ret_def)
  have "loadDataFile st w = (fst (loadDataFile st w), w) \<and> fst (loadDataFile st w) \<noteq> Crashed"
    using assms(2) unfolding loadDataFile_def bindIO_def attempt_def
    by (cases "map_of (fs w) (dataPath st)") (auto simp: ret_def fail_def calls_calm split: node.split content.split)
  then have "\<exists>dates. loadIndexedEmailDates st w = (Ok dates, w)"
    unfolding loadIndexedEmailDates_def bindIO_def attempt_def by (cases "fst (loadDataFile st w)") (auto simp: ret_def split: prod.splits)
  then obtain dates where dates: "loadIndexedEmailDates st w = (Ok dates, w)" ..
  obtain es fails where walk: "walk_emails readMessage (emailsDirPath st) dates None [] [] (walk_entries (emailsDirPath st) (fs w)) w = (Ok (es, fails), w)"
    "list_all load_failure fails" "set es = {e. \<exists>p n. (p, n) \<in> set (walk_entries (emailsDirPath st) (fs w)) \<and> \<not> is_dir n \<and> has_eml_ext p \<and> loads readMessage (emailsDirPath st) dates w p e}"
    using walk_calm [OF assms(2), of readMessage "emailsDirPath st" dates "[]" "[]" "walk_entries (emailsDirPath st) (fs w)", unfolded append_Nil] by blast
  have reg: "is_dir n \<longleftrightarrow> (\<nexists>m c. n = Reg m c)" for n :: "content node" by (cases n) simp_all
  have "set es = {e. \<exists>p m c. prefix (emailsDirPath st) p \<and> map_of (fs w) p = Some (Reg m c) \<and> has_eml_ext p \<and> loads readMessage (emailsDirPath st) dates w p e}"
    unfolding walk(3) walk_entries_set reg by blast
  with walk(1,2) dir dates show ?thesis
    by (intro exI [of _ es] exI [of _ fails] exI [of _ dates]) (simp add: LoadEmails_def bindIO_def walkTree_def)
qed

section \<open>Collecting\<close>

text \<open>Programs that return a value and at most log.\<close>

definition yields :: "'a cmd \<Rightarrow> 'a \<Rightarrow> bool" where
  "yields m a \<longleftrightarrow> (\<forall>s. \<exists>s'. m s = (Ok a, s') \<and> cs_world s' = cs_world s \<and> cs_net s' = cs_net s \<and> cs_client s' = cs_client s)"

lemma yields_ret: "yields (ret a) a"
  by (simp add: yields_def ret_def)

lemma yields_bind: "yields m a \<Longrightarrow> yields (f a) b \<Longrightarrow> yields (bindIO m f) b"
  unfolding yields_def
proof
  fix s
  assume *: "\<forall>s. \<exists>s'. m s = (Ok a, s') \<and> cs_world s' = cs_world s \<and> cs_net s' = cs_net s \<and> cs_client s' = cs_client s"
    "\<forall>s. \<exists>s'. f a s = (Ok b, s') \<and> cs_world s' = cs_world s \<and> cs_net s' = cs_net s \<and> cs_client s' = cs_client s"
  from spec [OF *(1), of s] obtain s1 where 1: "m s = (Ok a, s1)" "cs_world s1 = cs_world s \<and> cs_net s1 = cs_net s \<and> cs_client s1 = cs_client s" by blast
  from spec [OF *(2), of s1] 1 show "\<exists>s'. bindIO m f s = (Ok b, s') \<and> cs_world s' = cs_world s \<and> cs_net s' = cs_net s \<and> cs_client s' = cs_client s"
    by (auto simp: bindIO_def)
qed

lemma yields_logs: "yields (logWarn kind uid uv mid) ()" "yields (logAlerts env rep) ()"
proof -
  have each: "yields (sink_each f) ()" for f by (simp add: yields_def sink_each_def)
  show "yields (logWarn kind uid uv mid) ()" by (simp add: logWarn_def sink_LogWarning_def each)
  have "yields (alert_loop env rep ps) ()" for ps
    by (induction ps) (auto simp: yields_ret sink_LogAlert_def intro: yields_bind [OF each])
  then show "yields (logAlerts env rep) ()" by (simp add: logAlerts_def)
qed

lemma yields_if: "yields m () \<Longrightarrow> yields (if b then m else ret ()) ()"
  by (simp add: yields_ret)

definition reports_of :: "'b env \<Rightarrow> int \<Rightarrow> 'b part \<Rightarrow> Report list" where
  "reports_of env maxBytes msg = (case ExtractAttachments (env_mime env) msg maxBytes of
       Inl _ \<Rightarrow> []
     | Inr atts \<Rightarrow> List.map_filter (\<lambda>att. case parseTLSRPTAttachment env att of Some (Inr r) \<Rightarrow> Some r | _ \<Rightarrow> None) atts)"

lemma reports_in_message: "reports_in env maxBytes raw = (case env_readMessage env raw of None \<Rightarrow> [] | Some msg \<Rightarrow> reports_of env maxBytes msg)"
  by (simp add: reports_in_def reports_of_def split: option.split)

lemma yields_attachments:
  "\<exists>inputs. yields (reprocess_attachments env nt uid uv atts) inputs
    \<and> map input_Report inputs = List.map_filter (\<lambda>att. case parseTLSRPTAttachment env att of Some (Inr r) \<Rightarrow> Some r | _ \<Rightarrow> None) atts"
proof (induction atts)
  case Nil
  then show ?case by (auto simp: map_filter_simps intro: yields_ret)
next
  case (Cons att atts)
  then obtain inputs where IH: "yields (reprocess_attachments env nt uid uv atts) inputs"
    "map input_Report inputs = List.map_filter (\<lambda>att. case parseTLSRPTAttachment env att of Some (Inr r) \<Rightarrow> Some r | _ \<Rightarrow> None) atts" by blast
  consider "parseTLSRPTAttachment env att = None" | e where "parseTLSRPTAttachment env att = Some (Inl e)" | rep where "parseTLSRPTAttachment env att = Some (Inr rep)"
    by (metis old.sum.exhaust option.exhaust)
  then show ?case
  proof cases
    case 1
    with IH show ?thesis by (auto simp: map_filter_simps)
  next
    case 2
    with IH(2) show ?thesis
      by (intro exI [of _ inputs] conjI) (simp_all add: map_filter_simps yields_bind [OF yields_if [OF yields_logs(1)] IH(1)] split del: if_split)
  next
    case 3
    let ?x = "\<lparr>input_Report = rep, input_UID = uid, input_UIDValidity = uv\<rparr>"
    have "yields (reprocess_attachments env nt uid uv (att # atts)) (?x # inputs)"
      using 3 by (simp split del: if_split) (rule yields_bind [OF yields_if [OF yields_logs(2)]], rule yields_bind [OF IH(1)], rule yields_ret)
    with 3 IH(2) show ?thesis by (intro exI [of _ "?x # inputs"]) (simp add: map_filter_simps)
  qed
qed

lemma yields_collect:
  "\<exists>inputs. yields (reprocessCollectReports env maxBytes nt es) inputs
    \<and> map input_Report inputs = concat (map (\<lambda>e. reports_of env maxBytes (loaded_Message e)) es)"
proof (induction es)
  case Nil
  then show ?case by (auto intro: yields_ret)
next
  case (Cons e es)
  then obtain inputs where IH: "yields (reprocessCollectReports env maxBytes nt es) inputs"
    "map input_Report inputs = concat (map (\<lambda>e. reports_of env maxBytes (loaded_Message e)) es)" by blast
  show ?case
  proof (cases "ExtractAttachments (env_mime env) (loaded_Message e) maxBytes")
    case (Inl err)
    then have "reports_of env maxBytes (loaded_Message e) = []" by (simp add: reports_of_def)
    with Inl IH(2) show ?thesis
      by (intro exI [of _ inputs] conjI) (simp_all add: yields_bind [OF yields_if [OF yields_logs(1)] IH(1)] split del: if_split)
  next
    case (Inr atts)
    obtain here where here: "yields (reprocess_attachments env nt (loaded_UID e) (loaded_UIDValidity e) atts) here"
      "map input_Report here = reports_of env maxBytes (loaded_Message e)"
      using yields_attachments [of env nt "loaded_UID e" "loaded_UIDValidity e" atts] by (auto simp: reports_of_def Inr)
    have "yields (reprocessCollectReports env maxBytes nt (e # es)) (here @ inputs)"
      unfolding reprocessCollectReports.simps Inr sum.case by (rule yields_bind [OF here(1)], rule yields_bind [OF IH(1)], rule yields_ret)
    with here(2) IH(2) show ?thesis by (intro exI [of _ "here @ inputs"]) simp
  qed
qed

lemma yields_warn_failures: "yields (warn_failures fails) ()"
  by (induction fails rule: warn_failures.induct) (auto intro: yields_ret yields_bind [OF yields_logs(1)])

lemma load_failures_only: "list_all load_failure fails \<Longrightarrow> fails \<noteq> [] \<Longrightarrow> snd (collectLoadEmailFailures (Join fails))"
proof -
  have one: "collectLoadEmailFailuresInto e = ([e], True)" if "load_failure e" for e
    using that by (auto simp: load_failure_def as_load_failure_def)
  have "list_all load_failure fails \<Longrightarrow> collect_children fails = (fails, True)"
    by (induction fails) (auto simp: one)
  then show "list_all load_failure fails \<Longrightarrow> fails \<noteq> [] \<Longrightarrow> snd (collectLoadEmailFailures (Join fails))"
    by (simp add: collectLoadEmailFailures_def)
qed

text \<open>The step between loading and saving: file errors are at most logged.\<close>

lemma yields_load_errors:
  assumes "list_all load_failure fails"
  shows "yields (case if fails = [] then None else Some (Join fails) of
      None \<Rightarrow> ret ()
    | Some err \<Rightarrow> let (loadFailures, allPerFile) = collectLoadEmailFailures err in
        if \<not> allPerFile then stop err else if nt then warn_failures loadFailures else ret ()) ()"
  using load_failures_only [OF assms]
  by (cases "collectLoadEmailFailures (Join fails)") (auto simp: yields_ret yields_warn_failures)

section \<open>The run\<close>

lemma onStore_calm:
  assumes "vwp True m Q E C (view (cs_world s))" "sched (cs_world s) = []" "\<And>e V. \<not> E e V" "\<And>V. \<not> C V"
  obtains a s' where "onStore m s = (Ok a, s')" "Q a (view (cs_world s'))" "sched (cs_world s') = []"
    "cs_net s' = cs_net s" "cs_client s' = cs_client s"
proof -
  from vwp_calm [OF assms] obtain a w where "m (cs_world s) = (Ok a, w)" "sched w = []" "Q a (view w)" by blast
  then show thesis using that [of a "s\<lparr>cs_world := w\<rparr>"] by (simp add: onStore_def)
qed

lemma yieldsD:
  assumes "yields m a"
  obtains s' where "m s = (Ok a, s')" "cs_world s' = cs_world s" "cs_net s' = cs_net s" "cs_client s' = cs_client s"
  using assms unfolding yields_def by blast

lemma writable_put: "writable (dataPath st) V \<Longrightarrow> dataPath st \<noteq> [] \<Longrightarrow> writable (dataPath st) (put_data st df V)"
  by (auto simp: writable_def put_data_def)

text \<open>Saving what was loaded, and the notifications that may follow.\<close>

lemma reprocess_saves:
  assumes st: "standard_store (boot_Store boot)" "\<not> readOnly (boot_Store boot)" and calm: "sched (cs_world s) = []"
    and data: "data_of (boot_Store boot) (view (cs_world s)) = Some df" "reports_ok df" "writable (dataPath (boot_Store boot)) (view (cs_world s))"
    and run: "bindIO (wrapErr ''reprocess: save email metas'' (onStore (SaveEmailMetas (boot_Store boot) (buildReprocessMetas emails)))) (\<lambda>_.
        bindIO (reprocessCollectReports env maxBytes nt emails) (\<lambda>reports.
        bindIO (wrapErr ''reprocess: save reports'' (onStore (SaveReports (boot_Store boot) reports))) (\<lambda>_.
        bindIO (if nt then wrapErr ''reprocess: flush'' (sink_Flush env) else ret ()) (\<lambda>_. ret exitOK)))) s = (r, s')"
  obtains inputs df' where "map input_Report inputs = concat (map (\<lambda>e. reports_of env maxBytes (loaded_Message e)) emails)"
    "df' = save_reports (save_metas df (buildReprocessMetas emails)) inputs" "view (cs_world s') = put_data (boot_Store boot) df' (view (cs_world s))"
    "cs_client s' = cs_client s" "\<not> nt \<longrightarrow> r = Ok exitOK \<and> cs_net s' = cs_net s"
proof -
  let ?st = "boot_Store boot" let ?df1 = "save_metas df (buildReprocessMetas emails)"
  note c = standard_paths(5) [OF st(1)]
  have ne: "dataPath ?st \<noteq> []" using st(1) by (simp add: standard_store_def path_defs)
  have zero: "list_all (\<lambda>m. \<not> IsZero (meta_InternalDate m)) (buildReprocessMetas emails)" by (simp add: buildReprocessMetas_def list_all_iff)
  obtain u1 s1 where s1: "onStore (SaveEmailMetas ?st (buildReprocessMetas emails)) s = (Ok u1, s1)" "view (cs_world s1) = put_data ?st ?df1 (view (cs_world s))"
      "sched (cs_world s1) = []" "cs_net s1 = cs_net s" "cs_client s1 = cs_client s"
    by (rule onStore_calm [OF vwp_SaveEmailMetas [where calm = True, OF c data(1)] calm]) (use st(2) data(3) zero in auto)
  obtain inputs where inputs: "yields (reprocessCollectReports env maxBytes nt emails) inputs"
      "map input_Report inputs = concat (map (\<lambda>e. reports_of env maxBytes (loaded_Message e)) emails)"
    using yields_collect by blast
  obtain s2 where s2: "reprocessCollectReports env maxBytes nt emails s1 = (Ok inputs, s2)" "cs_world s2 = cs_world s1" "cs_net s2 = cs_net s1" "cs_client s2 = cs_client s1"
    using yieldsD [OF inputs(1)] by metis
  have d2: "data_of ?st (view (cs_world s2)) = Some ?df1" "reports_ok ?df1" "writable (dataPath ?st) (view (cs_world s2))"
    using data_of_version [OF data(1)] data(2) writable_put [OF data(3) ne] by (simp_all add: s2 s1 data_of_put save_metas_def reports_ok_def)
  have calm2: "sched (cs_world s2) = []" by (simp add: s2 s1)
  obtain u3 s3 where s3: "onStore (SaveReports ?st inputs) s2 = (Ok u3, s3)" "view (cs_world s3) = put_data ?st (save_reports ?df1 inputs) (view (cs_world s2))"
      "cs_net s3 = cs_net s2" "cs_client s3 = cs_client s2"
    by (rule onStore_calm [OF vwp_SaveReports [where calm = True, OF c st(2) d2(1,2)] calm2]) (use d2(3) in auto)
  have v: "view (cs_world s3) = put_data ?st (save_reports ?df1 inputs) (view (cs_world s))" by (simp add: s3 s2 s1 put_data_def)
  have same: "cs_net s3 = cs_net s" "cs_client s3 = cs_client s" by (simp_all add: s3 s2 s1)
  have rest: "(r, s') = bindIO (if nt then wrapErr ''reprocess: flush'' (sink_Flush env) else ret ()) (\<lambda>_. ret exitOK) s3"
    using run s1(1) s2(1) s3(1) by (simp add: bindIO_def mapErr_def)
  have "cs_world s' = cs_world s3 \<and> cs_client s' = cs_client s3 \<and> (\<not> nt \<longrightarrow> r = Ok exitOK \<and> cs_net s' = cs_net s3)"
    using rest by (cases nt) (auto simp: bindIO_def mapErr_def ret_def sink_Flush_def split: option.splits if_splits)
  with v same show thesis by (intro that [OF inputs(2) refl]) simp_all
qed

text \<open>Undisturbed loading leads to the saving step.\<close>

lemma reprocess_after_load:
  assumes "onStore (LoadRecoveryRequired (boot_Store boot)) s = (Ok None, s1)" "list_all load_failure fails"
    "onStore (LoadEmails (\<lambda>c. env_readMessage env (content_bytes env c)) (boot_Store boot)) s1 = (Ok (es, fails), s1)" "reprocessRun env boot s = (r, s')"
  obtains s2 where "cs_world s2 = cs_world s1" "cs_net s2 = cs_net s1" "cs_client s2 = cs_client s1"
    "bindIO (wrapErr ''reprocess: save email metas'' (onStore (SaveEmailMetas (boot_Store boot) (buildReprocessMetas es)))) (\<lambda>_.
        bindIO (reprocessCollectReports env (imap_MaxMessageBytes (cfg_IMAP (boot_Config boot))) (ReprocessNotify (boot_Options boot)) es) (\<lambda>reports.
        bindIO (wrapErr ''reprocess: save reports'' (onStore (SaveReports (boot_Store boot) reports))) (\<lambda>_.
        bindIO (if ReprocessNotify (boot_Options boot) then wrapErr ''reprocess: flush'' (sink_Flush env) else ret ()) (\<lambda>_. ret exitOK)))) s2 = (r, s')"
proof -
  let ?errors = "case if fails = [] then None else Some (Join fails) of
      None \<Rightarrow> ret ()
    | Some err \<Rightarrow> let (loadFailures, allPerFile) = collectLoadEmailFailures err in
        if \<not> allPerFile
        then bindIO (notifyReprocessSystemError env SystemErrorKindStoreCorruption (mailboxID (boot_Config boot))) (\<lambda>_. fail (Wrap ''reprocess: load emails'' err))
        else if ReprocessNotify (boot_Options boot) then warn_failures loadFailures else ret ()"
  obtain s2 where s2: "?errors s1 = (Ok (), s2)" "cs_world s2 = cs_world s1" "cs_net s2 = cs_net s1" "cs_client s2 = cs_client s1"
    by (rule yieldsD [OF yields_load_errors [OF assms(2)]])
  let ?save = "bindIO (wrapErr ''reprocess: save email metas'' (onStore (SaveEmailMetas (boot_Store boot) (buildReprocessMetas es)))) (\<lambda>_.
        bindIO (reprocessCollectReports env (imap_MaxMessageBytes (cfg_IMAP (boot_Config boot))) (ReprocessNotify (boot_Options boot)) es) (\<lambda>reports.
        bindIO (wrapErr ''reprocess: save reports'' (onStore (SaveReports (boot_Store boot) reports))) (\<lambda>_.
        bindIO (if ReprocessNotify (boot_Options boot) then wrapErr ''reprocess: flush'' (sink_Flush env) else ret ()) (\<lambda>_. ret exitOK))))"
  have "reprocessRun env boot s = bindIO ?errors (\<lambda>_. ?save) s1"
    using assms(1,3) unfolding reprocessRun_def Let_def
    by (simp only: bindIO_def [of "attempt _"] attempt_def prod.case outcome.case sum.case option.case)
  then have "?save s2 = (r, s')" using s2(1) assms(4) by (simp add: bindIO_def [of ?errors])
  then show thesis using that s2(2-) by blast
qed

text \<open>The reports in the mails that the store has filed, and in any file below the mail directory.\<close>

definition mail_reports :: "'b env \<Rightarrow> BootContext \<Rightarrow> store_view \<Rightarrow> Report set" where
  "mail_reports env boot V = {rep. \<exists>uid uv t m c. 0 \<le> year_of t \<and> year_of t \<le> 9999 \<and> V (buildEmailPath (rootDir (boot_Store boot)) uid uv t) = Some (Reg m c)
     \<and> rep \<in> set (reports_in env (imap_MaxMessageBytes (cfg_IMAP (boot_Config boot))) (content_bytes env c))}"

lemma mail_reportsI:
  "0 \<le> year_of t \<Longrightarrow> year_of t \<le> 9999 \<Longrightarrow> V (buildEmailPath (rootDir (boot_Store boot)) uid uv t) = Some (Reg m c) \<Longrightarrow>
   rep \<in> set (reports_in env (imap_MaxMessageBytes (cfg_IMAP (boot_Config boot))) (content_bytes env c)) \<Longrightarrow> rep \<in> mail_reports env boot V"
  unfolding mail_reports_def by blast

definition tree_reports :: "'b env \<Rightarrow> BootContext \<Rightarrow> content fsys \<Rightarrow> Report set" where
  "tree_reports env boot xs = {rep. \<exists>p m c. prefix (emailsPath (rootDir (boot_Store boot))) p \<and> map_of xs p = Some (Reg m c)
     \<and> rep \<in> set (reports_in env (imap_MaxMessageBytes (cfg_IMAP (boot_Config boot))) (content_bytes env c))}"

lemma loaded_reports:
  assumes "standard_store (boot_Store boot)" "sched w = []"
    and es: "set es = {e. \<exists>p m c. prefix (emailsDirPath (boot_Store boot)) p \<and> map_of (fs w) p = Some (Reg m c) \<and> has_eml_ext p
      \<and> loads (\<lambda>c. env_readMessage env (content_bytes env c)) (emailsDirPath (boot_Store boot)) dates w p e}"
  shows "mail_reports env boot (view w) \<subseteq> (\<Union>e \<in> set es. set (reports_of env (imap_MaxMessageBytes (cfg_IMAP (boot_Config boot))) (loaded_Message e)))"
    "(\<Union>e \<in> set es. set (reports_of env (imap_MaxMessageBytes (cfg_IMAP (boot_Config boot))) (loaded_Message e))) \<subseteq> tree_reports env boot (fs w)"
proof -
  let ?root = "rootDir (boot_Store boot)" and ?max = "imap_MaxMessageBytes (cfg_IMAP (boot_Config boot))"
  have dir: "emailsDirPath (boot_Store boot) = emailsPath ?root" using assms(1) by (simp add: standard_store_def)
  show "mail_reports env boot (view w) \<subseteq> (\<Union>e \<in> set es. set (reports_of env ?max (loaded_Message e)))"
  proof
    fix rep assume "rep \<in> mail_reports env boot (view w)"
    then obtain uid uv t m c where t: "0 \<le> year_of t" "year_of t \<le> 9999" "view w (buildEmailPath ?root uid uv t) = Some (Reg m c)"
      "rep \<in> set (reports_in env ?max (content_bytes env c))" unfolding mail_reports_def by blast
    then obtain msg where msg: "env_readMessage env (content_bytes env c) = Some msg" "rep \<in> set (reports_of env ?max msg)"
      by (cases "env_readMessage env (content_bytes env c)") (auto simp: reports_in_message)
    have at: "map_of (fs w) (buildEmailPath ?root uid uv t) = Some (Reg m c)" using t(3) by (simp add: visible_def split: if_splits)
    obtain e where e: "loads (\<lambda>c. env_readMessage env (content_bytes env c)) (emailsPath ?root) dates w (buildEmailPath ?root uid uv t) e" "loaded_Message e = msg"
      using loads_mail [OF assms(2) refl t(1,2) at, of "\<lambda>c. env_readMessage env (content_bytes env c)"] msg(1) by blast
    then have "e \<in> set es" unfolding es dir using at mail_path_facts by blast
    with e(2) msg(2) show "rep \<in> (\<Union>e \<in> set es. set (reports_of env ?max (loaded_Message e)))" by blast
  qed
  show "(\<Union>e \<in> set es. set (reports_of env ?max (loaded_Message e))) \<subseteq> tree_reports env boot (fs w)"
  proof
    fix rep assume "rep \<in> (\<Union>e \<in> set es. set (reports_of env ?max (loaded_Message e)))"
    then obtain e p where e: "rep \<in> set (reports_of env ?max (loaded_Message e))" "prefix (emailsPath ?root) p"
      "loads (\<lambda>c. env_readMessage env (content_bytes env c)) (emailsPath ?root) dates w p e" unfolding es dir by blast
    from loads_message [OF assms(2) e(3)] obtain m c where "map_of (fs w) p = Some (Reg m c)" "env_readMessage env (content_bytes env c) = Some (loaded_Message e)" by blast
    with e(1,2) show "rep \<in> tree_reports env boot (fs w)" unfolding tree_reports_def reports_in_message by force
  qed
qed

text \<open>
  C14. Reprocessing rebuilds the reports from the mails. Undisturbed, on an open store with a mail directory and no recovery pending, a run of \<^verbatim>\<open>reprocess\<close> overwrites the
  table of reports with a list of reports that has every report in a mail that the store has filed (dated in the years 0 to 9999), and
  only reports in files below the mail directory; entries without such a report stay. It changes no other file, sends nothing to the mail server, and
  without \<^verbatim>\<open>--notify\<close> it succeeds and posts nothing, however many mails cannot be parsed.
\<close>

theorem reprocess_rebuilds:
  assumes st: "standard_store (boot_Store boot)" "\<not> readOnly (boot_Store boot)" and calm: "sched (cs_world s) = []"
    and data: "data_of (boot_Store boot) (view (cs_world s)) = Some df" "reports_ok df" "writable (dataPath (boot_Store boot)) (view (cs_world s))"
    and sentinel: "view (cs_world s) (sentinelPath (rootDir (boot_Store boot))) = Some (Reg k (CSentinel x))" "FormatVersion x = SentinelFormatVersion" "RecoveryRequired x = None"
    and mails: "view (cs_world s) (emailsPath (rootDir (boot_Store boot))) = Some (Dir m)" and run: "reprocessRun env boot s = (r, s')"
  shows "\<exists>df' reps. data_of (boot_Store boot) (view (cs_world s')) = Some df'
    \<and> mail_reports env boot (view (cs_world s)) \<subseteq> set reps \<and> set reps \<subseteq> tree_reports env boot (fs (cs_world s))
    \<and> report_table df' = report_table df ++ map_of (map (\<lambda>r. (ReportID r, r)) reps)
    \<and> (\<forall>q. q \<noteq> dataPath (boot_Store boot) \<longrightarrow> view (cs_world s') q = view (cs_world s) q)
    \<and> cs_client s' = cs_client s \<and> (\<not> ReprocessNotify (boot_Options boot) \<longrightarrow> r = Ok exitOK \<and> cs_net s' = cs_net s)"
proof -
  let ?st = "boot_Store boot" and ?nt = "ReprocessNotify (boot_Options boot)" and ?max = "imap_MaxMessageBytes (cfg_IMAP (boot_Config boot))"
  have "vwp True (LoadRecoveryRequired ?st) (\<lambda>found V'. V' = view (cs_world s) \<and> found = None) (\<lambda>_ _. False) (\<lambda>_. False) (view (cs_world s))"
    unfolding LoadRecoveryRequired_def
    by (rule vwp_bind, rule vwp_mapErr, rule vwp_loadSentinel) (use standard_paths(4) [OF st(1)] sentinel in \<open>auto intro!: vc\<close>)
  then obtain s1 where s1: "onStore (LoadRecoveryRequired ?st) s = (Ok None, s1)" "view (cs_world s1) = view (cs_world s)" "sched (cs_world s1) = []"
      "cs_net s1 = cs_net s" "cs_client s1 = cs_client s" by (rule onStore_calm [OF _ calm]) auto
  have "kept frozen (LoadRecoveryRequired ?st)" unfolding LoadRecoveryRequired_def by (intro frozen.kept_rules frozen_loads)
  with s1(1) have files: "fs (cs_world s1) = fs (cs_world s)"
    unfolding kept_def frozen_def by (metis onStore_run snd_conv)
  have dir: "view (cs_world s1) (emailsDirPath ?st) = Some (Dir m)" using mails s1(2) st(1) by (simp add: standard_store_def)
  obtain es fails dates where es: "LoadEmails (\<lambda>c. env_readMessage env (content_bytes env c)) ?st (cs_world s1) = (Ok (es, fails), cs_world s1)" "list_all load_failure fails"
      "set es = {e. \<exists>p m c. prefix (emailsDirPath ?st) p \<and> map_of (fs (cs_world s1)) p = Some (Reg m c) \<and> has_eml_ext p
        \<and> loads (\<lambda>c. env_readMessage env (content_bytes env c)) (emailsDirPath ?st) dates (cs_world s1) p e}"
    using LoadEmails_calm [OF st(1) s1(3) dir] by blast
  then have loaded: "onStore (LoadEmails (\<lambda>c. env_readMessage env (content_bytes env c)) ?st) s1 = (Ok (es, fails), s1)" by (simp add: onStore_def)
  from reprocess_after_load [OF s1(1) es(2) loaded run] obtain s2 where s2: "cs_world s2 = cs_world s1" "cs_net s2 = cs_net s1" "cs_client s2 = cs_client s1"
    and save: "bindIO (wrapErr ''reprocess: save email metas'' (onStore (SaveEmailMetas ?st (buildReprocessMetas es)))) (\<lambda>_.
        bindIO (reprocessCollectReports env ?max ?nt es) (\<lambda>reports.
        bindIO (wrapErr ''reprocess: save reports'' (onStore (SaveReports ?st reports))) (\<lambda>_.
        bindIO (if ?nt then wrapErr ''reprocess: flush'' (sink_Flush env) else ret ()) (\<lambda>_. ret exitOK)))) s2 = (r, s')" .
  have calm2: "sched (cs_world s2) = []" and view2: "view (cs_world s2) = view (cs_world s)" by (simp_all add: s2 s1)
  obtain inputs df' where saved: "map input_Report inputs = concat (map (\<lambda>e. reports_of env ?max (loaded_Message e)) es)"
      "df' = save_reports (save_metas df (buildReprocessMetas es)) inputs" "view (cs_world s') = put_data ?st df' (view (cs_world s))"
      "cs_client s' = cs_client s" "\<not> ?nt \<longrightarrow> r = Ok exitOK \<and> cs_net s' = cs_net s"
    using reprocess_saves [OF st calm2, unfolded view2, OF data save] s2 s1 by metis
  have ok: "reports_ok (save_metas df (buildReprocessMetas es))" using data(2) by (simp add: reports_ok_def save_metas_def)
  have "data_of ?st (view (cs_world s')) = Some df'"
    using data_of_version [OF data(1)] save_reports_refines(5) [OF ok] by (simp add: saved data_of_put save_metas_def)
  moreover have "report_table df' = report_table df ++ map_of (map (\<lambda>r. (ReportID r, r)) (rev (map input_Report inputs)))"
    unfolding saved(2) save_reports_refines(2) [OF ok] by (simp add: report_table_def save_metas_def rev_map comp_def)
  moreover have "set (rev (map input_Report inputs)) = (\<Union>e \<in> set es. set (reports_of env ?max (loaded_Message e)))" unfolding saved(1) by simp
  ultimately show ?thesis
    using loaded_reports [OF st(1) s1(3) es(3)] files s1(2) saved(3-5)
    by (intro exI [of _ df'] exI [of _ "rev (map input_Report inputs)"]) (simp add: put_data_def)
qed

text \<open>A store with one mail of 17 June 2024 and an empty data file.\<close>

definition sample_filed_world :: "content world" where
  "sample_filed_world = \<lparr>fs = sample_files (sample_sentinel (Some 7) None) @ [([''s'', ''emails'', ''7''], Dir 448), ([''s'', ''emails'', ''7'', ''202406''], Dir 448),
     ([''s'', ''emails'', ''7'', ''202406'', ''0000000042.eml''], Reg 384 (CRaw ''abc''))], sched = [], clock = 100\<rparr>"

lemma sample_mail_reports: "reports_in (sample_env False) 10 ''abc'' = [sample_report 7 60]"
proof -
  let ?msg = "\<lparr>part_Header = (\<lambda>k. if k = ''Content-Type'' then ''application/tlsrpt+json'' else if k = ''Content-Disposition'' then ''attachment'' else []),
    part_Body = ''abc''\<rparr>" and ?att = "\<lparr>Filename = [], ContentType = ''application/tlsrpt+json'', Content = ''abc''\<rparr>"
  have "ExtractAttachments sample_lib ?msg 10 = Inr [?att]" by code_simp
  moreover have "to_lower ''application/tlsrpt+json'' = ''application/tlsrpt+json''" by code_simp
  then have "parseTLSRPTAttachment (sample_env False) ?att = Some (Inr (sample_report 7 60))"
    by (simp add: parseTLSRPTAttachment_def ParseJSON_def parseJSON_def maxDecompressedSize_def sample_env_def sample_report_def IsZero_def)
  ultimately show ?thesis by (simp add: reports_in_def map_filter_simps) (simp add: sample_env_def map_filter_simps)
qed

lemma sample_filed_path: "buildEmailPath [''s''] 42 7 (739053 * nanos_per_day) = [''s'', ''emails'', ''7'', ''202406'', ''0000000042.eml'']" "year_of (739053 * nanos_per_day) = 2024"
  by code_simp+

theorem reprocess_rebuilds_witness:
  "\<exists>s' df'. reprocessRun (sample_env False) (sample_boot False) (sample_state sample_filed_world) = (Ok exitOK, s')
    \<and> data_of sample_store (view (cs_world s')) = Some df' \<and> report_table df' [7] \<noteq> None"
proof -
  let ?s = "sample_state sample_filed_world" and ?df = "\<lparr>df_Version = 1, df_Reports = [], df_Emails = [\<lparr>entry_UID = 3, entry_UIDValidity = 1, entry_InternalDate = 9\<rparr>]\<rparr>"
  note facts = sample_run_facts sample_store_def sample_filed_world_def sample_files_def sample_sentinel_def path_defs visible_def
  obtain r s' where run: "reprocessRun (sample_env False) (sample_boot False) ?s = (r, s')" by fastforce
  have data: "data_of (boot_Store (sample_boot False)) (view (cs_world ?s)) = Some ?df" "reports_ok ?df"
    "writable (dataPath (boot_Store (sample_boot False))) (view (cs_world ?s))"
    by (simp_all add: facts data_of_def DataFileVersion_def reports_ok_def writable_def)
  have sentinel: "view (cs_world ?s) (sentinelPath (rootDir (boot_Store (sample_boot False)))) = Some (Reg 384 (CSentinel (sample_sentinel (Some 7) None)))"
    "FormatVersion (sample_sentinel (Some 7) None) = SentinelFormatVersion" "RecoveryRequired (sample_sentinel (Some 7) None) = None"
    by (simp_all add: facts SentinelFormatVersion_def)
  have st: "\<not> readOnly (boot_Store (sample_boot False))" "sched (cs_world ?s) = []"
    "view (cs_world ?s) (emailsPath (rootDir (boot_Store (sample_boot False)))) = Some (Dir 448)" by (simp_all add: facts)
  have quiet: "\<not> ReprocessNotify (boot_Options (sample_boot False))" by (simp add: sample_boot_def)
  have mail: "view (cs_world ?s) (buildEmailPath (rootDir (boot_Store (sample_boot False))) 42 7 (739053 * nanos_per_day)) = Some (Reg 384 (CRaw ''abc''))"
    using sample_filed_path(1) by (simp add: facts)
  have "sample_report 7 60 \<in> mail_reports (sample_env False) (sample_boot False) (view (cs_world ?s))"
    by (rule mail_reportsI [where V = "view (cs_world ?s)", OF _ _ mail])
      (use sample_filed_path(2) sample_mail_reports in \<open>simp_all add: sample_boot_def sample_config_def content_bytes_def\<close>)
  with quiet obtain df' reps where "data_of sample_store (view (cs_world s')) = Some df'" "r = Ok exitOK" "sample_report 7 60 \<in> set reps"
      "report_table df' = report_table ?df ++ map_of (map (\<lambda>r. (ReportID r, r)) reps)"
    using reprocess_rebuilds [OF sample_run_facts(1) st(1,2) data sentinel st(3) run] by (auto simp: sample_run_facts)
  moreover from this(3) have "map_of (map (\<lambda>r. (ReportID r, r)) reps) [7] \<noteq> None" by (auto simp: map_of_eq_None_iff sample_report_def image_image intro!: rev_image_eqI)
  ultimately show ?thesis using run by (intro exI [of _ s'] exI [of _ df']) (auto simp: map_add_def split: option.split)
qed

end
