(* ===== verification/Store_Fake.thy ===== *)
theory Store_Fake
  imports Store_Emails Store_Recovery "HOL-Library.AList" "HOL-Library.Multiset"
begin

text \<open>
  \<^verbatim>\<open>internal/store/testutil/mocks.go\<close>: \<^verbatim>\<open>FakeStore\<close>, the in-memory store that the tests of the commands run against, and that the file store behaves like it: any sequence of
  operations on the files, with faults and crashes, is one on the double. The tables of the double are association lists; the order in which Go visits a map only
  shows in the order of joined errors.
\<close>

section \<open>The double\<close>

record FakeEmailEntry =
  fake_UID :: u32
  fake_UIDValidity :: u32
  fake_InternalDate :: gotime
  fake_RawEML :: "string option"

record FakeRecovery =
  Prev :: u32
  Curr :: u32
  fake_DetectedAt :: gotime

record FakeStore =
  Reports :: "(gotext \<times> Report) list"
  fake_Validity :: "u32 option"
  Recovery :: "FakeRecovery option"
  fake_Emails :: "(emailKey \<times> FakeEmailEntry) list"
  PendingReset :: bool
  AcquireSummaryConsistencyGuardErr :: "go_error option"
  LoadRecoveryRequiredErr :: "go_error option"
  HasPendingResetErr :: "go_error option"
  SaveReportsErr :: "go_error option"
  SaveEmailMetasErr :: "go_error option"
  DeleteReportsBeforeErr :: "go_error option"
  DeleteEmailsBeforeErr :: "go_error option"
  LoadEmailsErr :: "go_error option"
  ApplyRecoveryErr :: "go_error option"
  ResetForRecoveryErr :: "go_error option"
  SaveEmailMetasCallCount :: int
  SaveReportsCallCount :: int
  LoadEmailsCallCount :: int
  DeleteReportsBeforeCallCount :: int
  DeleteEmailsBeforeCallCount :: int
  ApplyRecoveryCallCount :: int
  ResetForRecoveryCallCount :: int
  DeleteReportsCutoff :: gotime
  DeleteEmailsCutoff :: gotime

definition NewFakeStore :: FakeStore where
  "NewFakeStore = \<lparr>Reports = [], fake_Validity = None, Recovery = None, fake_Emails = [], PendingReset = False, AcquireSummaryConsistencyGuardErr = None,
     LoadRecoveryRequiredErr = None, HasPendingResetErr = None, SaveReportsErr = None, SaveEmailMetasErr = None, DeleteReportsBeforeErr = None,
     DeleteEmailsBeforeErr = None, LoadEmailsErr = None, ApplyRecoveryErr = None, ResetForRecoveryErr = None, SaveEmailMetasCallCount = 0,
     SaveReportsCallCount = 0, LoadEmailsCallCount = 0, DeleteReportsBeforeCallCount = 0, DeleteEmailsBeforeCallCount = 0, ApplyRecoveryCallCount = 0,
     ResetForRecoveryCallCount = 0, DeleteReportsCutoff = 0, DeleteEmailsCutoff = 0\<rparr>"

type_synonym 'a fake = "FakeStore \<Rightarrow> (go_error + 'a) \<times> FakeStore"

text \<open>An injected error is returned before the operation does its work.\<close>

definition injected :: "go_error option \<Rightarrow> 'a fake \<Rightarrow> 'a fake" where
  "injected err m f = (case err of Some e \<Rightarrow> (Inl e, f) | None \<Rightarrow> m f)"

definition fake_SaveReports :: "ReportInput list \<Rightarrow> unit fake" where
  "fake_SaveReports inputs f =
     injected (SaveReportsErr f) (\<lambda>f. (Inr (),
       f\<lparr>Reports := fold (\<lambda>input. AList.update (ReportID (input_Report input)) (input_Report input)) inputs (Reports f)\<rparr>))
       (f\<lparr>SaveReportsCallCount := SaveReportsCallCount f + 1\<rparr>)"

definition add_meta :: "EmailMeta \<Rightarrow> (emailKey \<times> FakeEmailEntry) list \<Rightarrow> (emailKey \<times> FakeEmailEntry) list" where
  "add_meta meta emails =
     (let key = (meta_UID meta, meta_UIDValidity meta) in
      if map_of emails key \<noteq> None then emails
      else AList.update key \<lparr>fake_UID = meta_UID meta, fake_UIDValidity = meta_UIDValidity meta, fake_InternalDate = meta_InternalDate meta, fake_RawEML = None\<rparr> emails)"

definition fake_SaveEmailMetas :: "EmailMeta list \<Rightarrow> unit fake" where
  "fake_SaveEmailMetas metas f =
     injected (SaveEmailMetasErr f) (\<lambda>f.
       if list_ex (\<lambda>meta. IsZero (meta_InternalDate meta)) metas then (Inl ErrZeroInternalDate, f)
       else (Inr (), f\<lparr>fake_Emails := fold add_meta metas (fake_Emails f)\<rparr>))
       (f\<lparr>SaveEmailMetasCallCount := SaveEmailMetasCallCount f + 1\<rparr>)"

definition fake_GetAllReports :: "Report list fake" where
  "fake_GetAllReports f = (Inr (sort_key ReportID (map snd (Reports f))), f)"

definition fake_SaveEmail :: "u32 \<Rightarrow> u32 \<Rightarrow> gotime \<Rightarrow> string \<Rightarrow> unit fake" where
  "fake_SaveEmail uid uidValidity internalDate rawEML f =
     (if IsZero internalDate then (Inl ErrZeroInternalDate, f)
      else case map_of (fake_Emails f) (uid, uidValidity) of
        Some existing \<Rightarrow>
          if fake_RawEML existing \<noteq> None then (Inr (), f)
          else (Inr (), f\<lparr>fake_Emails := AList.update (uid, uidValidity) (existing\<lparr>fake_InternalDate := internalDate, fake_RawEML := Some rawEML\<rparr>) (fake_Emails f)\<rparr>)
      | None \<Rightarrow>
          (Inr (), f\<lparr>fake_Emails := AList.update (uid, uidValidity)
             \<lparr>fake_UID = uid, fake_UIDValidity = uidValidity, fake_InternalDate = internalDate, fake_RawEML = Some rawEML\<rparr> (fake_Emails f)\<rparr>))"

text \<open>The loop of \<^verbatim>\<open>LoadEmails\<close>: entries without a mail are skipped, unreadable ones collected.\<close>

fun fake_load_loop :: "(string \<Rightarrow> 'msg option) \<Rightarrow> FakeEmailEntry list \<Rightarrow> 'msg LoadedEmail list \<times> go_error list" where
  "fake_load_loop readMessage [] = ([], [])"
| "fake_load_loop readMessage (entry # entries) =
     (let (result, errs) = fake_load_loop readMessage entries in
      case fake_RawEML entry of
        None \<Rightarrow> (result, errs)
      | Some raw \<Rightarrow>
          (case readMessage raw of
             None \<Rightarrow> (result, ErrLoadEmailFailed [dec_string (unat (fake_UIDValidity entry)), dec_string (unat (fake_UID entry))]
                       (fake_UID entry) (fake_UIDValidity entry) ErrMessageUnreadable # errs)
           | Some msg \<Rightarrow> (\<lparr>loaded_Message = msg, loaded_UID = fake_UID entry, loaded_UIDValidity = fake_UIDValidity entry,
                loaded_InternalDate = fake_InternalDate entry,
                loaded_Path = [dec_string (unat (fake_UIDValidity entry)), email_month (fake_InternalDate entry), email_file (fake_UID entry)]\<rparr> # result, errs)))"

definition fake_LoadEmails :: "(string \<Rightarrow> 'msg option) \<Rightarrow> ('msg LoadedEmail list \<times> go_error list) fake" where
  "fake_LoadEmails readMessage f =
     injected (LoadEmailsErr f) (\<lambda>f.
       let (result, errs) = fake_load_loop readMessage (map snd (fake_Emails f)) in
       (Inr (sort_key loaded_UIDValidity (sort_key loaded_UID result), errs), f))
       (f\<lparr>LoadEmailsCallCount := LoadEmailsCallCount f + 1\<rparr>)"

definition fake_SaveUIDValidity :: "u32 \<Rightarrow> unit fake" where
  "fake_SaveUIDValidity v f = (Inr (), f\<lparr>fake_Validity := Some v\<rparr>)"

definition fake_LoadUIDValidity :: "u32 option fake" where
  "fake_LoadUIDValidity f = (Inr (fake_Validity f), f)"

definition fake_SaveRecoveryRequired :: "u32 \<Rightarrow> u32 \<Rightarrow> gotime \<Rightarrow> unit fake" where
  "fake_SaveRecoveryRequired p c t f = (Inr (), f\<lparr>Recovery := Some \<lparr>Prev = p, Curr = c, fake_DetectedAt = t\<rparr>\<rparr>)"

definition recovery_triple :: "FakeRecovery \<Rightarrow> u32 \<times> u32 \<times> gotime" where
  "recovery_triple r = (Prev r, Curr r, fake_DetectedAt r)"

definition fake_LoadRecoveryRequired :: "(u32 \<times> u32 \<times> gotime) option fake" where
  "fake_LoadRecoveryRequired f = injected (LoadRecoveryRequiredErr f) (\<lambda>f. (Inr (map_option recovery_triple (Recovery f)), f)) f"

definition fake_ClearRecoveryRequired :: "unit fake" where
  "fake_ClearRecoveryRequired f = (Inr (), f\<lparr>Recovery := None\<rparr>)"

definition fake_ApplyRecovery :: "u32 \<Rightarrow> unit fake" where
  "fake_ApplyRecovery newUIDValidity f =
     injected (ApplyRecoveryErr f) (\<lambda>f. (Inr (), f\<lparr>fake_Validity := Some newUIDValidity, Recovery := None\<rparr>))
       (f\<lparr>ApplyRecoveryCallCount := ApplyRecoveryCallCount f + 1\<rparr>)"

definition fake_DeleteReportsBefore :: "gotime \<Rightarrow> int fake" where
  "fake_DeleteReportsBefore cutoff f =
     injected (DeleteReportsBeforeErr f) (\<lambda>f.
       (Inr (int (length (filter (\<lambda>(id, r). ended_before cutoff r) (Reports f)))), f\<lparr>Reports := filter (\<lambda>(id, r). \<not> ended_before cutoff r) (Reports f)\<rparr>))
       (f\<lparr>DeleteReportsBeforeCallCount := DeleteReportsBeforeCallCount f + 1, DeleteReportsCutoff := cutoff\<rparr>)"

definition fake_DeleteEmailsBefore :: "gotime \<Rightarrow> int fake" where
  "fake_DeleteEmailsBefore cutoff f =
     injected (DeleteEmailsBeforeErr f) (\<lambda>f.
       (Inr (int (length (filter (\<lambda>(key, entry). fake_InternalDate entry < cutoff) (fake_Emails f)))),
        f\<lparr>fake_Emails := filter (\<lambda>(key, entry). \<not> fake_InternalDate entry < cutoff) (fake_Emails f)\<rparr>))
       (f\<lparr>DeleteEmailsBeforeCallCount := DeleteEmailsBeforeCallCount f + 1, DeleteEmailsCutoff := cutoff\<rparr>)"

definition fake_CountReportsBefore :: "gotime \<Rightarrow> int fake" where
  "fake_CountReportsBefore cutoff f = (Inr (int (length (filter (\<lambda>(id, r). ended_before cutoff r) (Reports f)))), f)"

definition fake_CountEmailsBefore :: "gotime \<Rightarrow> int fake" where
  "fake_CountEmailsBefore cutoff f =
     (if IsZero cutoff then (Inr 0, f)
      else (Inr (int (length (filter (\<lambda>(key, entry). fake_InternalDate entry < cutoff) (fake_Emails f)))), f))"

definition fake_ResetForRecovery :: "u32 \<Rightarrow> unit fake" where
  "fake_ResetForRecovery currUIDValidity f =
     injected (ResetForRecoveryErr f) (\<lambda>f. case Recovery f of
         None \<Rightarrow> if PendingReset f then (Inr (), f\<lparr>PendingReset := False\<rparr>) else (Inl ErrRecoveryRequiredMissing, f)
       | Some rs \<Rightarrow>
           if Curr rs \<noteq> currUIDValidity then (Inl (ErrRecoveryUIDValidityMismatch currUIDValidity (Curr rs)), f)
           else (Inr (), f\<lparr>Reports := [], fake_Emails := [], fake_Validity := Some currUIDValidity, Recovery := None, PendingReset := False\<rparr>))
       (f\<lparr>ResetForRecoveryCallCount := ResetForRecoveryCallCount f + 1\<rparr>)"

definition fake_HasPendingReset :: "bool fake" where
  "fake_HasPendingReset f = injected (HasPendingResetErr f) (\<lambda>f. (Inr (PendingReset f), f)) f"

record FakeSummaryConsistencyGuard =
  RecoveryRequiredFound :: bool
  CheckError :: "go_error option"
  Closed :: bool

definition fake_AcquireSummaryConsistencyGuard :: "FakeSummaryConsistencyGuard fake" where
  "fake_AcquireSummaryConsistencyGuard f =
     injected (AcquireSummaryConsistencyGuardErr f) (\<lambda>f. (Inr \<lparr>RecoveryRequiredFound = Recovery f \<noteq> None, CheckError = None, Closed = False\<rparr>, f)) f"

definition fake_CheckRecoveryRequired :: "FakeSummaryConsistencyGuard \<Rightarrow> go_error + bool" where
  "fake_CheckRecoveryRequired g = (case CheckError g of Some e \<Rightarrow> Inl e | None \<Rightarrow> Inr (RecoveryRequiredFound g))"

definition fake_Close :: "FakeSummaryConsistencyGuard \<Rightarrow> (go_error + unit) \<times> FakeSummaryConsistencyGuard" where
  "fake_Close g = (Inr (), g\<lparr>Closed := True\<rparr>)"

section \<open>Tables that agree\<close>

text \<open>A table of the double and a list with unique keys in the data file, compared by what \<open>f\<close> and \<open>g\<close> read off their entries.\<close>

definition agrees :: "('b \<Rightarrow> 'k) \<Rightarrow> ('a \<Rightarrow> 'c) \<Rightarrow> ('b \<Rightarrow> 'c) \<Rightarrow> ('k \<times> 'a) list \<Rightarrow> 'b list \<Rightarrow> bool" where
  "agrees key f g xs ys \<longleftrightarrow> distinct (map fst xs) \<and> distinct (map key ys)
     \<and> (\<forall>k. map_option f (map_of xs k) = map_option g (map_of (map (\<lambda>y. (key y, y)) ys) k))"

lemma agrees_pairs:
  assumes "agrees key f g xs ys"
  shows "mset (map (\<lambda>x. (fst x, f (snd x))) xs) = mset (map (\<lambda>y. (key y, g y)) ys)"
proof -
  let ?xs = "map (\<lambda>x. (fst x, f (snd x))) xs" and ?ys = "map (\<lambda>y. (key y, g y)) ys"
  have dx: "distinct (map fst ?xs)" and dy: "distinct (map fst ?ys)" using assms by (simp_all add: agrees_def comp_def)
  have "map_of ?xs k = map_option f (map_of xs k)" for k by (induction xs) auto
  moreover have "map_of ?ys k = map_option g (map_of (map (\<lambda>y. (key y, y)) ys) k)" for k by (induction ys) auto
  ultimately have "map_of ?xs = map_of ?ys" using assms by (auto simp: agrees_def)
  then have "p \<in> set ?xs \<longleftrightarrow> p \<in> set ?ys" for p
    using map_of_eq_Some_iff [OF dx, of "fst p" "snd p"] map_of_eq_Some_iff [OF dy, of "fst p" "snd p"] by simp
  then have "set ?xs = set ?ys" by blast
  moreover have "distinct ?xs" "distinct ?ys" using dx dy unfolding distinct_map [of fst] by blast+
  ultimately show ?thesis by (metis set_eq_iff_mset_eq_distinct)
qed

lemma agrees_length:
  assumes "agrees key f g xs ys"
  shows "length (filter (\<lambda>x. P (f (snd x))) xs) = length (filter (\<lambda>y. P (g y)) ys)"
proof -
  have "size (mset (filter (\<lambda>p. P (snd p)) (map (\<lambda>x. (fst x, f (snd x))) xs))) = size (mset (filter (\<lambda>p. P (snd p)) (map (\<lambda>y. (key y, g y)) ys)))"
    by (simp only: mset_filter agrees_pairs [OF assms])
  then show ?thesis unfolding size_mset filter_map by (simp add: comp_def)
qed

lemma map_of_filter_distinct: "distinct (map fst xs) \<Longrightarrow>
    map_of (filter Q xs) k = (case map_of xs k of Some a \<Rightarrow> if Q (k, a) then Some a else None | None \<Rightarrow> None)"
  by (induction xs) (auto simp: map_of_eq_None_iff split: option.split)

lemma agrees_filter:
  assumes "agrees key f g xs ys"
  shows "agrees key f g (filter (\<lambda>x. P (f (snd x))) xs) (filter (\<lambda>y. P (g y)) ys)"
proof -
  have d: "distinct (map fst xs)" "distinct (map key ys)" using assms by (simp_all add: agrees_def)
  have tab: "map (\<lambda>y. (key y, y)) (filter (\<lambda>y. P (g y)) ys) = filter (\<lambda>p. P (g (snd p))) (map (\<lambda>y. (key y, y)) ys)" by (simp add: filter_map comp_def)
  have dy: "distinct (map fst (map (\<lambda>y. (key y, y)) ys))" using d(2) by (simp add: comp_def)
  have "map_option f (map_of (filter (\<lambda>x. P (f (snd x))) xs) k) = map_option g (map_of (map (\<lambda>y. (key y, y)) (filter (\<lambda>y. P (g y)) ys)) k)" for k
  proof -
    have "map_option f (map_of xs k) = map_option g (map_of (map (\<lambda>y. (key y, y)) ys) k)" using assms by (simp add: agrees_def)
    then show ?thesis
      unfolding tab map_of_filter_distinct [OF d(1)] map_of_filter_distinct [OF dy]
      by (cases "map_of xs k"; cases "map_of (map (\<lambda>y. (key y, y)) ys) k") auto
  qed
  with d show ?thesis by (simp add: agrees_def distinct_map_filter)
qed

lemma agrees_upsert:
  assumes "agrees ReportID id id xs ys"
  shows "agrees ReportID id id (AList.update (ReportID r) r xs) (upsert ys r)"
proof -
  have d: "distinct (map ReportID ys)" "distinct (map fst xs)" using assms by (simp_all add: agrees_def)
  show ?thesis
    using assms reports.keys [OF d(1)] reports.lookup [OF d(1)] distinct_update [OF d(2)]
    by (simp add: agrees_def update_conv' option.map_id)
qed

lemma agrees_key: "agrees key f g xs ys \<Longrightarrow> map_of xs k = None \<longleftrightarrow> k \<notin> set (map key ys)"
proof -
  assume "agrees key f g xs ys"
  then have "map_option f (map_of xs k) = map_option g (map_of (map (\<lambda>y. (key y, y)) ys) k)" by (simp add: agrees_def)
  then have "map_of xs k = None \<longleftrightarrow> map_of (map (\<lambda>y. (key y, y)) ys) k = None" by (cases "map_of xs k"; cases "map_of (map (\<lambda>y. (key y, y)) ys) k") auto
  also have "\<dots> \<longleftrightarrow> k \<notin> set (map key ys)" by (simp add: map_of_eq_None_iff image_image)
  finally show ?thesis .
qed

lemma agrees_add_meta:
  assumes "agrees entry_key fake_InternalDate entry_InternalDate xs ys"
  shows "agrees entry_key fake_InternalDate entry_InternalDate (add_meta meta xs) (add_entry ys (entry_of_meta meta))"
proof -
  let ?k = "(meta_UID meta, meta_UIDValidity meta)"
  have k: "entry_key (entry_of_meta meta) = ?k" "entry_InternalDate (entry_of_meta meta) = meta_InternalDate meta"
    by (simp_all add: entry_key_def entry_of_meta_def)
  have d: "distinct (map entry_key ys)" "distinct (map fst xs)" using assms by (simp_all add: agrees_def)
  show ?thesis
  proof (cases "map_of xs ?k")
    case None
    then have new: "?k \<notin> set (map entry_key ys)" using agrees_key [OF assms] by blast
    have keys: "distinct (map entry_key (add_entry ys (entry_of_meta meta)))" using metas.keys [OF d(1)] by blast
    have look: "map_of (map (\<lambda>x. (entry_key x, x)) (add_entry ys (entry_of_meta meta))) k =
        (if k = ?k then Some (entry_of_meta meta) else map_of (map (\<lambda>x. (entry_key x, x)) ys) k)" for k
      using metas.lookup [OF d(1), of "entry_of_meta meta" k] new by (simp add: k)
    let ?e = "\<lparr>fake_UID = meta_UID meta, fake_UIDValidity = meta_UIDValidity meta, fake_InternalDate = meta_InternalDate meta, fake_RawEML = None\<rparr>"
    have step: "add_meta meta xs = AList.update ?k ?e xs" unfolding add_meta_def Let_def None by simp
    show ?thesis
      using assms distinct_update [OF d(2)] keys unfolding step agrees_def look by (simp add: update_conv' k)
  next
    case (Some e)
    then have "entry_key (entry_of_meta meta) \<in> set (map entry_key ys)" using agrees_key [OF assms, of ?k] by (simp add: k)
    then have "add_entry ys (entry_of_meta meta) = ys" by (simp add: add_entry_def)
    moreover have "add_meta meta xs = xs" unfolding add_meta_def Let_def Some by simp
    ultimately show ?thesis using assms by simp
  qed
qed

lemma agrees_batches:
  "agrees ReportID id id xs ys \<Longrightarrow> agrees ReportID id id (fold (\<lambda>i. AList.update (ReportID (input_Report i)) (input_Report i)) inputs xs) (foldl upsert ys (map input_Report inputs))"
  "agrees entry_key fake_InternalDate entry_InternalDate es fs' \<Longrightarrow>
   agrees entry_key fake_InternalDate entry_InternalDate (fold add_meta ms es) (foldl add_entry fs' (map entry_of_meta ms))"
proof -
  show "agrees ReportID id id xs ys \<Longrightarrow> agrees ReportID id id (fold (\<lambda>i. AList.update (ReportID (input_Report i)) (input_Report i)) inputs xs) (foldl upsert ys (map input_Report inputs))"
    by (induction inputs arbitrary: xs ys) (simp_all add: agrees_upsert)
  show "agrees entry_key fake_InternalDate entry_InternalDate es fs' \<Longrightarrow>
   agrees entry_key fake_InternalDate entry_InternalDate (fold add_meta ms es) (foldl add_entry fs' (map entry_of_meta ms))"
    by (induction ms arbitrary: es fs') (simp_all add: agrees_add_meta)
qed

section \<open>Operations and their results\<close>

datatype store_op = op_SaveReports "ReportInput list" | op_SaveEmailMetas "EmailMeta list" | op_GetAllReports
  | op_DeleteReportsBefore gotime | op_CountReportsBefore gotime | op_CountEmailsBefore gotime | op_SaveUIDValidity u32 | op_LoadUIDValidity
  | op_SaveRecoveryRequired u32 u32 gotime | op_LoadRecoveryRequired | op_ClearRecoveryRequired | op_ApplyRecovery u32 | op_HasPendingReset

text \<open>The order of the reports that are read is left open by the interface.\<close>

datatype op_result = Done | Counted int | FoundReports "Report set" | FoundValidity "u32 option" | FoundRecovery "(u32 \<times> u32 \<times> gotime) option" | FoundPending bool

definition giving :: "('a \<Rightarrow> op_result) \<Rightarrow> 'a store_io \<Rightarrow> op_result store_io" where
  "giving g m = bindIO m (\<lambda>a. ret (g a))"

fun file_op :: "fileStore \<Rightarrow> store_op \<Rightarrow> op_result store_io" where
  "file_op s (op_SaveReports inputs) = giving (\<lambda>_. Done) (SaveReports s inputs)"
| "file_op s (op_SaveEmailMetas metas) = giving (\<lambda>_. Done) (SaveEmailMetas s metas)"
| "file_op s op_GetAllReports = giving (\<lambda>rs. FoundReports (set rs)) (GetAllReports s)"
| "file_op s (op_DeleteReportsBefore cutoff) = giving Counted (DeleteReportsBefore s cutoff)"
| "file_op s (op_CountReportsBefore cutoff) = giving Counted (CountReportsBefore s cutoff)"
| "file_op s (op_CountEmailsBefore cutoff) = giving Counted (CountEmailsBefore s cutoff)"
| "file_op s (op_SaveUIDValidity v) = giving (\<lambda>_. Done) (SaveUIDValidity s v)"
| "file_op s op_LoadUIDValidity = giving FoundValidity (LoadUIDValidity s)"
| "file_op s (op_SaveRecoveryRequired p c t) = giving (\<lambda>_. Done) (SaveRecoveryRequired s p c t)"
| "file_op s op_LoadRecoveryRequired = giving FoundRecovery (LoadRecoveryRequired s)"
| "file_op s op_ClearRecoveryRequired = giving (\<lambda>_. Done) (ClearRecoveryRequired s)"
| "file_op s (op_ApplyRecovery v) = giving (\<lambda>_. Done) (ApplyRecovery s v)"
| "file_op s op_HasPendingReset = giving FoundPending (HasPendingReset s)"

definition fake_giving :: "('a \<Rightarrow> op_result) \<Rightarrow> 'a fake \<Rightarrow> op_result fake" where
  "fake_giving g m f = (case m f of (Inl e, f') \<Rightarrow> (Inl e, f') | (Inr a, f') \<Rightarrow> (Inr (g a), f'))"

fun fake_op :: "store_op \<Rightarrow> op_result fake" where
  "fake_op (op_SaveReports inputs) = fake_giving (\<lambda>_. Done) (fake_SaveReports inputs)"
| "fake_op (op_SaveEmailMetas metas) = fake_giving (\<lambda>_. Done) (fake_SaveEmailMetas metas)"
| "fake_op op_GetAllReports = fake_giving (\<lambda>rs. FoundReports (set rs)) fake_GetAllReports"
| "fake_op (op_DeleteReportsBefore cutoff) = fake_giving Counted (fake_DeleteReportsBefore cutoff)"
| "fake_op (op_CountReportsBefore cutoff) = fake_giving Counted (fake_CountReportsBefore cutoff)"
| "fake_op (op_CountEmailsBefore cutoff) = fake_giving Counted (fake_CountEmailsBefore cutoff)"
| "fake_op (op_SaveUIDValidity v) = fake_giving (\<lambda>_. Done) (fake_SaveUIDValidity v)"
| "fake_op op_LoadUIDValidity = fake_giving FoundValidity fake_LoadUIDValidity"
| "fake_op (op_SaveRecoveryRequired p c t) = fake_giving (\<lambda>_. Done) (fake_SaveRecoveryRequired p c t)"
| "fake_op op_LoadRecoveryRequired = fake_giving FoundRecovery fake_LoadRecoveryRequired"
| "fake_op op_ClearRecoveryRequired = fake_giving (\<lambda>_. Done) fake_ClearRecoveryRequired"
| "fake_op (op_ApplyRecovery v) = fake_giving (\<lambda>_. Done) (fake_ApplyRecovery v)"
| "fake_op op_HasPendingReset = fake_giving FoundPending fake_HasPendingReset"

section \<open>Sequences of operations\<close>

text \<open>Between two operations the schedule of faults and the clock may change, the files stay.\<close>

inductive runs :: "('op \<Rightarrow> ('c, 'r) io) \<Rightarrow> 'c world \<Rightarrow> ('op \<times> 'r outcome) list \<Rightarrow> 'c world \<Rightarrow> bool" for step where
  runs_none: "fs w' = fs w \<Longrightarrow> runs step w [] w'"
| runs_op: "fs w1 = fs w \<Longrightarrow> step op w1 = (r, w2) \<Longrightarrow> runs step w2 es w' \<Longrightarrow> runs step w ((op, r) # es) w'"

text \<open>A sequence of outcomes that a specification explains: what succeeded gave the specified result, what failed did nothing, what died did all or nothing.\<close>

inductive explained :: "('op \<Rightarrow> 'f \<Rightarrow> (go_error + 'r) \<times> 'f) \<Rightarrow> 'f \<Rightarrow> ('op \<times> 'r outcome) list \<Rightarrow> 'f \<Rightarrow> bool" for spec where
  explained_none: "explained spec f [] f"
| explained_ok: "spec op f = (Inr a, f1) \<Longrightarrow> explained spec f1 es f' \<Longrightarrow> explained spec f ((op, Ok a) # es) f'"
| explained_error: "explained spec f es f' \<Longrightarrow> explained spec f ((op, Err e) # es) f'"
| explained_crash: "f1 = f \<or> (\<exists>a. spec op f = (Inr a, f1)) \<Longrightarrow> explained spec f1 es f' \<Longrightarrow> explained spec f ((op, Crashed) # es) f'"

text \<open>A step relation on files that refines a specification, with single steps that are atomic under crashes.\<close>

locale atomic_refinement =
  fixes step :: "'op \<Rightarrow> (content, 'r) io" and spec :: "'op \<Rightarrow> 'f \<Rightarrow> (go_error + 'r) \<times> 'f" and R :: "'f \<Rightarrow> store_view \<Rightarrow> bool"
  assumes simulates: "R f V \<Longrightarrow> vwp False (step op) (\<lambda>a V'. \<exists>f'. spec op f = (Inr a, f') \<and> R f' V') (\<lambda>e. R f)
    (\<lambda>V'. R f V' \<or> (\<exists>a f'. spec op f = (Inr a, f') \<and> R f' V')) V"
begin

lemma one_step:
  assumes "R f (view w)" "step op w = (r, w')"
  shows "\<exists>f1. R f1 (view w') \<and> (\<forall>es f'. explained spec f1 es f' \<longrightarrow> explained spec f ((op, r) # es) f')"
  using vwp_cases [OF simulates [OF assms(1)] _ assms(2)]
  by (cases r) (auto simp: quiet_def intro: explained_ok explained_error explained_crash)

lemma sequences: "runs step w es w' \<Longrightarrow> R f (view w) \<Longrightarrow> \<exists>f'. explained spec f es f' \<and> R f' (view w')"
proof (induction arbitrary: f rule: runs.induct)
  case (runs_none w' w)
  then show ?case using explained_none [of spec f] by auto
next
  case (runs_op w1 w op r w2 es w')
  then have "R f (view w1)" by simp
  from one_step [OF this runs_op(2)] runs_op.IH show ?case by blast
qed

end

section \<open>The file store against the double\<close>

definition uninjected :: "FakeStore \<Rightarrow> bool" where
  "uninjected f \<longleftrightarrow> SaveReportsErr f = None \<and> SaveEmailMetasErr f = None \<and> DeleteReportsBeforeErr f = None \<and> LoadRecoveryRequiredErr f = None
     \<and> HasPendingResetErr f = None \<and> ApplyRecoveryErr f = None \<and> \<not> PendingReset f"

definition recovery_state :: "internalRecoveryState \<Rightarrow> u32 \<times> u32 \<times> gotime" where
  "recovery_state rs = (PrevUIDValidity rs, CurrUIDValidity rs, DetectedAt rs)"

definition same_data :: "FakeStore \<Rightarrow> internalDataFile \<Rightarrow> bool" where
  "same_data f df \<longleftrightarrow> agrees ReportID id id (Reports f) (df_Reports df) \<and> agrees entry_key fake_InternalDate entry_InternalDate (fake_Emails f) (df_Emails df)"

definition same_sentinel :: "FakeStore \<Rightarrow> internalSentinelFile \<Rightarrow> bool" where
  "same_sentinel f x \<longleftrightarrow> FormatVersion x = SentinelFormatVersion \<and> UIDValidity x = fake_Validity f
     \<and> map_option recovery_state (RecoveryRequired x) = map_option recovery_triple (Recovery f)"

text \<open>Files that show what the double holds: the tables, the validity and the recovery state; no reset is in progress.\<close>

definition mirrors :: "fileStore \<Rightarrow> FakeStore \<Rightarrow> store_view \<Rightarrow> bool" where
  "mirrors s f V \<longleftrightarrow> uninjected f \<and> reset_pending (rootDir s) V = Some False \<and> (\<exists>df. data_of s V = Some df \<and> same_data f df)
     \<and> (\<exists>m x. V (sentinelPath (rootDir s)) = Some (Reg m (CSentinel x)) \<and> same_sentinel f x)"

lemma reset_pending_cong:
  assumes "V' (resetManifestPath root) = V (resetManifestPath root)" "\<And>q. strict_prefix q (resetManifestPath root) \<Longrightarrow> V' q = V q"
  shows "reset_pending root V' = reset_pending root V"
proof -
  have "strict_prefix q (resetManifestPath root) \<Longrightarrow> file_at V' q = file_at V q" for q using assms(2) by (simp add: file_at_def)
  then have "v_absent_errno V' (resetManifestPath root) = v_absent_errno V (resetManifestPath root)"
    unfolding v_absent_errno_def by (metis (no_types))
  with assms(1) show ?thesis by (simp add: reset_pending_def)
qed

text \<open>Files of the root directory do not lie below each other.\<close>

lemma sibling_not_prefix: "\<not> strict_prefix (root @ [x]) (root @ [y :: string])"
  by (auto dest: prefix_length_less)

lemma mirrors_put:
  assumes "standard_store s" "mirrors s f V" "df_Version df = DataFileVersion" "same_data f' df" "uninjected f'" "fake_Validity f' = fake_Validity f" "Recovery f' = Recovery f"
  shows "mirrors s f' (put_data s df V)"
proof -
  have d: "dataPath s = rootDir s @ [''tlsrpt.json'']" using assms(1) by (simp add: standard_store_def path_defs)
  have "reset_pending (rootDir s) (put_data s df V) = reset_pending (rootDir s) V"
    by (rule reset_pending_cong) (auto simp: put_data_def d path_defs dest: prefix_length_less)
  moreover have "put_data s df V (sentinelPath (rootDir s)) = V (sentinelPath (rootDir s))" by (simp add: put_data_def d path_defs)
  moreover have "data_of s (put_data s df V) = Some df" using assms(3) by (simp add: put_data_def data_of_def)
  ultimately show ?thesis using assms by (auto simp: mirrors_def same_sentinel_def)
qed

lemma mirrors_sentinel:
  assumes "standard_store s" "mirrors s f V" "sentinel_now (rootDir s) (Some (Reg m (CSentinel x))) V V'" "same_sentinel f' x" "uninjected f'"
    "Reports f' = Reports f" "fake_Emails f' = fake_Emails f"
  shows "mirrors s f' V'"
proof -
  have d: "dataPath s = rootDir s @ [''tlsrpt.json'']" using assms(1) by (simp add: standard_store_def path_defs)
  have out: "V' q = V q" if "q \<noteq> sentinelPath (rootDir s)" "q \<noteq> guardFilePath (rootDir s)" for q using assms(3) that by (simp add: sentinel_now_def)
  have short: "V' q = V q" if "strict_prefix q (rootDir s @ [y])" for q y
    by (rule out) (use prefix_length_less [OF that] in \<open>auto simp: path_defs\<close>)
  have "data_of s V' = data_of s V" by (rule data_of_cong) (use out short d in \<open>simp_all add: path_defs\<close>)
  moreover have "reset_pending (rootDir s) V' = reset_pending (rootDir s) V"
    by (rule reset_pending_cong) (use out short in \<open>simp_all add: path_defs\<close>)
  moreover have "V' (sentinelPath (rootDir s)) = Some (Reg m (CSentinel x))" using assms(3) by (simp add: sentinel_now_def)
  ultimately show ?thesis using assms by (auto simp: mirrors_def same_data_def)
qed

lemma vwp_giving: "vwp calm m (\<lambda>a. Q (g a)) E C V \<Longrightarrow> vwp calm (giving g m) Q E C V"
  unfolding giving_def by (rule vwp_bind) (auto intro: vwp_conseq vwp_ret)

lemma mirrorsE:
  assumes "mirrors s f V"
  obtains df m x where "data_of s V = Some df" "reports_ok df" "emails_ok df" "same_data f df" "V (sentinelPath (rootDir s)) = Some (Reg m (CSentinel x))" "same_sentinel f x"
    "FormatVersion x = SentinelFormatVersion" "uninjected f" "reset_pending (rootDir s) V = Some False" "df_Version df = DataFileVersion"
proof -
  from assms obtain df m x where d: "data_of s V = Some df" "same_data f df" "V (sentinelPath (rootDir s)) = Some (Reg m (CSentinel x))" "same_sentinel f x"
    "uninjected f" "reset_pending (rootDir s) V = Some False" unfolding mirrors_def by blast
  moreover have "reports_ok df" "emails_ok df" using d(2) by (simp_all add: same_data_def agrees_def reports_ok_def emails_ok_def)
  moreover have "FormatVersion x = SentinelFormatVersion" using d(4) by (simp add: same_sentinel_def)
  ultimately show thesis using that data_of_version [OF d(1)] by blast
qed

lemma mirrors_same:
  assumes "mirrors s f V" "data_of s V = Some df" "same_data f' df" "uninjected f'" "fake_Validity f' = fake_Validity f" "Recovery f' = Recovery f"
  shows "mirrors s f' V"
  using assms by (auto simp: mirrors_def same_sentinel_def)

text \<open>What a simulated operation has to satisfy.\<close>

definition simulated :: "fileStore \<Rightarrow> FakeStore \<Rightarrow> store_op \<Rightarrow> store_view \<Rightarrow> bool" where
  "simulated s f op V \<longleftrightarrow> vwp False (file_op s op) (\<lambda>a V'. \<exists>f'. fake_op op f = (Inr a, f') \<and> mirrors s f' V') (\<lambda>e. mirrors s f)
     (\<lambda>V'. mirrors s f V' \<or> (\<exists>a f'. fake_op op f = (Inr a, f') \<and> mirrors s f' V')) V"

text \<open>An operation with one atomic effect, or none.\<close>

lemma simulatedI:
  assumes "file_op s op = giving g m" "vwp False m Q (\<lambda>_ V'. E V') C V"
    "\<And>a V'. Q a V' \<Longrightarrow> \<exists>f'. fake_op op f = (Inr (g a), f') \<and> mirrors s f' V'" "\<And>V'. E V' \<Longrightarrow> mirrors s f V'"
    "\<And>V'. C V' \<Longrightarrow> mirrors s f V' \<or> (\<exists>a f'. fake_op op f = (Inr a, f') \<and> mirrors s f' V')"
  shows "simulated s f op V"
  unfolding simulated_def assms(1) by (rule vwp_giving, rule vwp_conseq [OF assms(2)]) (use assms(3-) in blast)+

lemma simulates_SaveReports:
  assumes "mirrors s f V" "standard_store s"
  shows "simulated s f (op_SaveReports inputs) V"
proof (cases "readOnly s")
  case True
  show ?thesis by (rule simulatedI [where Q = "\<lambda>_ _. False" and E = "\<lambda>V'. V' = V" and C = "\<lambda>_. False"]) (use True assms(1) in \<open>auto simp: SaveReports_def intro!: vwp_fail\<close>)
next
  case False
  from assms(1) obtain df m x where df: "data_of s V = Some df" "reports_ok df" "same_data f df" "uninjected f" "df_Version df = DataFileVersion" by (rule mirrorsE)
  have "mirrors s (snd (fake_SaveReports inputs f)) (put_data s (save_reports df inputs) V)"
    using df agrees_batches(1) [of "Reports f" "df_Reports df" inputs]
    by (intro mirrors_put [OF assms(2,1)]) (auto simp: same_data_def uninjected_def fake_SaveReports_def injected_def save_reports_def)
  moreover have "fake_op (op_SaveReports inputs) f = (Inr Done, snd (fake_SaveReports inputs f))"
    using df(4) by (simp add: fake_giving_def fake_SaveReports_def injected_def uninjected_def)
  ultimately show ?thesis
    by (intro simulatedI [OF _ vwp_conseq [OF vwp_SaveReports [where calm = False, OF standard_paths(5) [OF assms(2)] False df(1,2)]]])
      (use assms(1) in auto)
qed

lemma simulated_refused:
  assumes "file_op s op = giving g m" "mirrors s f V" "vwp False m (\<lambda>_ _. False) (\<lambda>_ V'. V' = V) (\<lambda>V'. V' = V) V"
  shows "simulated s f op V"
  by (rule simulatedI [OF assms(1,3)]) (use assms(2) in auto)

lemma simulates_SaveEmailMetas:
  assumes "mirrors s f V" "standard_store s"
  shows "simulated s f (op_SaveEmailMetas metas) V"
proof -
  from assms(1) obtain df m x where df: "data_of s V = Some df" "same_data f df" "uninjected f" "df_Version df = DataFileVersion" by (rule mirrorsE)
  have new: "fake_op (op_SaveEmailMetas metas) f = (Inr Done, snd (fake_SaveEmailMetas metas f)) \<and> mirrors s (snd (fake_SaveEmailMetas metas f)) (put_data s (save_metas df metas) V)"
    if "list_all (\<lambda>m. \<not> IsZero (meta_InternalDate m)) metas"
  proof -
    have none: "\<not> list_ex (\<lambda>m. IsZero (meta_InternalDate m)) metas" using that by (simp add: list_ex_iff list_all_iff)
    then have "mirrors s (snd (fake_SaveEmailMetas metas f)) (put_data s (save_metas df metas) V)"
      using df agrees_batches(2) [of "fake_Emails f" "df_Emails df" metas]
      by (intro mirrors_put [OF assms(2,1)]) (auto simp: same_data_def uninjected_def fake_SaveEmailMetas_def injected_def save_metas_def)
    with none df(3) show ?thesis by (simp add: fake_giving_def fake_SaveEmailMetas_def injected_def uninjected_def)
  qed
  show ?thesis
  proof (cases "list_all (\<lambda>m. \<not> IsZero (meta_InternalDate m)) metas")
    case True
    from new [OF True] show ?thesis
      by (intro simulatedI [OF _ vwp_conseq [OF vwp_SaveEmailMetas [where calm = False, OF standard_paths(5) [OF assms(2)] df(1)]]]) (use assms(1) in auto)
  next
    case False
    have "vwp False (SaveEmailMetas s metas) (\<lambda>_ _. False) (\<lambda>_ V'. V' = V) (\<lambda>V'. V' = V) V"
      using False standard_paths(5) [OF assms(2)] unfolding SaveEmailMetas_def
      by (auto intro!: vc simp: save_metas_loop_fold list_ex_iff list_all_iff)
    then show ?thesis by (intro simulated_refused [OF _ assms(1)]) auto
  qed
qed

lemma fake_expired:
  assumes "same_data f df"
  shows "int (length (filter (\<lambda>(id, r). ended_before cutoff r) (Reports f))) = expired_reports cutoff df"
    "agrees ReportID id id (filter (\<lambda>(id, r). \<not> ended_before cutoff r) (Reports f)) (filter (\<lambda>r. \<not> ended_before cutoff r) (df_Reports df))"
proof -
  have a: "agrees ReportID id id (Reports f) (df_Reports df)" using assms by (simp add: same_data_def)
  show "int (length (filter (\<lambda>(id, r). ended_before cutoff r) (Reports f))) = expired_reports cutoff df"
    using agrees_length [OF a, of "ended_before cutoff"] by (simp add: expired_reports_def case_prod_beta')
  show "agrees ReportID id id (filter (\<lambda>(id, r). \<not> ended_before cutoff r) (Reports f)) (filter (\<lambda>r. \<not> ended_before cutoff r) (df_Reports df))"
    using agrees_filter [OF a, of "\<lambda>r. \<not> ended_before cutoff r"] by (simp add: case_prod_beta')
qed

lemma simulates_DeleteReportsBefore:
  assumes "mirrors s f V" "standard_store s"
  shows "simulated s f (op_DeleteReportsBefore cutoff) V"
proof (cases "readOnly s")
  case True
  then show ?thesis by (intro simulated_refused [OF _ assms(1)]) (auto simp: DeleteReportsBefore_def intro!: vwp_fail)
next
  case False
  from assms(1) obtain df m x where df: "data_of s V = Some df" "same_data f df" "uninjected f" "df_Version df = DataFileVersion" by (rule mirrorsE)
  let ?f' = "snd (fake_DeleteReportsBefore cutoff f)"
  have f': "uninjected ?f'" "fake_Validity ?f' = fake_Validity f" "Recovery ?f' = Recovery f" "same_data ?f' (delete_reports cutoff df)"
    using df(2,3) fake_expired(2) [OF df(2)] by (simp_all add: uninjected_def fake_DeleteReportsBefore_def injected_def same_data_def delete_reports_def)
  have "mirrors s ?f' (after_delete s cutoff df V)"
  proof (cases "expired_reports cutoff df = 0")
    case True
    then have "delete_reports cutoff df = df" by (simp add: expired_reports_def delete_reports_def filter_empty_conv)
    with True f' df(1) show ?thesis by (auto simp: after_delete_def intro: mirrors_same [OF assms(1)])
  next
    case False
    with f' df(4) show ?thesis by (simp add: after_delete_def) (rule mirrors_put [OF assms(2,1)], simp_all add: delete_reports_def)
  qed
  moreover have "fake_op (op_DeleteReportsBefore cutoff) f = (Inr (Counted (expired_reports cutoff df)), ?f')"
    using df(3) fake_expired(1) [OF df(2)] by (simp add: fake_giving_def fake_DeleteReportsBefore_def injected_def uninjected_def)
  ultimately show ?thesis
    by (intro simulatedI [where g = Counted, OF _ vwp_conseq [OF vwp_DeleteReportsBefore [where calm = False, OF standard_paths(5) [OF assms(2)] False df(1)]]]) (use assms(1) in auto)
qed

text \<open>Reading.\<close>

lemma simulated_read:
  assumes "file_op s op = giving g m" "mirrors s f V" "vwp False m (\<lambda>a V'. V' = V \<and> fake_op op f = (Inr (g a), f)) (\<lambda>_ V'. V' = V) (\<lambda>V'. V' = V) V"
  shows "simulated s f op V"
  by (rule simulatedI [OF assms(1,3)]) (use assms(2) in auto)

lemma simulates_reads:
  assumes "mirrors s f V" "standard_store s"
  shows "simulated s f op_GetAllReports V" "simulated s f (op_CountReportsBefore cutoff) V" "simulated s f (op_CountEmailsBefore cutoff) V"
    "simulated s f op_LoadUIDValidity V" "simulated s f op_LoadRecoveryRequired V" "simulated s f op_HasPendingReset V"
proof -
  from assms(1) obtain df m x where df: "data_of s V = Some df" "same_data f df" "emails_ok df"
    and x: "V (sentinelPath (rootDir s)) = Some (Reg m (CSentinel x))" "same_sentinel f x" "FormatVersion x = SentinelFormatVersion"
    and f: "uninjected f" "reset_pending (rootDir s) V = Some False" by (rule mirrorsE)
  note c = standard_paths(4,5) [OF assms(2)]
  have a: "agrees ReportID id id (Reports f) (df_Reports df)" "agrees entry_key fake_InternalDate entry_InternalDate (fake_Emails f) (df_Emails df)"
    using df(2) by (simp_all add: same_data_def)
  have "set (map (\<lambda>p. (fst p, snd p)) (Reports f)) = set (map (\<lambda>r. (ReportID r, r)) (df_Reports df))"
    using arg_cong [OF agrees_pairs [OF a(1)], of set_mset] by simp
  then have "snd ` set (map (\<lambda>p. (fst p, snd p)) (Reports f)) = snd ` set (map (\<lambda>r. (ReportID r, r)) (df_Reports df))" by (rule arg_cong)
  then have reps: "snd ` set (Reports f) = set (df_Reports df)" by (simp add: image_image)
  show "simulated s f op_GetAllReports V"
    by (rule simulated_read [OF _ assms(1)]) (use df(1) c reps in \<open>auto simp: GetAllReports_def fake_giving_def fake_GetAllReports_def intro!: vc\<close>)
  show "simulated s f (op_CountReportsBefore cutoff) V"
    by (rule simulated_read [OF _ assms(1)], simp, rule vwp_conseq [OF vwp_CountReportsBefore [where calm = False, OF c(2) df(1)]])
      (use fake_expired(1) [OF df(2)] in \<open>auto simp: fake_giving_def fake_CountReportsBefore_def\<close>)
  have count: "count_emails_loop cutoff es n = n + int (length (filter (\<lambda>e. entry_InternalDate e < cutoff) es))" for es n
    by (induction es arbitrary: n) auto
  show "simulated s f (op_CountEmailsBefore cutoff) V"
    by (rule simulated_read [OF _ assms(1)])
      (use df(1) c agrees_length [OF a(2), of "\<lambda>t. t < cutoff"] in \<open>auto simp: CountEmailsBefore_def fake_giving_def fake_CountEmailsBefore_def count case_prod_beta' intro!: vc\<close>)
  show "simulated s f op_LoadUIDValidity V"
    by (rule simulated_read [OF _ assms(1)], simp, unfold LoadUIDValidity_def, rule vwp_bind, rule vwp_mapErr, rule vwp_loadSentinel)
      (use c x in \<open>auto simp: fake_giving_def fake_LoadUIDValidity_def same_sentinel_def intro!: vc\<close>)
  have triple: "(\<lambda>rs. (PrevUIDValidity rs, CurrUIDValidity rs, DetectedAt rs)) = recovery_state" by (simp add: recovery_state_def fun_eq_iff)
  show "simulated s f op_LoadRecoveryRequired V"
    by (rule simulated_read [OF _ assms(1)], simp, unfold LoadRecoveryRequired_def triple, rule vwp_bind, rule vwp_mapErr, rule vwp_loadSentinel)
      (use c x f(1) in \<open>auto simp: fake_giving_def fake_LoadRecoveryRequired_def injected_def uninjected_def same_sentinel_def intro!: vc\<close>)
  show "simulated s f op_HasPendingReset V"
    by (rule simulated_read [OF _ assms(1)], simp, rule vwp_HasPendingReset)
      (use c f in \<open>auto simp: fake_giving_def fake_HasPendingReset_def injected_def uninjected_def\<close>)
qed

text \<open>Operations that rewrite the sentinel.\<close>

lemma simulated_sentinel:
  assumes "mirrors s f V" "standard_store s" "file_op s op = giving (\<lambda>_. Done) m"
    "\<And>k x. V (sentinelPath (rootDir s)) = Some (Reg k (CSentinel x)) \<Longrightarrow> FormatVersion x = SentinelFormatVersion \<Longrightarrow>
       vwp False m (\<lambda>_. sentinel_now (rootDir s) (Some (Reg 384 (CSentinel (h x)))) V) (\<lambda>_. sentinel_now (rootDir s) (Some (Reg k (CSentinel x))) V)
         (\<lambda>V'. sentinel_now (rootDir s) (Some (Reg k (CSentinel x))) V V' \<or> sentinel_now (rootDir s) (Some (Reg 384 (CSentinel (h x)))) V V') V"
    "fake_op op f = (Inr Done, f')" "\<And>x. same_sentinel f x \<Longrightarrow> same_sentinel f' (h x)" "uninjected f'" "Reports f' = Reports f" "fake_Emails f' = fake_Emails f"
  shows "simulated s f op V"
proof -
  from assms(1) obtain df k x where x: "V (sentinelPath (rootDir s)) = Some (Reg k (CSentinel x))" "same_sentinel f x" "FormatVersion x = SentinelFormatVersion"
    "uninjected f" by (rule mirrorsE)
  have old: "sentinel_now (rootDir s) (Some (Reg k (CSentinel x))) V V' \<Longrightarrow> mirrors s f V'" for V'
    by (rule mirrors_sentinel [OF assms(2,1) _ x(2,4)]) auto
  have new: "sentinel_now (rootDir s) (Some (Reg 384 (CSentinel (h x)))) V V' \<Longrightarrow> mirrors s f' V'" for V'
    by (rule mirrors_sentinel [OF assms(2,1) _ assms(6) [OF x(2)] assms(7-9)])
  show ?thesis by (rule simulatedI [OF assms(3) assms(4) [OF x(1,3)]]) (use old new assms(5) in auto)
qed

lemma simulates_sentinel:
  assumes "mirrors s f V" "standard_store s"
  shows "simulated s f (op_SaveUIDValidity v) V" "simulated s f (op_SaveRecoveryRequired p c t) V" "simulated s f op_ClearRecoveryRequired V"
    "simulated s f (op_ApplyRecovery v) V"
proof -
  have f: "uninjected f" using assms(1) by (simp add: mirrors_def)
  note s = standard_paths(4) [OF assms(2)] and defs = fake_giving_def same_sentinel_def uninjected_def injected_def
  show "simulated s f (op_SaveUIDValidity v) V"
    by (rule simulated_sentinel [OF assms, where h = "keep_recovery v" and f' = "f\<lparr>fake_Validity := Some v\<rparr>"], simp, erule uidvalidity.law [OF s])
      (use f in \<open>auto simp: defs fake_SaveUIDValidity_def keep_recovery_def\<close>)
  show "simulated s f (op_SaveRecoveryRequired p c t) V"
    by (rule simulated_sentinel [OF assms, where h = "with_recovery (p, c, t)" and f' = "f\<lparr>Recovery := Some \<lparr>Prev = p, Curr = c, fake_DetectedAt = t\<rparr>\<rparr>"], simp,
        erule recovery.law [OF s, where a = "(p, c, t)", simplified])
      (use f in \<open>auto simp: defs fake_SaveRecoveryRequired_def with_recovery_def recovery_state_def recovery_triple_def\<close>)
  show "simulated s f op_ClearRecoveryRequired V"
    by (rule simulated_sentinel [OF assms, where h = "without_recovery ()" and f' = "f\<lparr>Recovery := None\<rparr>"], simp, erule clearing.law [OF s])
      (use f in \<open>auto simp: defs fake_ClearRecoveryRequired_def without_recovery_def\<close>)
  show "simulated s f (op_ApplyRecovery v) V"
    by (rule simulated_sentinel [OF assms, where h = "recovered v" and f' = "snd (fake_ApplyRecovery v f)"], simp, erule applying.law [OF s])
      (use f in \<open>auto simp: defs fake_ApplyRecovery_def recovered_def\<close>)
qed

interpretation doubles: atomic_refinement "file_op s" fake_op "\<lambda>f V. standard_store s \<and> mirrors s f V" for s
proof unfold_locales
  fix f V op
  assume a: "standard_store s \<and> mirrors s f V"
  have "simulated s f op V"
    using a by (cases op) (simp_all add: simulates_SaveReports simulates_SaveEmailMetas simulates_DeleteReportsBefore simulates_reads simulates_sentinel)
  with a show "vwp False (file_op s op) (\<lambda>a V'. \<exists>f'. fake_op op f = (Inr a, f') \<and> standard_store s \<and> mirrors s f' V') (\<lambda>e V'. standard_store s \<and> mirrors s f V')
      (\<lambda>V'. standard_store s \<and> mirrors s f V' \<or> (\<exists>a f'. fake_op op f = (Inr a, f') \<and> standard_store s \<and> mirrors s f' V')) V"
    by (simp add: simulated_def)
qed

text \<open>
  C5. The file store refines the in-memory store: for every sequence of the operations that save, list, count and delete reports, save the metadata of mails,
  read and write the UIDVALIDITY and the recovery state and ask for a pending reset, under every schedule of faults and crashes, each operation that succeeds
  on the files returns what the in-memory store returns in the state reached so far, one that fails has changed nothing, and one during which the program died took
  effect as a whole or not at all; at the end the files still show the contents of the in-memory store.
\<close>

theorem file_store_refines_fake:
  assumes "runs (file_op s) w es w'" "standard_store s" "mirrors s f (view w)"
  shows "\<exists>f'. explained fake_op f es f' \<and> mirrors s f' (view w')"
  using doubles.sequences [OF assms(1)] assms(2,3) by blast

definition sample_fake :: FakeStore where
  "sample_fake = NewFakeStore\<lparr>fake_Validity := Some 1, Recovery := Some \<lparr>Prev = 1, Curr = 2, fake_DetectedAt = 7\<rparr>,
     fake_Emails := [((3, 1), \<lparr>fake_UID = 3, fake_UIDValidity = 1, fake_InternalDate = 9, fake_RawEML = None\<rparr>)]\<rparr>"

lemma sample_mirrors: "standard_store sample_store" "mirrors sample_store sample_fake (view sample_pending_world)"
  by (simp_all add: mirrors_def sample_fake_def NewFakeStore_def uninjected_def sample_store_def sample_pending_world_def sample_files_def sample_pending_def
      sample_sentinel_def path_defs visible_def SentinelFormatVersion_def data_of_def DataFileVersion_def same_data_def same_sentinel_def agrees_def entry_key_def
      recovery_state_def recovery_triple_def reset_pending_def v_absent_errno_def file_at_def standard_store_def)

text \<open>A report is saved, the recovery is applied, and the report is found.\<close>

theorem file_store_refines_fake_witness:
  "\<exists>w' f'. runs (file_op sample_store) sample_pending_world
       [(op_SaveReports [\<lparr>input_Report = sample_report 7 60, input_UID = 1, input_UIDValidity = 1\<rparr>], Ok Done), (op_ApplyRecovery 2, Ok Done),
        (op_GetAllReports, Ok (FoundReports {sample_report 7 60}))] w'
     \<and> explained fake_op sample_fake
         [(op_SaveReports [\<lparr>input_Report = sample_report 7 60, input_UID = 1, input_UIDValidity = 1\<rparr>], Ok Done), (op_ApplyRecovery 2, Ok Done),
          (op_GetAllReports, Ok (FoundReports {sample_report 7 60}))] f'
     \<and> mirrors sample_store f' (view w')"
proof -
  let ?i = "[\<lparr>input_Report = sample_report 7 60, input_UID = 1, input_UIDValidity = 1\<rparr>]"
  let ?w1 = "snd (file_op sample_store (op_SaveReports ?i) sample_pending_world)"
  let ?w2 = "snd (file_op sample_store (op_ApplyRecovery 2) ?w1)"
  let ?w3 = "snd (file_op sample_store op_GetAllReports ?w2)"
  have "fst (file_op sample_store (op_SaveReports ?i) sample_pending_world) = Ok Done" by code_simp
  moreover have "fst (file_op sample_store (op_ApplyRecovery 2) ?w1) = Ok Done" by code_simp
  moreover have "fst (file_op sample_store op_GetAllReports ?w2) = Ok (FoundReports {sample_report 7 60})" by code_simp
  ultimately have "runs (file_op sample_store) sample_pending_world [(op_SaveReports ?i, Ok Done), (op_ApplyRecovery 2, Ok Done),
      (op_GetAllReports, Ok (FoundReports {sample_report 7 60}))] ?w3"
    by (metis (no_types, lifting) prod.collapse runs_none runs_op)
  from this file_store_refines_fake [OF this sample_mirrors] show ?thesis by blast
qed

end
