(* ===== verification/Ci_Workflow.thy ===== *)
theory Ci_Workflow
  imports Go_Prelude
begin

text \<open>
  \<^verbatim>\<open>.github/scripts/verify-integration-workflow.go\<close>: the script that checks the workflow file of the repository. The YAML library and printing with \<^verbatim>\<open>%v\<close> are arguments; a fatal
  message ends the script with an error value. What it accepts is stated as a condition on the document.
\<close>

section \<open>Documents\<close>

text \<open>Values as the YAML library returns them: a mapping whose keys are not all strings is one from values to values.\<close>

datatype yaml = YNull | YBool bool | YInt int | YOther string | YString string | YList "yaml list" | YMap "(string \<times> yaml) list" | YAnyMap "(yaml \<times> yaml) list"

type_synonym yaml_map = "string \<rightharpoonup> yaml"

datatype ci_fail = ReadFailed | ParseFailed | KeyNotFound string | KeyNotMap string | KeyNotString string | EnvMissing string | TestHasServices
  | TestRunsIntegration string | NotificationCondition | Failed string

definition orFail :: "ci_fail + 'a \<Rightarrow> ('a \<Rightarrow> ci_fail + 'b) \<Rightarrow> ci_fail + 'b" where
  "orFail r k = (case r of Inl e \<Rightarrow> Inl e | Inr a \<Rightarrow> k a)"

text \<open>Keys that print alike overwrite each other, in the order of the visit.\<close>

fun toMap :: "(yaml \<Rightarrow> string) \<Rightarrow> yaml \<Rightarrow> yaml_map option" where
  "toMap sprint (YMap kvs) = Some (map_of kvs)"
| "toMap sprint (YAnyMap kvs) = Some (foldl (\<lambda>m (k, v). m(sprint k \<mapsto> v)) Map.empty kvs)"
| "toMap sprint _ = None"

definition mustMap :: "(yaml \<Rightarrow> string) \<Rightarrow> yaml_map \<Rightarrow> string \<Rightarrow> ci_fail + yaml_map" where
  "mustMap sprint m key = (case m key of
       None \<Rightarrow> Inl (KeyNotFound key)
     | Some v \<Rightarrow> (case toMap sprint v of None \<Rightarrow> Inl (KeyNotMap key) | Some res \<Rightarrow> Inr res))"

definition mustString :: "yaml_map \<Rightarrow> string \<Rightarrow> ci_fail + string" where
  "mustString m key = (case m key of
       None \<Rightarrow> Inl (KeyNotFound key)
     | Some (YString s) \<Rightarrow> Inr s
     | Some _ \<Rightarrow> Inl (KeyNotString key))"

fun asStringList :: "(yaml \<Rightarrow> string) \<Rightarrow> yaml option \<Rightarrow> string list" where
  "asStringList sprint (Some (YList items)) = map sprint items"
| "asStringList sprint (Some (YString s)) = [s]"
| "asStringList sprint _ = []"

fun asList :: "yaml option \<Rightarrow> yaml list" where
  "asList (Some (YList l)) = l"
| "asList _ = []"

definition assertContains :: "string list \<Rightarrow> string \<Rightarrow> string \<Rightarrow> ci_fail + unit" where
  "assertContains l substr msg = (if list_ex (\<lambda>s. contains_str s substr) l then Inr () else Inl (Failed msg))"

definition assertEqual :: "string \<Rightarrow> string \<Rightarrow> string \<Rightarrow> ci_fail + unit" where
  "assertEqual got want msg = (if got \<noteq> want then Inl (Failed msg) else Inr ())"

text \<open>The \<^verbatim>\<open>run\<close> field of a step, the empty string when there is none; a step that is no mapping is a nil map.\<close>

definition stepRun :: "(yaml \<Rightarrow> string) \<Rightarrow> yaml \<Rightarrow> string" where
  "stepRun sprint s = (case toMap sprint s of
       None \<Rightarrow> []
     | Some sm \<Rightarrow> (case sm ''run'' of Some (YString run) \<Rightarrow> run | _ \<Rightarrow> []))"

definition assertStepRuns :: "(yaml \<Rightarrow> string) \<Rightarrow> yaml_map \<Rightarrow> string \<Rightarrow> string \<Rightarrow> ci_fail + unit" where
  "assertStepRuns sprint job runSubstr msg =
     (if list_ex (\<lambda>s. contains_str (stepRun sprint s) runSubstr) (asList (job ''steps'')) then Inr () else Inl (Failed msg))"

section \<open>The checks\<close>

definition testEnvKeys :: "string list" where
  "testEnvKeys = [''IMAP_TEST_HOST'', ''IMAP_TEST_PORT'', ''IMAP_TEST_SMTP_HOST'', ''IMAP_TEST_SMTP_PORT'', ''IMAP_TEST_USER'', ''IMAP_TEST_PASS'', ''IMAP_TEST_MAILBOX'']"

fun requireKeys :: "yaml_map \<Rightarrow> string list \<Rightarrow> ci_fail + unit" where
  "requireKeys env [] = Inr ()"
| "requireKeys env (key # keys) = (if env key = None then Inl (EnvMissing key) else requireKeys env keys)"

definition checkIntegrationJob :: "(yaml \<Rightarrow> string) \<Rightarrow> yaml_map \<Rightarrow> ci_fail + unit" where
  "checkIntegrationJob sprint jobs =
     orFail (mustMap sprint jobs ''integration-test'') (\<lambda>job.
     orFail (assertContains (asStringList sprint (job ''needs'')) ''check-changes'' ''integration-test.needs must include check-changes'') (\<lambda>_.
     orFail (mustString job ''if'') (\<lambda>ifCond.
     orFail (assertContains [ifCond] ''has-integration-changes'' ''integration-test.if must reference has-integration-changes'') (\<lambda>_.
     orFail (mustMap sprint job ''services'') (\<lambda>services.
     orFail (mustMap sprint services ''greenmail'') (\<lambda>gm.
     orFail (mustString gm ''image'') (\<lambda>image.
     orFail (assertEqual image ''greenmail/standalone:2.1.3'' ''greenmail service image'') (\<lambda>_.
     orFail (assertContains (asStringList sprint (gm ''ports'')) ''3993:3993'' ''greenmail must expose port 3993'') (\<lambda>_.
     orFail (assertContains (asStringList sprint (gm ''ports'')) ''3025:3025'' ''greenmail must expose port 3025'') (\<lambda>_.
     orFail (mustMap sprint gm ''env'') (\<lambda>gmEnv.
     orFail (mustString gmEnv ''GREENMAIL_OPTS'') (\<lambda>opts.
     orFail (assertContains [opts] ''greenmail.users=imap-test'' ''GREENMAIL_OPTS must register fixed user'') (\<lambda>_.
     orFail (assertContains [opts] ''greenmail.users.login=email'' ''GREENMAIL_OPTS must set login=email'') (\<lambda>_.
     orFail (mustMap sprint job ''env'') (\<lambda>env.
     orFail (requireKeys env testEnvKeys) (\<lambda>_.
     assertStepRuns sprint job ''make test-integration'' ''integration-test must run make test-integration''))))))))))))))))"

fun forbidIntegration :: "(yaml \<Rightarrow> string) \<Rightarrow> yaml list \<Rightarrow> ci_fail + unit" where
  "forbidIntegration sprint [] = Inr ()"
| "forbidIntegration sprint (s # steps) =
     (let run = stepRun sprint s in
      if contains_str run ''-tags integration'' \<or> contains_str run ''test-integration'' then Inl (TestRunsIntegration run)
      else forbidIntegration sprint steps)"

definition checkTestJob :: "(yaml \<Rightarrow> string) \<Rightarrow> yaml_map \<Rightarrow> ci_fail + unit" where
  "checkTestJob sprint jobs =
     orFail (mustMap sprint jobs ''test'') (\<lambda>job.
     if job ''services'' \<noteq> None then Inl TestHasServices
     else
       orFail (forbidIntegration sprint (asList (job ''steps''))) (\<lambda>_.
       assertStepRuns sprint job ''make test'' ''test job must run make test''))"

definition checkNonCodeNotification :: "(yaml \<Rightarrow> string) \<Rightarrow> yaml_map \<Rightarrow> ci_fail + unit" where
  "checkNonCodeNotification sprint jobs = (case jobs ''non-code-only-notification'' of
       None \<Rightarrow> Inr ()
     | Some job \<Rightarrow>
         let ifCond = (case toMap sprint job of None \<Rightarrow> [] | Some jm \<Rightarrow> (case jm ''if'' of Some (YString s) \<Rightarrow> s | _ \<Rightarrow> [])) in
         if \<not> contains_str ifCond ''has-integration-changes'' then Inl NotificationCondition else Inr ())"

definition verifyWorkflow :: "(yaml \<Rightarrow> string) \<Rightarrow> (string \<Rightarrow> (string \<times> yaml) list option) \<Rightarrow> string option \<Rightarrow> ci_fail + unit" where
  "verifyWorkflow sprint unmarshal file = (case file of
       None \<Rightarrow> Inl ReadFailed
     | Some data \<Rightarrow> (case unmarshal data of
         None \<Rightarrow> Inl ParseFailed
       | Some wflow \<Rightarrow>
           orFail (mustMap sprint (map_of wflow) ''jobs'') (\<lambda>jobs.
           orFail (checkIntegrationJob sprint jobs) (\<lambda>_.
           orFail (checkTestJob sprint jobs) (\<lambda>_.
           checkNonCodeNotification sprint jobs)))))"

section \<open>What is accepted\<close>

text \<open>The value at a path of keys.\<close>

fun node_at :: "(yaml \<Rightarrow> string) \<Rightarrow> yaml \<Rightarrow> string list \<Rightarrow> yaml option" where
  "node_at sprint v [] = Some v"
| "node_at sprint v (k # ks) = Option.bind (toMap sprint v) (\<lambda>m. Option.bind (m k) (\<lambda>v'. node_at sprint v' ks))"

definition one_with :: "string \<Rightarrow> string list \<Rightarrow> bool" where
  "one_with sub l \<longleftrightarrow> (\<exists>s \<in> set l. sublist sub s)"

definition mentions :: "(yaml \<Rightarrow> string) \<Rightarrow> string \<Rightarrow> yaml option \<Rightarrow> bool" where
  "mentions sprint sub v \<longleftrightarrow> one_with sub (asStringList sprint v)"

definition some_step_runs :: "(yaml \<Rightarrow> string) \<Rightarrow> string \<Rightarrow> yaml option \<Rightarrow> bool" where
  "some_step_runs sprint sub steps \<longleftrightarrow> (\<exists>s \<in> set (asList steps). sublist sub (stepRun sprint s))"

definition text_with :: "string \<Rightarrow> yaml option \<Rightarrow> bool" where
  "text_with sub v \<longleftrightarrow> (\<exists>s. v = Some (YString s) \<and> sublist sub s)"

text \<open>The integration job depends on the classification of changes, has the mail server as a service with its fixed user, gets its environment and runs the integration tests.\<close>

definition integration_job_ok :: "(yaml \<Rightarrow> string) \<Rightarrow> yaml \<Rightarrow> bool" where
  "integration_job_ok sprint job \<longleftrightarrow>
     mentions sprint ''check-changes'' (node_at sprint job [''needs''])
     \<and> text_with ''has-integration-changes'' (node_at sprint job [''if''])
     \<and> node_at sprint job [''services'', ''greenmail'', ''image''] = Some (YString ''greenmail/standalone:2.1.3'')
     \<and> mentions sprint ''3993:3993'' (node_at sprint job [''services'', ''greenmail'', ''ports''])
     \<and> mentions sprint ''3025:3025'' (node_at sprint job [''services'', ''greenmail'', ''ports''])
     \<and> text_with ''greenmail.users=imap-test'' (node_at sprint job [''services'', ''greenmail'', ''env'', ''GREENMAIL_OPTS''])
     \<and> text_with ''greenmail.users.login=email'' (node_at sprint job [''services'', ''greenmail'', ''env'', ''GREENMAIL_OPTS''])
     \<and> (\<forall>key \<in> set testEnvKeys. node_at sprint job [''env'', key] \<noteq> None)
     \<and> some_step_runs sprint ''make test-integration'' (node_at sprint job [''steps''])"

text \<open>The ordinary test job has no services, runs the tests, and no step of it runs integration tests.\<close>

definition test_job_ok :: "(yaml \<Rightarrow> string) \<Rightarrow> yaml \<Rightarrow> bool" where
  "test_job_ok sprint job \<longleftrightarrow>
     node_at sprint job [''services''] = None
     \<and> some_step_runs sprint ''make test'' (node_at sprint job [''steps''])
     \<and> \<not> some_step_runs sprint ''-tags integration'' (node_at sprint job [''steps''])
     \<and> \<not> some_step_runs sprint ''test-integration'' (node_at sprint job [''steps''])"

definition workflow_ok :: "(yaml \<Rightarrow> string) \<Rightarrow> yaml \<Rightarrow> bool" where
  "workflow_ok sprint doc \<longleftrightarrow>
     (\<exists>job. node_at sprint doc [''jobs'', ''integration-test''] = Some job \<and> integration_job_ok sprint job)
     \<and> (\<exists>job. node_at sprint doc [''jobs'', ''test''] = Some job \<and> test_job_ok sprint job)
     \<and> (\<forall>job. node_at sprint doc [''jobs'', ''non-code-only-notification''] = Some job \<longrightarrow> text_with ''has-integration-changes'' (node_at sprint job [''if'']))"

section \<open>Acceptance\<close>

named_theorems ci_checks \<open>when a check passes\<close>

lemma orFail_Inr [ci_checks]: "orFail r k = Inr b \<longleftrightarrow> (\<exists>a. r = Inr a \<and> k a = Inr b)"
  by (cases r) (simp_all add: orFail_def)

lemma mustMap_Inr [ci_checks]: "mustMap sprint m key = Inr m' \<longleftrightarrow> (\<exists>v. m key = Some v \<and> toMap sprint v = Some m')"
  by (auto simp: mustMap_def split: option.splits)

lemma mustString_Inr [ci_checks]: "mustString m key = Inr s \<longleftrightarrow> m key = Some (YString s)"
  by (auto simp: mustString_def split: option.splits yaml.splits)

lemma assertContains_Inr [ci_checks]: "assertContains l sub msg = Inr u \<longleftrightarrow> one_with sub l"
  by (simp add: assertContains_def one_with_def list_ex_iff contains_str_sublist)

lemma assertEqual_Inr [ci_checks]: "assertEqual got want msg = Inr u \<longleftrightarrow> got = want"
  by (simp add: assertEqual_def)

lemma assertStepRuns_Inr [ci_checks]: "assertStepRuns sprint job sub msg = Inr u \<longleftrightarrow> some_step_runs sprint sub (job ''steps'')"
  by (simp add: assertStepRuns_def some_step_runs_def list_ex_iff contains_str_sublist)

lemma requireKeys_Inr [ci_checks]: "requireKeys env keys = Inr u \<longleftrightarrow> (\<forall>key \<in> set keys. env key \<noteq> None)"
  by (induction keys) auto

lemma forbidIntegration_Inr [ci_checks]: "forbidIntegration sprint steps = Inr u \<longleftrightarrow>
    (\<forall>s \<in> set steps. \<not> sublist ''-tags integration'' (stepRun sprint s) \<and> \<not> sublist ''test-integration'' (stepRun sprint s))"
  by (induction steps) (auto simp: Let_def contains_str_sublist)

lemma checkTestJob_accepts:
  "checkTestJob sprint jobs = Inr () \<longleftrightarrow> (\<exists>job. jobs ''test'' = Some job \<and> test_job_ok sprint job)"
proof -
  have "test_job_ok sprint v \<longleftrightarrow> (\<exists>job. toMap sprint v = Some job \<and> job ''services'' = None \<and> forbidIntegration sprint (asList (job ''steps'')) = Inr ()
      \<and> some_step_runs sprint ''make test'' (job ''steps''))" for v
    by (cases "toMap sprint v") (auto simp: test_job_ok_def ci_checks some_step_runs_def)
  then show ?thesis by (auto simp: checkTestJob_def ci_checks split: if_splits)
qed

lemma one_with_single [simp]: "one_with sub [s] \<longleftrightarrow> sublist sub s"
  by (simp add: one_with_def)

text \<open>All keys lie below one mapping.\<close>

lemma keys_below: "keys \<noteq> [] \<Longrightarrow> (\<forall>key \<in> set keys. node_at sprint v [k, key] \<noteq> None) \<longleftrightarrow>
    (\<exists>u m. node_at sprint v [k] = Some u \<and> toMap sprint u = Some m \<and> (\<forall>key \<in> set keys. m key \<noteq> None))"
  by (cases "node_at sprint v [k]"; cases keys) (auto simp: Option.bind_eq_Some_conv)

lemma checkIntegrationJob_accepts:
  "checkIntegrationJob sprint jobs = Inr () \<longleftrightarrow> (\<exists>job. jobs ''integration-test'' = Some job \<and> integration_job_ok sprint job)"
proof -
  have env: "testEnvKeys \<noteq> []" by (simp add: testEnvKeys_def)
  show ?thesis
    unfolding checkIntegrationJob_def ci_checks integration_job_ok_def mentions_def text_with_def keys_below [OF env]
    by (auto simp: Option.bind_eq_Some_conv)
qed

lemma checkNonCodeNotification_accepts:
  "checkNonCodeNotification sprint jobs = Inr () \<longleftrightarrow> (\<forall>job. jobs ''non-code-only-notification'' = Some job \<longrightarrow> text_with ''has-integration-changes'' (node_at sprint job [''if'']))"
  by (auto simp: checkNonCodeNotification_def text_with_def contains_str_sublist split: option.splits yaml.splits)

text \<open>
  C39. The script ends without a failure exactly if the workflow file can be read and parsed and satisfies the requirements: the integration job is wired as specified, the test job
  runs the tests without services and integration tests, and the notification, if there is one, refers to integration changes.
\<close>

theorem verifyWorkflow_accepts:
  "verifyWorkflow sprint unmarshal file = Inr () \<longleftrightarrow> (\<exists>data doc. file = Some data \<and> unmarshal data = Some doc \<and> workflow_ok sprint (YMap doc))"
proof (cases "\<exists>data doc. file = Some data \<and> unmarshal data = Some doc")
  case True
  then obtain data doc where d: "file = Some data" "unmarshal data = Some doc" by blast
  have jobs: "node_at sprint (YMap doc) [''jobs'', k] = Option.bind (Option.bind (map_of doc ''jobs'') (toMap sprint)) (\<lambda>m. m k)" for k
    by (cases "map_of doc ''jobs''") auto
  show ?thesis
    unfolding verifyWorkflow_def workflow_ok_def jobs d option.case ci_checks
    by (cases "Option.bind (map_of doc ''jobs'') (toMap sprint)") (auto simp: Option.bind_eq_Some_conv d checkIntegrationJob_accepts checkTestJob_accepts checkNonCodeNotification_accepts)
next
  case False
  then show ?thesis by (auto simp: verifyWorkflow_def split: option.splits)
qed

text \<open>A workflow cut down to what the script looks at passes; it does not when the test job runs the integration tests.\<close>

definition sample_print :: "yaml \<Rightarrow> string" where
  "sample_print v = (case v of YString s \<Rightarrow> s | _ \<Rightarrow> [])"

definition sample_steps :: "string \<Rightarrow> string \<times> yaml" where
  "sample_steps run = (''steps'', YList [YMap [(''uses'', YString ''actions/checkout@v4'')], YMap [(''run'', YString run)]])"

definition sample_workflow :: "string \<Rightarrow> string \<Rightarrow> (string \<times> yaml) list" where
  "sample_workflow test_run integration_run = [(''name'', YString ''CI''), (''jobs'', YMap
    [(''test'', YMap [(''needs'', YString ''check-changes''), sample_steps test_run]),
     (''integration-test'', YMap [(''needs'', YString ''check-changes''), (''if'', YString ''needs.check-changes.outputs.has-integration-changes''),
        (''services'', YMap [(''greenmail'', YMap [(''image'', YString ''greenmail/standalone:2.1.3''),
           (''env'', YMap [(''GREENMAIL_OPTS'', YString ''-Dgreenmail.users=imap-test:imap-test@example.com -Dgreenmail.users.login=email'')]),
           (''ports'', YList [YString ''3993:3993'', YString ''3025:3025''])])]),
        (''env'', YMap (map (\<lambda>key. (key, YString ''x'')) testEnvKeys)), sample_steps integration_run])])]"

lemma sample_workflow_checked:
  "verifyWorkflow sample_print (\<lambda>_. Some (sample_workflow ''make test'' ''make test-integration'')) (Some []) = Inr ()"
  "verifyWorkflow sample_print (\<lambda>_. Some (sample_workflow ''make test-integration'' ''make test-integration'')) (Some []) = Inl (TestRunsIntegration ''make test-integration'')"
  by code_simp+

end
