(* ===== verification/Spec2Isabelle.thy ===== *)
theory Spec2Isabelle
  imports Reset_Safety Fetch_Alerts Reprocess_Safety Store_Fake Ci_Workflow
begin

text \<open>
  A verification of \<^verbatim>\<open>tlsrpt-digest\<close>, a command-line program that fetches TLS-RPT reports (RFC 8460) from an IMAP mailbox, keeps
  mails and reports in a directory, alerts to Slack about failed sessions and reports totals.

  \<^bold>\<open>Parts of the program.\<close> A subcommand (\<^verbatim>\<open>cmd/tlsrpt-digest\<close>) starts up (\<^verbatim>\<open>boot.go\<close>: configuration, lock, store, notifier) and runs. \<^verbatim>\<open>fetch\<close> lists
  the mailbox through the client (\<^verbatim>\<open>internal/imap\<close>), stores new mails, extracts reports (\<^verbatim>\<open>internal/mailparse\<close>, \<^verbatim>\<open>internal/tlsrpt\<close>), saves them in the
  data file (\<^verbatim>\<open>internal/store\<close>), sends alerts (\<^verbatim>\<open>internal/notify\<close>) and marks the messages as seen. \<^verbatim>\<open>gc\<close> deletes old data, \<^verbatim>\<open>reprocess\<close> parses the stored
  mails again, \<^verbatim>\<open>summary\<close> sends totals. When the UIDVALIDITY of the mailbox changes, the sentinel file records that a recovery is required;
  \<^verbatim>\<open>recover\<close> then keeps or discards the old data, the latter by a reset in phases that survives crashes.

  \<^bold>\<open>Foundations.\<close>
  \<^item> \<open>Go_Prelude\<close>, \<open>Go_Time\<close>, \<open>Go_Error\<close>: decimal and padded numbers, texts, \<^verbatim>\<open>int64\<close> wrap-around, \<^verbatim>\<open>time.Time\<close> in UTC as nanoseconds since the year 1 with the
    civil calendar, and the error values with \<^verbatim>\<open>errors.Is\<close> and \<^verbatim>\<open>errors.Join\<close>.
  \<^item> \<open>Go_IO\<close>: a file system as an association list from paths to directories and files with typed contents, a clock and a schedule
    that decides for every system call whether it passes, fails (with or without a partial effect) or the process dies. Programs pass the world
    and end with a value, an error or a crash. A theorem about every world is one about every schedule of faults and crashes.
  \<^item> \<open>Go_VC\<close>: verification conditions \<open>vwp\<close> over the visible files, that is all but temporary ones, with rules in the collection \<open>vc\<close>. The flag \<open>calm\<close> restricts
    a condition to an empty schedule, for theorems that an operation succeeds.

  \<^bold>\<open>Store\<close> (\<^verbatim>\<open>internal/store\<close>).
  \<^item> \<open>Store_Files\<close>: \<^verbatim>\<open>types.go\<close>, \<^verbatim>\<open>errors.go\<close>, \<^verbatim>\<open>permission.go\<close>, \<^verbatim>\<open>atomicfile.go\<close>, \<^verbatim>\<open>sentinel.go\<close>. The locale \<open>crash_atomic\<close> is the contract of an operation that takes effect
    at one point; atomic writes, the sentinel, saving and deleting reports are its instances.
  \<^item> \<open>Store_Reports\<close> (\<^verbatim>\<open>reports.go\<close>) and \<open>Store_Emails\<close> (\<^verbatim>\<open>emails.go\<close>): the locale \<open>keyed_upsert\<close> specifies a table with unique keys, interpreted for
    reports (replace) and the index of mails (keep). Saving refines an update of an abstract map, deletion keeps what is recent, paths of mails are read
    back.
  \<^item> \<open>Store_Recovery\<close>, \<open>Store_Open\<close> (\<^verbatim>\<open>recovery.go\<close>, \<^verbatim>\<open>store.go\<close>): the reset in phases, the guard file and opening. The locale \<open>sentinel_writer\<close> is the contract of
    the four operations that rewrite the sentinel.
  \<^item> \<open>Store_Fake\<close> (\<^verbatim>\<open>testutil/mocks.go\<close>): the in-memory store of the tests, as the specification of the file store. The locale \<open>atomic_refinement\<close> lifts a simulation of
    single operations to sequences of them with faults and crashes between and within; \<open>mirrors\<close> relates files and double. Operations in more than one step (deleting mails,
    the reset) are outside of it, and so is saving a mail, which the double also enters in its index.

  \<^bold>\<open>Reports, mails, configuration.\<close>
  \<^item> \<open>Tlsrpt\<close> (\<^verbatim>\<open>tlsrpt.go\<close>) and \<open>Mailparse\<close> (\<^verbatim>\<open>mailparse.go\<close>): limits on decompressed and extracted sizes. Nested multipart bodies are a recursion on the levels still
    allowed, which is the program's own bound of the depth.
  \<^item> \<open>Config\<close> (\<^verbatim>\<open>internal/config\<close>) and \<open>Cmd_Duration\<close> (\<^verbatim>\<open>duration.go\<close>): what is accepted, as an equivalence; the hostname pattern; durations and cutoffs with
    their overflow.

  \<^bold>\<open>Notifications\<close> (\<^verbatim>\<open>internal/notify\<close>).
  \<^item> \<open>Notify_Types\<close>, \<open>Notify_Format\<close>: payloads, records and the Slack messages made of them, with the limits of attachments, fields and lengths.
  \<^item> \<open>Notify_Retry\<close>: posting with retries over a scripted network; the loop is structural on the remaining attempts. \<open>Notify_Handler\<close>: buffering, flushing
    and the set-up of handlers; what is posted is what was logged. The locale \<open>sort_func\<close> says what is used of the library's sorting; the comparator is the program's.
  \<^item> \<open>Notify_Summary\<close> (\<^verbatim>\<open>aggregate.go\<close>): totals as sums over the stored reports.

  \<^bold>\<open>Mail client\<close> (\<^verbatim>\<open>internal/imap\<close>): \<open>Imap_Client\<close>. The go-imap library with the server behind it is a record of functions that answer a command from the whole history, so that
    theorems about every server cover every sequence of answers. Commands sent are recorded; the inductive predicate \<open>client_state\<close> describes
    the states a client reaches.

  \<^bold>\<open>Commands.\<close>
  \<^item> \<open>Cmd_Boot\<close>, \<open>Cmd_Recover\<close> (\<^verbatim>\<open>lock.go\<close>, \<^verbatim>\<open>storelock.go\<close>, \<^verbatim>\<open>recover.go\<close>, the part of \<^verbatim>\<open>boot.go\<close> that touches the store); \<open>Reset_Safety\<close>: any number of interrupted recovery
    runs followed by an undisturbed one and an ordinary opening give an empty, consistent store; opening is blocked meanwhile; and a manifest that outlives
    its reset makes a later clean-up delete current data.
  \<^item> \<open>Cmd_Runner\<close>, \<open>Cmd_Fetch\<close>, \<open>Cmd_Gc\<close> (\<^verbatim>\<open>fetch.go\<close>, \<^verbatim>\<open>gc.go\<close>, \<^verbatim>\<open>reprocess.go\<close>, \<^verbatim>\<open>summary.go\<close>, \<^verbatim>\<open>notify_helpers.go\<close>): the runners over a state of files, network, notifier and client.
  \<^item> \<open>Runner_VC\<close>: conditions \<open>cwp\<close> over visible files and commands sent, and the locale \<open>step_relation\<close> for relations that every step keeps.
    \<open>Fetch_Safety\<close>: a run of fetch marks a message as seen only when mail and reports are stored. \<open>Runner_Safety\<close>: dry runs, runs on a store that waits for a recovery, retention.
    This theory: a changed UIDVALIDITY is recorded and nothing else is touched.
  \<^item> \<open>Cmd_Flags\<close> (\<^verbatim>\<open>main.go\<close>): the flag loop of the standard library and \<^verbatim>\<open>parseCLI\<close>. The locale \<open>flag_invariant\<close> is the contract of a flag set whose setters keep a predicate of the
    options; the accepted invocations are exactly the valid ones.
  \<^item> \<open>Cmd_Main\<close> (\<^verbatim>\<open>boot.go\<close>, \<^verbatim>\<open>main.go\<close>): the whole program, from the arguments through \<^verbatim>\<open>Bootstrap\<close> to the exit code. A recovery from the command line is the recovery that \<open>Reset_Safety\<close> is
    about.
  \<^item> \<open>Store_Invariant\<close>: the data file, sentinel and manifest are absent or valid documents, kept by every operation, subcommand and invocation. \<open>Cli_Safety\<close>: histories of invocations
    as an inductive relation, the invariant along them, and fetching and dry runs from the command line.
  \<^item> \<open>Fetch_Alerts\<close>: the buffers of the handlers as the notifications logged since the last flush, and that a fetch posts the alerts about a mail before it marks the message.
  \<^item> \<open>Reprocess_Safety\<close>: what loading the stored mails finds without faults, and that reprocessing rebuilds the table of reports from them.
  \<^item> \<open>Ci_Workflow\<close> (\<^verbatim>\<open>.github/scripts/verify-integration-workflow.go\<close>): the script that checks the workflow of the repository, and what it accepts.

  \<^bold>\<open>Arguments of the model.\<close> Code that is not part of the repository is a function argument or a field of an environment: the JSON, gzip, TOML, YAML, MIME
  and URL decoders, \<^verbatim>\<open>net/mail\<close>, sorting and printing of the standard library where their algorithm does not matter, the network and the mail server. File contents
  are values instead of their JSON encoding.

  \<^bold>\<open>Not modelled.\<close> Log output, standard output and help texts; the closing of handles, which only releases locks; symbolic links;
  time zones; the exclusion that \<^verbatim>\<open>flock\<close> gives between processes (its failure is modelled) and the loss of unsynced writes at a power failure; cancellation of
  the context of \<^verbatim>\<open>main\<close>, which never happens; the other test helpers, which record calls and return prepared answers or talk to a test server.

  \<^bold>\<open>Possible extensions.\<close> The interleaving of \<^verbatim>\<open>summary\<close> with a run of another subcommand under the guard file, which needs locks in the model of the system; reprocessing when
  single mails cannot be read.
\<close>

section \<open>A change of the mailbox's validity\<close>

text \<open>The files afterwards: as before, or with the recovery recorded; a missing guard file may appear.\<close>

abbreviation unrecorded :: "fileStore \<Rightarrow> nat \<Rightarrow> internalSentinelFile \<Rightarrow> store_view \<Rightarrow> store_view \<Rightarrow> bool" where
  "unrecorded st m x V V' \<equiv> sentinel_now (rootDir st) (Some (Reg m (CSentinel x))) V V'"

definition recorded :: "fileStore \<Rightarrow> u32 \<Rightarrow> internalSentinelFile \<Rightarrow> store_view \<Rightarrow> store_view \<Rightarrow> bool" where
  "recorded st u x V V' \<longleftrightarrow> (\<exists>c t. c \<noteq> u \<and> sentinel_now (rootDir st) (Some (Reg 384 (CSentinel (with_recovery (u, c, t) x)))) V V')"

definition sent_harmless :: "imap_cmd list \<Rightarrow> imap_cmd list \<Rightarrow> bool" where
  "sent_harmless T T' \<longleftrightarrow> (\<exists>cs. T' = T @ cs \<and> list_all harmless cs)"

lemma sent_harmless_refl [simp]: "sent_harmless T T"
  by (simp add: sent_harmless_def)

lemma sent_harmless_append [simp]: "list_all harmless cs \<Longrightarrow> sent_harmless T T' \<Longrightarrow> sent_harmless T (T' @ cs)"
  by (auto simp: sent_harmless_def)

lemma harmless_sets:
  "list_all (\<lambda>cmd. \<exists>u p. cmd = Login u p \<or> cmd = Logout) cs \<Longrightarrow> list_all harmless cs" "list_all reading cs \<Longrightarrow> list_all harmless cs"
  "set cs \<subseteq> {CloseMailbox, Logout} \<Longrightarrow> list_all harmless cs"
  by (auto simp: list_all_iff harmless_def)

lemma vwp_LoadUIDValidity_at:
  assumes "clean (rootDir st)" "V (sentinelPath (rootDir st)) = Some (Reg m (CSentinel x))"
  shows "vwp False (LoadUIDValidity st) (\<lambda>v V'. V' = V \<and> v = UIDValidity x) (\<lambda>_ V'. V' = V) (\<lambda>V'. V' = V) V"
  unfolding LoadUIDValidity_def
  by (rule vwp_bind, rule vwp_mapErr, rule vwp_loadSentinel) (use assms in \<open>auto intro!: vc\<close>)

lemma cwp_fetchSession_changed:
  assumes c: "clean (rootDir (boot_Store boot))" and at: "V (sentinelPath (rootDir (boot_Store boot))) = Some (Reg m (CSentinel x))"
    and x: "FormatVersion x = SentinelFormatVersion" "UIDValidity x = Some u" and dry: "\<not> DryRun (boot_Options boot)"
    and changed: "\<And>h status. on_Select (env_server env) h = Inr status \<Longrightarrow> UidValidity status \<noteq> u" and T: "sent_harmless T0 T"
  shows "cwp (fetchSession env boot now mailbox)
    (\<lambda>code V' T'. code = exitError \<and> recorded (boot_Store boot) u x V V' \<and> sent_harmless T0 T')
    (\<lambda>_ V' T'. unrecorded (boot_Store boot) m x V V' \<and> sent_harmless T0 T')
    (\<lambda>V' T'. (unrecorded (boot_Store boot) m x V V' \<or> recorded (boot_Store boot) u x V V') \<and> sent_harmless T0 T') V T"
proof -
  have id: "unrecorded (boot_Store boot) m x V V" by (rule sentinel_nowI [where V = V, OF at])
  have save: "vwp False (SaveRecoveryRequired (boot_Store boot) u cur now) (\<lambda>_ V'. recorded (boot_Store boot) u x V V')
      (\<lambda>_ V'. unrecorded (boot_Store boot) m x V V') (\<lambda>V'. unrecorded (boot_Store boot) m x V V' \<or> recorded (boot_Store boot) u x V V') V"
    if "cur \<noteq> u" for cur
    by (rule vwp_conseq [OF recovery.law [where V = V and a = "(u, cur, now)" and calm = False, OF c at x(1), simplified prod.case]])
      (use that in \<open>auto simp: recorded_def\<close>)
  show ?thesis
    unfolding fetchSession_def fetchValidateUID_def Let_def notifyFetchSystemError_def
    apply (rule cwp_bind, rule cwp_attempt, rule cwp_onImap_result [OF reading_ops(1)])
    subgoal premises prems for res cs client
    proof -
      have ne: "u \<noteq> res_UIDValidity res" using FetchMeta_result [OF prems(2)] changed by metis
      have T': "sent_harmless T0 (T @ cs)" using T prems(1) harmless_sets(2) by simp
      show ?thesis
        apply (simp only: sum.case, rule cwp_bind, rule cwp_bind, rule cwp_attempt, rule cwp_onStore [OF vwp_LoadUIDValidity_at [where V = V, OF c at]])
        subgoal
          apply (elim conjE, hypsubst, simp only: x(2) sum.case option.case ne dry if_True if_False not_False_eq_True simp_thms)
          by (rule cwp_bind, rule cwp_attempt, rule cwp_onStore [OF save [OF ne [symmetric]]]) (use T' in \<open>auto intro!: cvc\<close>)
        using id T' by (auto intro!: cvc)
    qed
    using id T harmless_sets(2) by (auto intro!: cvc)
qed

text \<open>
  C8. A changed validity of the mailbox is never overlooked. Let the store have recorded the validity \<open>u\<close> and every selection on the
  server report another one. Then a run of fetch that is not dry, whatever fails or crashes, does not succeed, changes no file
  but the sentinel (a missing guard file may appear) and nothing on the server, and leaves the sentinel as it was or with the
  recovery from \<open>u\<close> to another validity recorded as required. If it has its credentials, no recovery was required before and it
  ends without an error, then the recovery is recorded.
\<close>

theorem validity_change_recorded:
  assumes "clean (rootDir (boot_Store boot))" "view (cs_world s) (sentinelPath (rootDir (boot_Store boot))) = Some (Reg m (CSentinel x))"
    "FormatVersion x = SentinelFormatVersion" "UIDValidity x = Some u" "\<not> DryRun (boot_Options boot)"
    "\<forall>h status. on_Select (env_server env) h = Inr status \<longrightarrow> UidValidity status \<noteq> u" "fetchRun env boot s = (r, s')"
  shows "r \<noteq> Ok exitOK \<and> sent_harmless (trace (cs_client s)) (trace (cs_client s'))
    \<and> (sentinel_now (rootDir (boot_Store boot)) (Some (Reg m (CSentinel x))) (view (cs_world s)) (view (cs_world s'))
       \<or> recorded (boot_Store boot) u x (view (cs_world s)) (view (cs_world s')))
    \<and> (RecoveryRequired x = None \<and> env_username env \<noteq> [] \<and> env_password env \<noteq> [] \<and> (\<exists>code. r = Ok code) \<longrightarrow>
       recorded (boot_Store boot) u x (view (cs_world s)) (view (cs_world s')))"
proof -
  let ?V = "view (cs_world s)" let ?T = "trace (cs_client s)" let ?st = "boot_Store boot"
  let ?E = "\<lambda>_ V' T'. unrecorded ?st m x ?V V' \<and> sent_harmless ?T T'"
  let ?C = "\<lambda>V' T'. (unrecorded ?st m x ?V V' \<or> recorded ?st u x ?V V') \<and> sent_harmless ?T T'"
  let ?Q = "\<lambda>code V' T'. code = exitError \<and> ?C V' T' \<and> (RecoveryRequired x = None \<and> env_username env \<noteq> [] \<and> env_password env \<noteq> [] \<longrightarrow> recorded ?st u x ?V V')"
  have id: "unrecorded ?st m x ?V ?V" by (rule sentinel_nowI [where V = ?V, OF assms(2)])
  have session: "cwp (deferIO (onImap (Close (env_server env))) (fetchSession env boot now mailbox)) ?Q ?E ?C ?V (?T @ cs)" if "list_all harmless cs" for now mailbox cs
    apply (rule cwp_defer, rule cwp_conseq [OF cwp_fetchSession_changed [where V = ?V and ?T0.0 = ?T, OF assms(1-5)]])
    using assms(6) that harmless_sets(3) by (auto intro!: cvc)
  have "cwp (fetchRun env boot) ?Q ?E ?C ?V ?T"
    unfolding fetchRun_def Let_def notifyFetchSystemError_def
    apply (rule cwp_bind, rule cwp_onStore [where Q' = "\<lambda>_ V'. V' = ?V" and E' = "\<lambda>_ _. False" and C' = "\<lambda>_. False"])
       apply (auto intro!: vc)[1]
      apply (hypsubst, rule cwp_bind, rule cwp_attempt, rule cwp_onStore [OF vwp_LoadRecoveryRequired_at [where V = ?V, OF assms(1,2)]])
        apply (elim conjE, hypsubst, simp only: sum.case, rule cwp_cases)
    subgoal
      apply (rule cwp_if)
      subgoal using id by (auto intro!: cvc)
      by (rule cwp_bind, rule cwp_attempt, rule cwp_connect) (use id session harmless_sets(1) in \<open>auto intro!: cvc\<close>)
    using id by (auto intro!: cvc)
  from cwp_run [OF this assms(7)] show ?thesis by (auto simp: exitError_def exitOK_def split: outcome.splits)
qed

definition sample_old_world :: "content world" where
  "sample_old_world = \<lparr>fs = sample_files (sample_sentinel (Some 1) None), sched = [], clock = 11\<rparr>"

theorem validity_change_recorded_witness:
  "fst (fetchRun (sample_env False) (sample_boot False) (sample_state sample_old_world)) \<noteq> Ok exitOK
   \<and> (\<exists>s'. s' = snd (fetchRun (sample_env False) (sample_boot False) (sample_state sample_old_world))
      \<and> sent_harmless [] (trace (cs_client s'))
      \<and> (sentinel_now [''s''] (Some (Reg 384 (CSentinel (sample_sentinel (Some 1) None)))) (view sample_old_world) (view (cs_world s'))
         \<or> recorded sample_store 1 (sample_sentinel (Some 1) None) (view sample_old_world) (view (cs_world s'))))"
proof -
  let ?x = "sample_sentinel (Some 1) None" let ?s = "sample_state sample_old_world"
  obtain r s' where run: "fetchRun (sample_env False) (sample_boot False) ?s = (r, s')" by fastforce
  have at: "view (cs_world ?s) (sentinelPath (rootDir (boot_Store (sample_boot False)))) = Some (Reg 384 (CSentinel ?x))"
    by (simp add: sample_run_facts) (simp add: sample_store_def sample_old_world_def sample_files_def path_defs visible_def)
  have c: "clean (rootDir (boot_Store (sample_boot False)))" using sample_run_facts(1) standard_paths(4) by blast
  have sel: "\<forall>h status. on_Select (env_server (sample_env False)) h = Inr status \<longrightarrow> UidValidity status \<noteq> 1"
    by (auto simp: sample_env_def sample_server_def)
  have x: "FormatVersion ?x = SentinelFormatVersion" "UIDValidity ?x = Some 1"
    by (simp_all add: sample_sentinel_def SentinelFormatVersion_def)
  from validity_change_recorded [OF c at x(1,2) _ sel run] run show ?thesis by (auto simp: sample_run_facts) (auto simp: sample_store_def)
qed

end
